(* ===== verification/Prelude.thy ===== *)
theory Prelude
  imports Main "HOL-Library.Word"
begin

text \<open>
  Shared vocabulary of the development: the integer types of include/common.h, the result
  type of operations that can stop the machine or leave the C language, and the facts about
  32-bit address arithmetic that the component theories use (collection \<open>addr_simps\<close>).
\<close>

unbundle bit_operations_syntax

named_theorems addr_simps
named_theorems res_simps

section \<open>Integer types\<close>

type_synonym u8 = "8 word"
type_synonym u16 = "16 word"
type_synonym u32 = "32 word"

text \<open>A raw byte memory, addressed by 32-bit addresses that wrap around.\<close>

type_synonym memory = "u32 \<Rightarrow> u8"

text \<open>The bytes of a string literal (ASCII, without the terminator).\<close>

definition bytes :: "string \<Rightarrow> u8 list" where
  "bytes cs = map of_char cs"

section \<open>Results\<close>

text \<open>
  \<open>Halted s\<close>: the code ran into \<^verbatim>\<open>PANIC\<close> or a failed \<^verbatim>\<open>ASSERT\<close>, which prints a
  message and executes \<^verbatim>\<open>cli; hlt\<close>; \<open>s\<close> is the machine at that point.
  \<open>Undefined why\<close>: the C code has no defined continuation (a non-void function that falls off
  its end, a null dereference). \<open>Out_of_fuel\<close>: the recursion bound given to the model
  was too small.
\<close>

datatype 's fault = Halted 's | Undefined string | Out_of_fuel

type_synonym ('s, 'a) result = "'s fault + 'a"

definition bind_res :: "('s, 'a) result \<Rightarrow> ('a \<Rightarrow> ('s, 'b) result) \<Rightarrow> ('s, 'b) result" where
  "bind_res r f = (case r of Inl e \<Rightarrow> Inl e | Inr x \<Rightarrow> f x)"

text \<open>A \<^verbatim>\<open>for\<close> loop over a list of values whose body may stop.\<close>

fun fold_res :: "('x \<Rightarrow> 's \<Rightarrow> ('s, 's) result) \<Rightarrow> 'x list \<Rightarrow> 's \<Rightarrow> ('s, 's) result" where
  "fold_res f [] s = Inr s"
| "fold_res f (x # xs) s = bind_res (f x s) (fold_res f xs)"

text \<open>A loop that does not end is \<open>None\<close>, as a result \<open>Out_of_fuel\<close>.\<close>

definition ends :: "'b option \<Rightarrow> ('s, 'b) result" where
  "ends r = (case r of None \<Rightarrow> Inl Out_of_fuel | Some x \<Rightarrow> Inr x)"

lemma bind_res_simps [simp, res_simps]:
  "bind_res (Inl e) f = Inl e"
  "bind_res (Inr x) f = f x"
  by (simp_all add: bind_res_def)

lemma bind_res_eq_Inr [res_simps]:
  "bind_res r f = Inr y \<longleftrightarrow> (\<exists>x. r = Inr x \<and> f x = Inr y)"
  by (cases r) auto

lemma bind_res_assoc:
  "bind_res (bind_res r f) g = bind_res r (\<lambda>x. bind_res (f x) g)"
  by (cases r) auto

section \<open>Lists\<close>

lemma takeWhile_dropWhile_length:
  "length (takeWhile P xs) + length (dropWhile P xs) = length xs"
  by (metis length_append takeWhile_dropWhile_id)

lemma nth_takeWhile_prefix:
  "i < length (takeWhile P xs) \<Longrightarrow> P (xs ! i)"
  by (metis nth_mem set_takeWhileD takeWhile_nth)

lemma map_upt_cong:
  "(\<And>i. lo \<le> i \<Longrightarrow> i < hi \<Longrightarrow> f i = g i) \<Longrightarrow> map f [lo..<hi] = map g [lo..<hi]"
  by (rule map_cong) auto

section \<open>Addresses\<close>

lemma unat_of_nat_small [addr_simps]:
  "n < 4294967296 \<Longrightarrow> unat (of_nat n :: u32) = n"
  by (simp add: unat_of_nat take_bit_nat_eq_self)

lemma unat_lt_u32 [simp]: "unat (a :: u32) < 4294967296"
  using unsigned_less [of a] by simp

lemma unat_add_lem32:
  fixes a b :: u32
  assumes "unat a + unat b < 4294967296"
  shows "unat (a + b) = unat a + unat b"
  using assms by (simp add: unat_word_ariths)

lemma unat_add_of_nat:
  fixes a :: u32
  assumes "unat a + n < 4294967296"
  shows "unat (a + of_nat n) = unat a + n"
  using assms by (simp add: unat_word_ariths unat_of_nat take_bit_nat_eq_self)

lemma unat_inc_less:
  fixes i n :: u32
  assumes "i < n"
  shows "unat (i + 1) = unat i + 1"
proof -
  have "unat i < unat n" using assms by (simp add: word_less_nat_alt)
  then have "unat i + unat (1 :: u32) < 4294967296"
    using less_trans_Suc [OF _ unat_lt_u32] by simp
  then show ?thesis by (simp add: unat_add_lem32)
qed

lemma loop_measure [simp]:
  fixes i n :: u32
  assumes "i < n"
  shows "unat n - unat (i + 1) < unat n - unat i"
  using assms unat_inc_less [OF assms] by (simp add: word_less_nat_alt)

lemma unat_sub_lem32:
  fixes a b :: u32
  assumes "unat b \<le> unat a"
  shows "unat (a - b) = unat a - unat b"
  using assms by (simp add: unat_sub word_le_nat_alt)

lemma mod_add_wrap:
  fixes d b a N :: nat
  assumes "(d + b) mod N = a" and "d < N" and "b < N" and "a < b"
  shows "d = N + a - b"
proof -
  have "\<not> d + b < N" using assms by auto
  then have "(d + b) mod N = d + b - N" using assms(2,3) by (simp add: mod_if)
  then show ?thesis using assms \<open>\<not> d + b < N\<close> by linarith
qed

lemma unat_sub_wrap32:
  fixes a b :: u32
  assumes "unat a < unat b"
  shows "unat (a - b) = 4294967296 + unat a - unat b"
proof -
  have "unat (a - b + b) = (unat (a - b) + unat b) mod 4294967296"
    by (simp only: unat_word_ariths) simp
  then have "(unat (a - b) + unat b) mod 4294967296 = unat a" by simp
  moreover have "unat (a - b) < 4294967296" and "unat b < 4294967296"
    by (rule unat_lt_u32)+
  ultimately show ?thesis using assms by (rule mod_add_wrap)
qed

text \<open>
  \<open>in_region a n x\<close>: the address \<open>x\<close> is one of the \<open>n\<close> bytes starting at \<open>a\<close>
  (addresses wrap). \<open>sep a n b k\<close>: the two regions do not meet.
\<close>

definition in_region :: "u32 \<Rightarrow> nat \<Rightarrow> u32 \<Rightarrow> bool" where
  "in_region a n x \<longleftrightarrow> unat (x - a) < n"

definition sep :: "u32 \<Rightarrow> nat \<Rightarrow> u32 \<Rightarrow> nat \<Rightarrow> bool" where
  "sep a n b k \<longleftrightarrow> n \<le> unat (b - a) \<and> k \<le> unat (a - b)"

lemma sep_commute: "sep a n b k \<longleftrightarrow> sep b k a n"
  by (auto simp: sep_def)

lemma sep_shrink: "sep a n b k \<Longrightarrow> n' \<le> n \<Longrightarrow> k' \<le> k \<Longrightarrow> sep a n' b k'"
  by (auto simp: sep_def)

lemma in_region_of_nat:
  "i < n \<Longrightarrow> n \<le> 4294967296 \<Longrightarrow> in_region a n (a + of_nat i)"
  by (simp add: in_region_def unat_of_nat take_bit_nat_eq_self)

lemma in_region_self [simp]: "0 < n \<Longrightarrow> in_region a n a"
  by (simp add: in_region_def)

lemma in_regionE:
  assumes "in_region a n x"
  obtains i where "i < n" and "x = a + of_nat i"
proof
  show "unat (x - a) < n" using assms by (simp add: in_region_def)
  show "x = a + of_nat (unat (x - a))" by simp
qed

lemma in_region_interval:
  fixes a x :: u32
  assumes "unat a + n \<le> 4294967296"
  shows "in_region a n x \<longleftrightarrow> unat a \<le> unat x \<and> unat x < unat a + n"
proof (cases "unat a \<le> unat x")
  case True
  then show ?thesis by (auto simp: in_region_def unat_sub_lem32)
next
  case False
  then have "unat (x - a) = 4294967296 + unat x - unat a" using unat_sub_wrap32 [of x a] by simp
  then show ?thesis using False assms by (simp add: in_region_def)
qed

lemma in_region_mono: "in_region a n x \<Longrightarrow> n \<le> k \<Longrightarrow> in_region a k x"
  by (simp add: in_region_def)

lemma in_region_offset:
  assumes "in_region (a + of_nat k) n x" and "k + n \<le> l" and "l < 4294967296"
  shows "in_region a l x"
proof -
  obtain i where "i < n" "x = a + of_nat k + of_nat i" using assms(1) by (rule in_regionE)
  then have "x = a + of_nat (k + i)" and "k + i < l" using assms(2) by simp_all
  then show ?thesis using assms(3) by (simp add: in_region_of_nat del: of_nat_add)
qed

lemma sep_not_in_region:
  assumes "sep a n b k" and "in_region b k x"
  shows "\<not> in_region a n x"
proof
  assume "in_region a n x"
  then have i: "unat (x - a) < n" by (simp add: in_region_def)
  have j: "unat (x - b) < k" using assms(2) by (simp add: in_region_def)
  show False
  proof (cases "unat (x - b) \<le> unat (x - a)")
    case True
    have "b - a = (x - a) - (x - b)" by simp
    then have "unat (b - a) = unat (x - a) - unat (x - b)"
      using unat_sub_lem32 [OF True] by simp
    then show False using assms(1) i unfolding sep_def by linarith
  next
    case False
    have "a - b = (x - b) - (x - a)" by simp
    then have "unat (a - b) = unat (x - b) - unat (x - a)"
      using unat_sub_lem32 [of "x - a" "x - b"] False by simp
    then show False using assms(1) j unfolding sep_def by linarith
  qed
qed

lemma sepI_below:
  assumes "unat a + n \<le> unat b" and "unat b + k \<le> 4294967296" and "0 < n"
  shows "sep a n b k"
proof -
  have "unat (b - a) = unat b - unat a"
    using assms(1) by (intro unat_sub_lem32) simp
  moreover have "unat (a - b) = 4294967296 + unat a - unat b"
    using assms(1,3) by (intro unat_sub_wrap32) simp
  ultimately show ?thesis using assms unfolding sep_def by linarith
qed

lemma sepI_above:
  assumes "unat b + k \<le> unat a" and "unat a + n \<le> 4294967296" and "0 < k"
  shows "sep a n b k"
  using sepI_below [OF assms] by (simp add: sep_commute)

text \<open>Two different elements of an array with elements of \<open>w\<close> bytes.\<close>

lemma sep_index:
  fixes a :: u32 and i j w :: nat
  assumes "i \<noteq> j" and "w * i + w \<le> 4294967296" and "w * j + w \<le> 4294967296" and "0 < w"
  shows "sep (a + of_nat (w * i)) w (a + of_nat (w * j)) w"
proof -
  have u: "unat (of_nat (w * i) :: u32) = w * i" "unat (of_nat (w * j) :: u32) = w * j"
    using assms by (simp_all add: unat_of_nat_small del: of_nat_mult)
  have "sep (of_nat (w * i) :: u32) w (of_nat (w * j)) w"
  proof (cases "i < j")
    case True
    then have "w * i + w \<le> w * j" by (metis Suc_leI mult_Suc_right mult_le_mono2 add.commute)
    then show ?thesis using assms u by (intro sepI_below) simp_all
  next
    case False
    with assms(1) have "w * j + w \<le> w * i"
      by (metis Suc_leI linorder_neqE_nat mult_Suc_right mult_le_mono2 add.commute)
    then show ?thesis using assms u by (intro sepI_above) simp_all
  qed
  then show ?thesis by (simp add: sep_def)
qed

end
