(* ===== verification/Machine.thy ===== *)
theory Machine
  imports Prelude
begin

text \<open>
  The machine the kernel runs on, as far as the C code sees it: a raw byte memory, the log of
  port writes, the values the ports return, the interrupt flag and the control registers.
  Every global of a C file is a field of a record that extends \<open>hw\<close>
  (in the order hw, monitor, interrupts, descriptor tables, paging, tasks, keyboard, ramdisk),
  so that an operation of one component runs unchanged on the state of the whole kernel.

  Words are stored little endian, as on x86; accesses need no alignment.
\<close>

section \<open>State and accesses\<close>

record hw =
  mem :: memory
  outs :: "(u16 \<times> u8) list"
  inp :: "u16 \<Rightarrow> u8"
  inpw :: "u16 \<Rightarrow> u16"
  iflag :: bool
  cr0 :: u32
  cr2 :: u32
  cr3 :: u32

text \<open>Port output and input, sys/common.c. The newest write is the head of \<open>outs\<close>.\<close>

definition outb :: "u16 \<Rightarrow> u8 \<Rightarrow> 'a hw_scheme \<Rightarrow> 'a hw_scheme" where
  "outb port value s = s\<lparr>outs := (port, value) # outs s\<rparr>"

definition inb :: "u16 \<Rightarrow> 'a hw_scheme \<Rightarrow> u8" where
  "inb port s = inp s port"

definition inw :: "u16 \<Rightarrow> 'a hw_scheme \<Rightarrow> u16" where
  "inw port s = inpw s port"

definition ld16 :: "memory \<Rightarrow> u32 \<Rightarrow> u16" where
  "ld16 m a = ucast (m a) OR push_bit 8 (ucast (m (a + 1)))"

definition st16 :: "memory \<Rightarrow> u32 \<Rightarrow> u16 \<Rightarrow> memory" where
  "st16 m a v = m(a := ucast v, a + 1 := ucast (drop_bit 8 v))"

definition ld32 :: "memory \<Rightarrow> u32 \<Rightarrow> u32" where
  "ld32 m a = ucast (m a) OR push_bit 8 (ucast (m (a + 1)))
     OR push_bit 16 (ucast (m (a + 2))) OR push_bit 24 (ucast (m (a + 3)))"

definition st32 :: "memory \<Rightarrow> u32 \<Rightarrow> u32 \<Rightarrow> memory" where
  "st32 m a v = m(a := ucast v, a + 1 := ucast (drop_bit 8 v),
     a + 2 := ucast (drop_bit 16 v), a + 3 := ucast (drop_bit 24 v))"

section \<open>Read over write\<close>

lemma outb_simps [simp]:
  "mem (outb p v s) = mem s"
  "outs (outb p v s) = (p, v) # outs s"
  "inp (outb p v s) = inp s"
  "hw.more (outb p v s) = hw.more s"
  by (simp_all add: outb_def)

lemma word_offset_neq [simp]:
  fixes a :: u32
  shows "a \<noteq> a + 1" "a \<noteq> a + 2" "a \<noteq> a + 3" "a + 1 \<noteq> a + 2" "a + 1 \<noteq> a + 3" "a + 2 \<noteq> a + 3"
    "a + 1 \<noteq> a" "a + 2 \<noteq> a" "a + 3 \<noteq> a" "a + 2 \<noteq> a + 1" "a + 3 \<noteq> a + 1" "a + 3 \<noteq> a + 2"
  by simp_all

lemma ld32_st32_same [simp]: "ld32 (st32 m a v) a = v"
proof (rule bit_word_eqI)
  fix n assume "n < LENGTH(32)"
  then consider "n < 8" | "8 \<le> n" "n < 16" | "16 \<le> n" "n < 24" | "24 \<le> n" "n < 32"
    by force
  then show "bit (ld32 (st32 m a v) a) n = bit v n"
    by cases (auto simp: ld32_def st32_def bit_simps)
qed

lemma ld16_st16_same [simp]: "ld16 (st16 m a v) a = v"
  unfolding ld16_def st16_def
  by (rule bit_word_eqI) (auto simp: bit_simps)

lemma ld32_cong:
  assumes "m' b = m b" "m' (b + 1) = m (b + 1)" "m' (b + 2) = m (b + 2)" "m' (b + 3) = m (b + 3)"
  shows "ld32 m' b = ld32 m b"
  using assms by (simp add: ld32_def)

lemma in_region_4: "in_region a 4 a" "in_region a 4 (a + 1)" "in_region a 4 (a + 2)"
  "in_region a 4 (a + 3)"
  by (simp_all add: in_region_def)

lemma ld32_frame:
  assumes "\<And>x. in_region b 4 x \<Longrightarrow> m' x = m x"
  shows "ld32 m' b = ld32 m b"
  using assms by (intro ld32_cong) (simp_all add: in_region_4)

lemma st32_outside:
  assumes "\<not> in_region a 4 x"
  shows "st32 m a v x = m x"
proof -
  have "x \<noteq> a" "x \<noteq> a + 1" "x \<noteq> a + 2" "x \<noteq> a + 3"
    using assms in_region_4 [of a] by auto
  then show ?thesis by (simp add: st32_def)
qed

lemma ld32_st32_other:
  assumes "sep a 4 b 4"
  shows "ld32 (st32 m a v) b = ld32 m b"
  by (rule ld32_frame) (meson assms sep_not_in_region st32_outside)

lemma st32_byte_other:
  assumes "sep a 4 b 1"
  shows "st32 m a v b = m b"
  by (rule st32_outside) (use assms sep_not_in_region [of a 4 b 1 b] in simp)

lemma ld32_upd_other:
  assumes "sep a 1 b 4"
  shows "ld32 (m(a := v)) b = ld32 m b"
proof (rule ld32_frame)
  fix x assume "in_region b 4 x"
  then have "\<not> in_region a 1 x" by (rule sep_not_in_region [OF assms])
  then show "(m(a := v)) x = m x" by auto
qed

text \<open>Consecutive words: the distance of two word addresses is a multiple of four.\<close>

lemma ld32_st32_index:
  fixes i j :: nat
  assumes "i \<noteq> j" and "i < 1073741824" and "j < 1073741824"
  shows "ld32 (st32 m (a + 4 * of_nat i) v) (a + 4 * of_nat j) = ld32 m (a + 4 * of_nat j)"
  using sep_index [of i j 4 a] assms by (intro ld32_st32_other) simp

lemma in_region_2: "in_region a 2 a" "in_region a 2 (a + 1)"
  by (simp_all add: in_region_def)

lemma ld16_frame:
  assumes "\<And>x. in_region b 2 x \<Longrightarrow> m' x = m x"
  shows "ld16 m' b = ld16 m b"
  using assms in_region_2 [of b] by (simp add: ld16_def)

lemma st16_outside:
  assumes "\<not> in_region a 2 x"
  shows "st16 m a v x = m x"
proof -
  have "x \<noteq> a" "x \<noteq> a + 1" using assms in_region_2 [of a] by auto
  then show ?thesis by (simp add: st16_def)
qed

lemma ld16_st16_index:
  fixes i j :: nat
  assumes "i \<noteq> j" and "i < 2147483648" and "j < 2147483648"
  shows "ld16 (st16 m (a + 2 * of_nat i) v) (a + 2 * of_nat j) = ld16 m (a + 2 * of_nat j)"
proof (rule ld16_frame)
  fix x assume "in_region (a + 2 * of_nat j) 2 x"
  moreover have "sep (a + 2 * of_nat i) 2 (a + 2 * of_nat j) 2"
    using sep_index [of i j 2 a] assms by simp
  ultimately show "st16 m (a + 2 * of_nat i) v x = m x"
    by (meson sep_not_in_region st16_outside)
qed

lemma ld32_zero: "(\<And>x. in_region a 4 x \<Longrightarrow> m x = 0) \<Longrightarrow> ld32 m a = 0"
  using in_region_4 [of a] by (simp add: ld32_def)

end
