(* ===== verification/Common.thy ===== *)
theory Common
  imports Machine
begin

text \<open>
  The memory and string routines of sys/common.c over the raw memory. \<open>memcpy\<close> and
  \<open>memset\<close> count a 32-bit length down and always return. The string routines run until they
  meet a NUL byte, so they are partial: \<open>None\<close> means that the loop never ends. The lemmas
  give each routine's effect in closed form.
\<close>

section \<open>Definitions\<close>

function memcpy :: "memory \<Rightarrow> u32 \<Rightarrow> u32 \<Rightarrow> u32 \<Rightarrow> memory" where
  "memcpy m dest src len =
     (if len = 0 then m else memcpy (m(dest := m src)) (dest + 1) (src + 1) (len - 1))"
  by pat_completeness auto
termination
  by (relation "measure (\<lambda>(m, dest, src, len). unat len)") (auto simp: measure_unat)

function memset :: "memory \<Rightarrow> u32 \<Rightarrow> u8 \<Rightarrow> u32 \<Rightarrow> memory" where
  "memset m dest val len =
     (if len = 0 then m else memset (m(dest := val)) (dest + 1) val (len - 1))"
  by pat_completeness auto
termination
  by (relation "measure (\<lambda>(m, dest, val, len). unat len)") (auto simp: measure_unat)

declare memcpy.simps [simp del] memset.simps [simp del]

text \<open>The loop of \<open>strcmp\<close>: the index it stops at and the flag \<open>failed\<close>.\<close>

partial_function (option) strcmp_loop :: "memory \<Rightarrow> u32 \<Rightarrow> u32 \<Rightarrow> u32 \<Rightarrow> (u32 \<times> u32) option" where
  "strcmp_loop m str1 str2 i =
     (if m (str1 + i) \<noteq> 0 \<and> m (str2 + i) \<noteq> 0
      then (if m (str1 + i) \<noteq> m (str2 + i) then Some (i, 1) else strcmp_loop m str1 str2 (i + 1))
      else Some (i, 0))"

definition strcmp :: "memory \<Rightarrow> u32 \<Rightarrow> u32 \<Rightarrow> u32 option" where
  "strcmp m str1 str2 = map_option (\<lambda>(i, failed).
     if (m (str1 + i) = 0 \<and> m (str2 + i) \<noteq> 0) \<or> (m (str1 + i) \<noteq> 0 \<and> m (str2 + i) = 0)
     then 1 else failed) (strcmp_loop m str1 str2 0)"

partial_function (option) strcpy :: "memory \<Rightarrow> u32 \<Rightarrow> u32 \<Rightarrow> memory option" where
  "strcpy m dest src =
     (let m' = m(dest := m src)
      in if m' (src + 1) \<noteq> 0 then strcpy m' (dest + 1) (src + 1) else Some m')"

text \<open>
  \<open>strcat\<close>: the body \<^verbatim>\<open>*dest = *dest++\<close> of its first loop modifies \<^verbatim>\<open>dest\<close> unsequenced, so
  the call is undefined unless \<open>dest\<close> is the empty string. The second loop is that of
  \<open>strcpy\<close>, and the advanced pointer is returned.
\<close>

partial_function (option) strcat_loop :: "memory \<Rightarrow> u32 \<Rightarrow> u32 \<Rightarrow> (memory \<times> u32) option" where
  "strcat_loop m dest src =
     (let m' = m(dest := m src)
      in if m' (src + 1) \<noteq> 0 then strcat_loop m' (dest + 1) (src + 1) else Some (m', dest + 1))"

definition strcat :: "memory \<Rightarrow> u32 \<Rightarrow> u32 \<Rightarrow> (unit, memory \<times> u32) result option" where
  "strcat m dest src =
     (if m dest \<noteq> 0 then Some (Inl (Undefined ''strcat'')) else map_option Inr (strcat_loop m dest src))"

partial_function (option) strlen_loop :: "memory \<Rightarrow> u32 \<Rightarrow> u32 \<Rightarrow> u32 option" where
  "strlen_loop m src i = (if m src \<noteq> 0 then strlen_loop m (src + 1) (i + 1) else Some i)"

definition strlen :: "memory \<Rightarrow> u32 \<Rightarrow> u32 option" where
  "strlen m src = strlen_loop m src 0"

text \<open>\<open>cstr m a cs\<close>: the NUL-terminated string at \<open>a\<close> has the characters \<open>cs\<close>.\<close>

fun cstr :: "memory \<Rightarrow> u32 \<Rightarrow> u8 list \<Rightarrow> bool" where
  "cstr m a [] \<longleftrightarrow> m a = 0"
| "cstr m a (c # cs) \<longleftrightarrow> m a = c \<and> c \<noteq> 0 \<and> cstr m (a + 1) cs"

section \<open>Copying and filling\<close>

lemma unat_dec: "(n :: u32) \<noteq> 0 \<Longrightarrow> unat (n - 1) = unat n - 1"
  by (simp add: unat_minus_one)

lemma unat_pos: "(n :: u32) \<noteq> 0 \<Longrightarrow> 0 < unat n"
  by (simp add: unat_gt_0)

text \<open>A non-empty region is its first byte and the region that starts one further.\<close>

lemma in_region_Suc:
  assumes "0 < n"
  shows "in_region a n x \<longleftrightarrow> x = a \<or> in_region (a + 1) (n - 1) x"
proof (cases "x = a")
  case False
  then have "x - a \<noteq> 0" by simp
  then have "unat (x - (a + 1)) = unat (x - a) - 1"
    using unat_dec [of "x - a"] by (simp add: diff_diff_eq)
  moreover have "0 < unat (x - a)" using \<open>x - a \<noteq> 0\<close> by (rule unat_pos)
  ultimately show ?thesis using False by (auto simp: in_region_def)
qed (use assms in simp)

lemma not_in_region_next:
  assumes "n < 4294967296"
  shows "\<not> in_region (a + 1) n a"
proof -
  have "a - (a + 1) = - 1" by simp
  moreover have "unat (- 1 :: u32) = 4294967295" by (simp add: unsigned_minus_1_eq_mask mask_eq_exp_minus_1)
  ultimately show ?thesis using assms unfolding in_region_def by simp
qed

lemma in_region_0 [simp]: "\<not> in_region a 0 x"
  by (simp add: in_region_def)

lemma memset_eq:
  "memset m dest v len = (\<lambda>x. if in_region dest (unat len) x then v else m x)"
proof (induction m dest v len rule: memset.induct)
  case (1 m dest val len)
  show ?case
  proof (cases "len = 0")
    case False
    then have "memset m dest val len
        = (\<lambda>x. if in_region (dest + 1) (unat len - 1) x then val else (m(dest := val)) x)"
      using "1.IH" by (subst memset.simps) (simp add: unat_dec fun_upd_def)
    then show ?thesis
      using unat_pos [OF False] by (auto simp: in_region_Suc fun_eq_iff)
  qed (simp add: memset.simps)
qed

lemma memcpy_eq:
  assumes "unat len \<le> unat (dest - src)"
  shows "memcpy m dest src len
    = (\<lambda>x. if in_region dest (unat len) x then m (src + (x - dest)) else m x)"
  using assms
proof (induction m dest src len rule: memcpy.induct)
  case (1 m dest src len)
  show ?case
  proof (cases "len = 0")
    case False
    let ?m = "m(dest := m src)"
    have n: "0 < unat len" using False by (rule unat_pos)
    have "unat (len - 1) \<le> unat ((dest + 1) - (src + 1))"
      using "1.prems" unat_dec [OF False] by simp
    with "1.IH" [OF False] have IH: "memcpy ?m (dest + 1) (src + 1) (len - 1)
        = (\<lambda>x. if in_region (dest + 1) (unat len - 1) x
               then ?m (src + 1 + (x - (dest + 1))) else ?m x)"
      using unat_dec [OF False] by (simp add: fun_upd_def)
    have src_kept: "src + 1 + (x - (dest + 1)) \<noteq> dest"
      if "in_region (dest + 1) (unat len - 1) x" for x
    proof
      assume "src + 1 + (x - (dest + 1)) = dest"
      then have eq: "dest - src = x - dest" by (simp add: algebra_simps)
      have "in_region dest (unat len) x"
        using that n by (simp add: in_region_Suc)
      then show False using "1.prems" unfolding in_region_def eq by simp
    qed
    show ?thesis
    proof
      fix x
      have "memcpy m dest src len x
          = (if in_region (dest + 1) (unat len - 1) x then m (src + (x - dest)) else ?m x)"
        using False IH src_kept [of x]
        by (subst memcpy.simps) (simp add: algebra_simps)
      then show "memcpy m dest src len x
          = (if in_region dest (unat len) x then m (src + (x - dest)) else m x)"
        using n by (auto simp: in_region_Suc)
    qed
  qed (simp add: memcpy.simps)
qed

section \<open>Strings\<close>

lemma strlen_loop_cstr:
  "cstr m a cs \<Longrightarrow> strlen_loop m a i = Some (i + of_nat (length cs))"
proof (induction cs arbitrary: a i)
  case Nil
  then show ?case by (simp add: strlen_loop.simps)
next
  case (Cons c cs)
  then show ?case by (subst strlen_loop.simps) (simp add: algebra_simps)
qed

lemma strcmp_loop_cstr:
  assumes "cstr m (a + i) xs" and "cstr m (b + i) ys"
  shows "\<exists>j f. strcmp_loop m a b i = Some (j, f) \<and>
    (if (m (a + j) = 0 \<and> m (b + j) \<noteq> 0) \<or> (m (a + j) \<noteq> 0 \<and> m (b + j) = 0) then 1 else f)
      = (if xs = ys then 0 else 1)"
  using assms
proof (induction xs arbitrary: ys i)
  case Nil
  then show ?case by (cases ys) (auto simp: strcmp_loop.simps [of m a b i])
next
  case (Cons x xs)
  show ?case
  proof (cases "\<exists>ys'. ys = x # ys'")
    case True
    then obtain ys' where ys: "ys = x # ys'" by blast
    have "cstr m (a + (i + 1)) xs" and "cstr m (b + (i + 1)) ys'"
      using Cons.prems ys by (simp_all add: algebra_simps)
    from Cons.IH [OF this] show ?thesis
      using Cons.prems ys by (simp add: strcmp_loop.simps [of m a b i])
  next
    case False
    then show ?thesis
      using Cons.prems by (cases ys) (auto simp: strcmp_loop.simps [of m a b i])
  qed
qed

lemma cstr_frame:
  assumes "cstr m a cs"
    and "\<And>x. in_region a (Suc (length cs)) x \<Longrightarrow> m' x = m x" and "length cs < 4294967295"
  shows "cstr m' a cs"
  using assms
proof (induction cs arbitrary: a)
  case (Cons c cs)
  have "in_region a (Suc (length (c # cs))) x \<longleftrightarrow> x = a \<or> in_region (a + 1) (Suc (length cs)) x" for x
    using Cons.prems(3) in_region_Suc [of "Suc (length (c # cs))" a x] by simp
  then have here: "m' a = m a" and rest: "\<And>x. in_region (a + 1) (Suc (length cs)) x \<Longrightarrow> m' x = m x"
    using Cons.prems(2) by auto
  have "cstr m' (a + 1) cs"
    by (rule Cons.IH) (use Cons.prems rest in auto)
  with here Cons.prems(1) show ?case by simp
qed simp

text \<open>
  The copy runs forward, so the source is read intact when the destination does not lie in it.
\<close>

text \<open>A copy of \<open>c # cs\<close> is a copy of \<open>c\<close> followed by one of \<open>cs\<close>.\<close>

lemma copied_Cons:
  assumes "Suc (length cs) < 4294967296"
  shows "(if in_region (dest + 1) (length cs) x then cs ! unat (x - (dest + 1)) else (m(dest := c)) x)
    = (if in_region dest (length (c # cs)) x then (c # cs) ! unat (x - dest) else m x)"
proof (cases "x = dest")
  case True
  then show ?thesis using assms not_in_region_next [of "length cs" dest] by simp
next
  case False
  then have "x - dest \<noteq> 0" by simp
  then have "unat (x - dest) = Suc (unat (x - (dest + 1)))"
    using unat_dec [of "x - dest"] unat_pos [of "x - dest"] by (simp add: diff_diff_eq)
  then show ?thesis
    using False assms in_region_Suc [of "length (c # cs)" dest x] by simp
qed

lemma strcpy_cstr:
  assumes "cstr m src (c # cs)" and "Suc (length (c # cs)) \<le> unat (dest - src)"
  shows "strcpy m dest src = Some (\<lambda>x.
    if in_region dest (length (c # cs)) x then (c # cs) ! unat (x - dest) else m x)"
  using assms
proof (induction cs arbitrary: m c src dest)
  case Nil
  have one: "in_region dest (Suc 0) x \<longleftrightarrow> x = dest" for x
    using in_region_Suc [of 1 dest x] by simp
  have "src + 1 \<noteq> dest"
    using Nil.prems(2) by auto
  then have "strcpy m dest src = Some (m(dest := c))"
    using Nil.prems(1) by (subst strcpy.simps) (simp add: Let_def)
  then show ?case by (auto simp: one fun_eq_iff)
next
  case (Cons c' cs)
  let ?m = "m(dest := m src)"
  have bound: "Suc (length (c' # cs)) < 4294967295"
    using Cons.prems(2) le_less_trans [OF Cons.prems(2) unat_lt_u32] by simp
  have src': "cstr m (src + 1) (c' # cs)" and c: "m src = c" "c \<noteq> 0"
    using Cons.prems(1) by auto
  have "cstr ?m (src + 1) (c' # cs)"
  proof (rule cstr_frame [OF src'])
    fix x assume "in_region (src + 1) (Suc (length (c' # cs))) x"
    then have "in_region src (Suc (length (c # c' # cs))) x"
      using bound in_region_Suc [of "Suc (length (c # c' # cs))" src x] by simp
    then have "x \<noteq> dest" using Cons.prems(2) by (auto simp: in_region_def)
    then show "?m x = m x" by simp
  qed (use bound in simp)
  moreover have "Suc (length (c' # cs)) \<le> unat ((dest + 1) - (src + 1))"
    using Cons.prems(2) by simp
  ultimately have IH: "strcpy ?m (dest + 1) (src + 1) = Some (\<lambda>x.
      if in_region (dest + 1) (length (c' # cs)) x then (c' # cs) ! unat (x - (dest + 1)) else ?m x)"
    by (rule Cons.IH)
  have "src + 1 \<noteq> dest" using Cons.prems(2) by auto
  then have "?m (src + 1) \<noteq> 0" using src' by simp
  then have step: "strcpy m dest src = strcpy ?m (dest + 1) (src + 1)"
    by (subst strcpy.simps) (simp add: Let_def)
  have "Suc (length (c' # cs)) < 4294967296" using bound by simp
  from copied_Cons [OF this] show ?case unfolding step IH by (simp only: c(1))
qed

section \<open>Properties\<close>

text \<open>
  \<open>strcmp\<close> of two NUL-terminated strings ends and returns 0 exactly when they are equal, and 1
  otherwise (never the -1 its comment announces).
\<close>
theorem strcmp_decides_equality:
  assumes "cstr m a xs" and "cstr m b ys"
  shows "strcmp m a b = Some (if xs = ys then 0 else 1)"
  using strcmp_loop_cstr [of m a 0 xs b ys] assms by (auto simp: strcmp_def)

theorem strcmp_decides_equality_witness:
  "strcmp ((\<lambda>_. 0)(0 := 97, 16 := 97, 17 := 98)) 0 16 = Some 1"
  using strcmp_decides_equality [of "(\<lambda>_. 0)(0 := 97, 16 := 97, 17 := 98)" 0 "[97]" 16 "[97, 98]"]
  by simp

text \<open>
  \<open>memcpy\<close> copies the block byte by byte whenever the destination does not start inside the
  source, \<open>memset\<close> fills its block, and both leave every other byte alone.
\<close>
theorem memcpy_copies:
  assumes "unat len \<le> unat (dest - src)"
  shows "memcpy m dest src len
      = (\<lambda>x. if in_region dest (unat len) x then m (src + (x - dest)) else m x)
    \<and> memset m dest v len = (\<lambda>x. if in_region dest (unat len) x then v else m x)"
  using memcpy_eq [OF assms] memset_eq by blast

theorem memcpy_copies_witness:
  "memcpy (\<lambda>_. 5) 0x2000 0x1000 8 = (\<lambda>_. 5)
    \<and> memset (\<lambda>_. 5) 0x2000 1 8 = (\<lambda>x. if in_region 0x2000 8 x then 1 else 5)"
  using memcpy_copies [of 8 "0x2000" "0x1000" "\<lambda>_. 5" 1] by simp

text \<open>
  \<open>strcpy\<close> of a non-empty string stores its characters and nothing else: the terminator is not
  copied, so the destination is a string only if a zero byte was already there.
\<close>
theorem strcpy_drops_terminator:
  assumes "cstr m src (c # cs)" and "Suc (length (c # cs)) \<le> unat (dest - src)"
  shows "\<exists>m'. strcpy m dest src = Some m'
    \<and> (\<forall>i < length (c # cs). m' (dest + of_nat i) = (c # cs) ! i)
    \<and> m' (dest + of_nat (length (c # cs))) = m (dest + of_nat (length (c # cs)))"
proof -
  let ?n = "length (c # cs)"
  have n: "?n < 4294967295" using assms(2) unat_lt_u32 [of "dest - src"] by linarith
  have "in_region dest ?n (dest + of_nat i) \<longleftrightarrow> i < ?n" if "i \<le> ?n" for i
    using that n by (simp add: in_region_def unat_of_nat_small del: length_Cons)
  then show ?thesis
    using strcpy_cstr [OF assms] n 
    by (auto simp: unat_of_nat_small simp del: length_Cons of_nat_Suc)
qed

theorem strcpy_drops_terminator_witness:
  "\<exists>m'. strcpy ((\<lambda>_. 7)(0 := 97, 1 := 0)) 0x10 0 = Some m' \<and> m' 0x10 = 97 \<and> m' 0x11 = 7"
  using strcpy_drops_terminator [of "(\<lambda>_. 7)(0 := 97, 1 := 0)" 0 97 "[]" "0x10"] by simp

end
