(* ===== verification/Monitor.thy ===== *)
theory Monitor
  imports Common
begin

text \<open>
  The text console of sys/monitor.c: the VGA text buffer at 0xB8000 (80 by 25 cells of 16 bits,
  in the raw memory), the cursor, scrolling, and the printing routines, followed by the two panic
  routines of sys/common.c, which print on it. The abstract console \<open>terminal\<close> is a list of 2000
  cells with a cursor; \<open>monitor_put\<close> refines \<open>term_put\<close> on it. The locale \<open>console\<close>
  states what printing routines rely on.
\<close>

section \<open>State and operations\<close>

record monitor = hw +
  cursor_x :: u8
  cursor_y :: u8

definition video_memory :: u32 where
  "video_memory = 0xB8000"

text \<open>The address of \<^verbatim>\<open>video_memory[k]\<close>.\<close>

definition cell :: "nat \<Rightarrow> u32" where
  "cell k = video_memory + 2 * of_nat k"

definition attributeByte :: u8 where
  "attributeByte = (push_bit 4 0) OR (15 AND 0x0F)"

definition blank :: u16 where
  "blank = 0x20 OR push_bit 8 (ucast attributeByte)"

definition move_cursor :: "'a monitor_scheme \<Rightarrow> 'a monitor_scheme" where
  "move_cursor s =
     (let cursorLocation = ucast (cursor_y s) * 80 + ucast (cursor_x s) :: u16;
          s = outb 0x3D4 14 s;
          s = outb 0x3D5 (ucast (drop_bit 8 cursorLocation)) s;
          s = outb 0x3D4 15 s
      in outb 0x3D5 (ucast cursorLocation) s)"

definition copy_up :: "nat \<Rightarrow> memory \<Rightarrow> memory" where
  "copy_up k m = st16 m (cell k) (ld16 m (cell (k + 80)))"

definition put_blank :: "nat \<Rightarrow> memory \<Rightarrow> memory" where
  "put_blank k m = st16 m (cell k) blank"

definition scroll :: "'a monitor_scheme \<Rightarrow> 'a monitor_scheme" where
  "scroll s =
     (if 25 \<le> cursor_y s
      then s\<lparr>mem := fold put_blank [24 * 80..<25 * 80] (fold copy_up [0..<24 * 80] (mem s)),
             cursor_y := 24\<rparr>
      else s)"

text \<open>\<^verbatim>\<open>char\<close> is signed: the test \<^verbatim>\<open>c >= ' '\<close> is on the signed value.\<close>

definition monitor_put_char :: "u8 \<Rightarrow> 'a monitor_scheme \<Rightarrow> 'a monitor_scheme" where
  "monitor_put_char c s =
     (if c = 0x08 \<and> cursor_x s \<noteq> 0 then s\<lparr>cursor_x := cursor_x s - 1\<rparr>
      else if c = 0x09 then s\<lparr>cursor_x := (cursor_x s + 8) AND NOT (8 - 1)\<rparr>
      else if c = 0x0D then s\<lparr>cursor_x := 0\<rparr>
      else if c = 0x0A then s\<lparr>cursor_x := 0, cursor_y := cursor_y s + 1\<rparr>
      else if 32 \<le> sint c then
        s\<lparr>mem := st16 (mem s) (cell (unat (cursor_y s) * 80 + unat (cursor_x s)))
             (ucast c OR push_bit 8 (ucast attributeByte)),
          cursor_x := cursor_x s + 1\<rparr>
      else s)"

definition monitor_wrap :: "'a monitor_scheme \<Rightarrow> 'a monitor_scheme" where
  "monitor_wrap s = (if 80 \<le> cursor_x s then s\<lparr>cursor_x := 0, cursor_y := cursor_y s + 1\<rparr> else s)"

definition monitor_put :: "u8 \<Rightarrow> 'a monitor_scheme \<Rightarrow> 'a monitor_scheme" where
  "monitor_put c s = move_cursor (scroll (monitor_wrap (monitor_put_char c s)))"

definition monitor_clear :: "'a monitor_scheme \<Rightarrow> 'a monitor_scheme" where
  "monitor_clear s =
     move_cursor (s\<lparr>mem := fold put_blank [0..<80 * 25] (mem s), cursor_x := 0, cursor_y := 0\<rparr>)"

text \<open>
  \<open>monitor_write c\<close> prints the string at address \<open>c\<close>; every character is read from the
  memory as it is at that moment. \<open>monitor_puts\<close> is the same call on a string literal
  of the kernel image, whose characters are given.
\<close>

partial_function (option) monitor_write_loop ::
  "u32 \<Rightarrow> u32 \<Rightarrow> 'a monitor_scheme \<Rightarrow> 'a monitor_scheme option" where
  "monitor_write_loop c counter s =
     (if mem s (c + counter) \<noteq> 0
      then monitor_write_loop c (counter + 1) (monitor_put (mem s (c + counter)) s)
      else Some s)"

definition monitor_write :: "u32 \<Rightarrow> 'a monitor_scheme \<Rightarrow> 'a monitor_scheme option" where
  "monitor_write c s = monitor_write_loop c 0 s"

definition monitor_puts :: "u8 list \<Rightarrow> 'a monitor_scheme \<Rightarrow> 'a monitor_scheme" where
  "monitor_puts cs s = fold monitor_put cs s"

text \<open>
  \<open>monitor_write_dec\<close>: the first loop fills \<^verbatim>\<open>c\<close> from index 0 with the digits of the
  signed value, least digit first; the second writes them into \<^verbatim>\<open>c2\<close> from its end, in front of
  what is there.
\<close>

function dec_fill :: "int \<Rightarrow> u8 list \<Rightarrow> u8 list" where
  "dec_fill acc c = (if 0 < acc then dec_fill (acc div 10) (c @ [48 + of_int (acc mod 10)]) else c)"
  by pat_completeness auto
termination
  by (relation "measure (\<lambda>(acc, c). nat acc)") auto

function dec_back :: "u8 list \<Rightarrow> nat \<Rightarrow> u8 list \<Rightarrow> u8 list" where
  "dec_back c j c2 = (if j < length c then dec_back c (j + 1) (c ! j # c2) else c2)"
  by pat_completeness auto
termination
  by (relation "measure (\<lambda>(c, j, c2). length c - j)") auto

declare dec_fill.simps [simp del] dec_back.simps [simp del]

definition monitor_write_dec :: "u32 \<Rightarrow> 'a monitor_scheme \<Rightarrow> 'a monitor_scheme" where
  "monitor_write_dec number s =
     (if number = 0 then monitor_put 48 s
      else monitor_puts (dec_back (dec_fill (sint number) []) 0 []) s)"

definition hex_char :: "u32 \<Rightarrow> u8" where
  "hex_char temp = (if 0xA \<le> temp then ucast (temp - 0xA + 97) else ucast (temp + 48))"

fun hex_loop :: "u32 \<Rightarrow> nat \<Rightarrow> u8 \<Rightarrow> 'a monitor_scheme \<Rightarrow> 'a monitor_scheme" where
  "hex_loop number counter noZeroes s =
     (if 0 < counter then
        (let temp = drop_bit counter number AND 0xF in
         if temp = 0 \<and> noZeroes \<noteq> 0 then hex_loop number (counter - 4) noZeroes s
         else hex_loop number (counter - 4) 0 (monitor_put (hex_char temp) s))
      else s)"

declare hex_loop.simps [simp del]

definition monitor_write_hex :: "u32 \<Rightarrow> 'a monitor_scheme \<Rightarrow> 'a monitor_scheme" where
  "monitor_write_hex number s =
     (let s = monitor_puts (bytes ''0x'') s;
          s = hex_loop number 28 1 s
      in monitor_put (hex_char (number AND 0xF)) s)"

text \<open>
  \<open>monitor_write_padded\<close> fills the 80 bytes of \<^verbatim>\<open>buff\<close> and hands them to \<^verbatim>\<open>monitor_write\<close>
  without a terminator, so the bytes that follow \<^verbatim>\<open>buff\<close> on the stack are printed up to the
  first NUL: they are the parameter \<open>after\<close>. A message of more than 80 characters overruns
  \<^verbatim>\<open>buff\<close>.
\<close>

definition padded_line :: "u8 list \<Rightarrow> u8 \<Rightarrow> u8 list" where
  "padded_line message success =
     take 75 (message @ replicate (75 - length message) 46)
     @ (if success \<noteq> 0 then bytes ''[OK]'' else bytes ''[FL]'') @ [0x0A]"

definition monitor_write_padded ::
  "u8 list \<Rightarrow> u8 list \<Rightarrow> u8 \<Rightarrow> 'a monitor_scheme \<Rightarrow> ('a monitor_scheme, 'a monitor_scheme) result" where
  "monitor_write_padded after message success s =
     (if 80 < length message then Inl (Undefined ''monitor_write_padded'')
      else Inr (monitor_puts (takeWhile (\<lambda>c. c \<noteq> 0) (padded_line message success @ after)) s))"

text \<open>The panic routines of sys/common.c; both print, disable interrupts and halt.\<close>

definition panic_report ::
  "u8 list \<Rightarrow> u8 list \<Rightarrow> u8 list \<Rightarrow> u32 \<Rightarrow> 'a monitor_scheme \<Rightarrow> 'a monitor_scheme" where
  "panic_report prefix message file line s =
     (let s = s\<lparr>iflag := False\<rparr>;
          s = monitor_puts prefix s;
          s = monitor_puts message s;
          s = monitor_puts (bytes '') at '') s;
          s = monitor_puts file s;
          s = monitor_puts (bytes '':'') s;
          s = monitor_write_dec line s;
          s = monitor_put 0x0A s
      in monitor_put 0x0A (monitor_puts (bytes ''Computer halting now!'') s))"

definition panic ::
  "u8 list \<Rightarrow> u8 list \<Rightarrow> u32 \<Rightarrow> 'a monitor_scheme \<Rightarrow> ('a monitor_scheme, 'b) result" where
  "panic message file line s = Inl (Halted (panic_report (bytes ''PANIC('') message file line s))"

definition panic_assert ::
  "u8 list \<Rightarrow> u32 \<Rightarrow> u8 list \<Rightarrow> 'a monitor_scheme \<Rightarrow> ('a monitor_scheme, 'b) result" where
  "panic_assert file line desc s =
     Inl (Halted (panic_report (bytes ''ASSERTION-FAILED('') desc file line s))"

text \<open>\<^verbatim>\<open>ASSERT(b)\<close> of include/common.h, followed by the rest of the function.\<close>

definition ASSERT ::
  "bool \<Rightarrow> string \<Rightarrow> u32 \<Rightarrow> string \<Rightarrow> 'a monitor_scheme \<Rightarrow> ('a monitor_scheme, unit) result" where
  "ASSERT b file line desc s = (if b then Inr () else panic_assert (bytes file) line (bytes desc) s)"

section \<open>The abstract console\<close>

record terminal =
  tcells :: "u16 list"
  tx :: nat
  ty :: nat

definition term_char :: "u8 \<Rightarrow> terminal \<Rightarrow> terminal" where
  "term_char c t =
     (if c = 8 then t\<lparr>tx := tx t - 1\<rparr>
      else if c = 9 then t\<lparr>tx := 8 * (tx t div 8 + 1)\<rparr>
      else if c = 13 then t\<lparr>tx := 0\<rparr>
      else if c = 10 then t\<lparr>tx := 0, ty := ty t + 1\<rparr>
      else if 32 \<le> c \<and> c < 128
        then t\<lparr>tcells := (tcells t)[ty t * 80 + tx t := 0xF00 OR ucast c], tx := tx t + 1\<rparr>
      else t)"

definition term_wrap :: "terminal \<Rightarrow> terminal" where
  "term_wrap t = (if 80 \<le> tx t then t\<lparr>tx := 0, ty := ty t + 1\<rparr> else t)"

definition term_scroll :: "terminal \<Rightarrow> terminal" where
  "term_scroll t =
     (if 25 \<le> ty t then t\<lparr>tcells := drop 80 (tcells t) @ replicate 80 0xF20, ty := 24\<rparr> else t)"

definition term_put :: "u8 \<Rightarrow> terminal \<Rightarrow> terminal" where
  "term_put c t = term_scroll (term_wrap (term_char c t))"

definition terminal_of :: "'a monitor_scheme \<Rightarrow> terminal" where
  "terminal_of s = \<lparr>tcells = map (\<lambda>k. ld16 (mem s) (cell k)) [0..<2000],
     tx = unat (cursor_x s), ty = unat (cursor_y s)\<rparr>"

definition cursor_ok :: "'a monitor_scheme \<Rightarrow> bool" where
  "cursor_ok s \<longleftrightarrow> cursor_x s < 80 \<and> cursor_y s < 25"

text \<open>The bytes of the text buffer, and the parts of the state that printing leaves alone.\<close>

definition in_video :: "u32 \<Rightarrow> bool" where
  "in_video x \<longleftrightarrow> in_region video_memory 4000 x"

definition console_frame :: "'a monitor_scheme \<Rightarrow> 'a monitor_scheme \<Rightarrow> bool" where
  "console_frame s t \<longleftrightarrow> (\<forall>x. \<not> in_video x \<longrightarrow> mem t x = mem s x) \<and>
     monitor.more t = monitor.more s \<and> iflag t = iflag s \<and> inp t = inp s \<and> inpw t = inpw s \<and>
     cr0 t = cr0 s \<and> cr2 t = cr2 s \<and> cr3 t = cr3 s"

section \<open>The text buffer\<close>

declare upt_rec_numeral [simp del]

lemma blank_eq: "blank = 0xF20"
  by (simp add: blank_def attributeByte_def)

lemma cell_eq: "cell k = 0xB8000 + 2 * of_nat k"
  by (simp add: cell_def video_memory_def)

lemma ld16_st16_cell:
  assumes "i < 4000" and "j < 4000"
  shows "ld16 (st16 m (cell i) v) (cell j) = (if i = j then v else ld16 m (cell j))"
  using ld16_st16_index [of i j m video_memory v] assms by (auto simp: cell_def)

lemma in_video_cell:
  assumes "k < 2000" and "in_region (cell k) 2 x"
  shows "in_video x"
proof -
  obtain i where i: "i < 2" "x = cell k + of_nat i" using assms(2) by (rule in_regionE)
  then have "x = video_memory + of_nat (2 * k + i)" by (simp add: cell_def)
  moreover have "2 * k + i < 4000" using i(1) assms(1) by simp
  ultimately show ?thesis
    unfolding in_video_def by (simp add: in_region_of_nat del: of_nat_add of_nat_mult)
qed

lemma st16_cell_outside:
  assumes "k < 2000" and "\<not> in_video x"
  shows "st16 m (cell k) v x = m x"
  by (rule st16_outside) (use assms in_video_cell in blast)

lemma copy_up_fold:
  assumes "n \<le> 1920" and "k < 2000"
  shows "ld16 (fold copy_up [0..<n] m) (cell k)
    = (if k < n then ld16 m (cell (k + 80)) else ld16 m (cell k))"
  using assms
proof (induction n arbitrary: k)
  case (Suc n)
  then show ?case by (auto simp: copy_up_def ld16_st16_cell less_Suc_eq)
qed simp

lemma put_blank_fold:
  assumes "hi \<le> 2000" and "k < 2000"
  shows "ld16 (fold put_blank [lo..<hi] m) (cell k)
    = (if lo \<le> k \<and> k < hi then blank else ld16 m (cell k))"
  using assms
proof (induction hi arbitrary: k)
  case (Suc hi)
  then show ?case
    by (cases "lo \<le> hi") (auto simp: put_blank_def ld16_st16_cell less_Suc_eq)
qed simp

lemma fold_video_outside:
  assumes "\<And>k m. k \<in> set ks \<Longrightarrow> f k m x = m x"
  shows "fold f ks m x = m x"
  using assms by (induction ks arbitrary: m) auto

lemma scroll_outside:
  assumes "\<not> in_video x"
  shows "mem (scroll s) x = mem s x"
proof -
  have "fold put_blank [24 * 80..<25 * 80] m x = m x" for m
    by (rule fold_video_outside) (use assms in \<open>auto simp: put_blank_def st16_cell_outside\<close>)
  moreover have "fold copy_up [0..<24 * 80] m x = m x" for m
    by (rule fold_video_outside) (use assms in \<open>auto simp: copy_up_def st16_cell_outside\<close>)
  ultimately show ?thesis by (simp add: scroll_def)
qed

section \<open>Fields kept by each step\<close>

lemma move_cursor_simps [simp]:
  "mem (move_cursor s) = mem s" "cursor_x (move_cursor s) = cursor_x s"
  "cursor_y (move_cursor s) = cursor_y s" "monitor.more (move_cursor s) = monitor.more s"
  "iflag (move_cursor s) = iflag s" "inp (move_cursor s) = inp s" "inpw (move_cursor s) = inpw s"
  "cr0 (move_cursor s) = cr0 s" "cr2 (move_cursor s) = cr2 s" "cr3 (move_cursor s) = cr3 s"
  by (simp_all add: move_cursor_def outb_def Let_def)

lemma scroll_simps [simp]:
  "cursor_x (scroll s) = cursor_x s" "monitor.more (scroll s) = monitor.more s"
  "iflag (scroll s) = iflag s" "inp (scroll s) = inp s" "inpw (scroll s) = inpw s"
  "cr0 (scroll s) = cr0 s" "cr2 (scroll s) = cr2 s" "cr3 (scroll s) = cr3 s"
  by (simp_all add: scroll_def)

lemma monitor_wrap_simps [simp]:
  "mem (monitor_wrap s) = mem s" "monitor.more (monitor_wrap s) = monitor.more s"
  "iflag (monitor_wrap s) = iflag s" "inp (monitor_wrap s) = inp s" "inpw (monitor_wrap s) = inpw s"
  "cr0 (monitor_wrap s) = cr0 s" "cr2 (monitor_wrap s) = cr2 s" "cr3 (monitor_wrap s) = cr3 s"
  by (simp_all add: monitor_wrap_def)

lemma monitor_put_char_simps [simp]:
  "monitor.more (monitor_put_char c s) = monitor.more s"
  "iflag (monitor_put_char c s) = iflag s" "inp (monitor_put_char c s) = inp s"
  "inpw (monitor_put_char c s) = inpw s" "cr0 (monitor_put_char c s) = cr0 s"
  "cr2 (monitor_put_char c s) = cr2 s" "cr3 (monitor_put_char c s) = cr3 s"
  by (simp_all add: monitor_put_char_def)

section \<open>Cursor arithmetic\<close>

lemma tab_stop_all: "\<forall>n \<in> set [0..<80]. unat ((of_nat n + 8 :: u8) AND NOT 7) = 8 * (n div 8 + 1)"
  by code_simp

lemma tab_stop:
  assumes "(x :: u8) < 80"
  shows "unat ((x + 8) AND NOT 7) = 8 * (unat x div 8 + 1)"
proof -
  have "unat x < 80" using assms by (simp add: word_less_nat_alt)
  then have "unat x \<in> set [0..<80]" by simp
  from bspec [OF tab_stop_all this] show ?thesis by simp
qed

lemma signed_printable_all:
  "\<forall>n \<in> set [0..<256]. (32 \<le> sint (of_nat n :: u8)) = (32 \<le> n \<and> n < 128)"
  by code_simp

lemma signed_printable: "32 \<le> sint (c :: u8) \<longleftrightarrow> 32 \<le> c \<and> c < 128"
proof -
  have "unat c \<in> set [0..<256]" using unsigned_less [of c] by simp
  from bspec [OF signed_printable_all this] show ?thesis
    by (simp add: word_le_nat_alt word_less_nat_alt)
qed

lemma unat_inc_u8: "(x :: u8) < 80 \<Longrightarrow> unat (x + 1) = unat x + 1"
  by (simp add: unat_word_ariths word_less_nat_alt)

lemma unat_dec_u8: "(x :: u8) \<noteq> 0 \<Longrightarrow> unat (x - 1) = unat x - 1"
  by (simp add: unat_minus_one)

lemma cursor_index_bound:
  assumes "cursor_ok s"
  shows "unat (cursor_y s) * 80 + unat (cursor_x s) < 2000"
  using assms by (simp add: cursor_ok_def word_less_nat_alt)

section \<open>Refinement of the abstract console\<close>

lemma terminal_of_move_cursor [simp]: "terminal_of (move_cursor s) = terminal_of s"
  by (simp add: terminal_of_def)

lemma terminal_of_put_char:
  assumes "cursor_ok s"
  shows "terminal_of (monitor_put_char c s) = term_char c (terminal_of s)"
proof -
  let ?p = "unat (cursor_y s) * 80 + unat (cursor_x s)"
  have x: "cursor_x s < 80" and y: "cursor_y s < 25" using assms by (simp_all add: cursor_ok_def)
  have p: "?p < 2000" by (rule cursor_index_bound [OF assms])
  have upd: "map (\<lambda>k. ld16 (st16 (mem s) (cell ?p) v) (cell k)) [0..<2000]
      = (map (\<lambda>k. ld16 (mem s) (cell k)) [0..<2000])[?p := v]" for v
    using p by (intro nth_equalityI) (auto simp: ld16_st16_cell nth_list_update)
  have attr: "ucast c OR push_bit 8 (ucast attributeByte) = (0xF00 OR ucast c :: u16)"
    by (simp add: attributeByte_def or.commute)
  have "unat (cursor_y s + 1) = unat (cursor_y s) + 1"
    using y by (simp add: unat_word_ariths word_less_nat_alt)
  moreover have "cursor_x s = 0 \<Longrightarrow> unat (cursor_x s) - 1 = 0" by simp
  ultimately show ?thesis
    using x upd
    by (auto simp: terminal_of_def monitor_put_char_def term_char_def signed_printable
        tab_stop [simplified] unat_inc_u8 unat_dec_u8 attr)
qed

lemma cursor_after_put_char:
  assumes "cursor_ok s"
  shows "cursor_x (monitor_put_char c s) \<le> 80 \<and> cursor_y (monitor_put_char c s) \<le> 25 \<and>
    (cursor_x (monitor_put_char c s) < 80 \<or> cursor_y (monitor_put_char c s) < 25)"
proof -
  have x: "cursor_x s < 80" and y: "cursor_y s < 25" using assms by (simp_all add: cursor_ok_def)
  have "unat (cursor_y s + 1) = unat (cursor_y s) + 1"
    using y by (simp add: unat_word_ariths word_less_nat_alt)
  then show ?thesis
    using x y tab_stop [OF x] unat_inc_u8 [OF x] unat_dec_u8 [of "cursor_x s"]
    by (auto simp: monitor_put_char_def word_less_nat_alt word_le_nat_alt)
qed

lemma terminal_of_wrap:
  assumes "cursor_y s \<le> 25"
  shows "terminal_of (monitor_wrap s) = term_wrap (terminal_of s)"
  using assms
  by (auto simp: terminal_of_def monitor_wrap_def term_wrap_def word_le_nat_alt unat_word_ariths)

lemma terminal_of_scroll: "terminal_of (scroll s) = term_scroll (terminal_of s)"
proof (cases "25 \<le> cursor_y s")
  case True
  let ?m = "fold put_blank [24 * 80..<25 * 80] (fold copy_up [0..<24 * 80] (mem s))"
  have "map (\<lambda>k. ld16 ?m (cell k)) [0..<2000]
      = drop 80 (map (\<lambda>k. ld16 (mem s) (cell k)) [0..<2000]) @ replicate 80 0xF20"
    (is "?l = ?r")
  proof (rule nth_equalityI)
    show "length ?l = length ?r" by simp
  next
    fix k assume "k < length ?l"
    then have k: "k < 2000" by simp
    show "?l ! k = ?r ! k"
      using k by (auto simp: put_blank_fold copy_up_fold blank_eq nth_append add.commute)
  qed
  then show ?thesis using True
    by (simp add: terminal_of_def scroll_def term_scroll_def word_le_nat_alt)
next
  case False
  then show ?thesis
    by (simp add: terminal_of_def scroll_def term_scroll_def word_le_nat_alt)
qed

lemma monitor_put_refines:
  assumes "cursor_ok s"
  shows "terminal_of (monitor_put c s) = term_put c (terminal_of s)"
  using assms cursor_after_put_char [OF assms, of c]
  by (simp add: monitor_put_def term_put_def terminal_of_scroll terminal_of_wrap terminal_of_put_char)

lemma monitor_put_cursor_ok:
  assumes "cursor_ok s"
  shows "cursor_ok (monitor_put c s)"
proof -
  let ?t = "monitor_put_char c s"
  have "cursor_y ?t \<le> 25" and "cursor_x ?t < 80 \<or> cursor_y ?t < 25"
    using cursor_after_put_char [OF assms, of c] by simp_all
  then show ?thesis
    by (auto simp: monitor_put_def cursor_ok_def scroll_def monitor_wrap_def
        word_le_nat_alt word_less_nat_alt unat_word_ariths)
qed

lemma monitor_put_frame:
  assumes "cursor_ok s"
  shows "console_frame s (monitor_put c s)"
  using cursor_index_bound [OF assms]
  by (auto simp: console_frame_def monitor_put_def scroll_outside monitor_put_char_def
      st16_cell_outside)

section \<open>Printing sequences of characters\<close>

locale console =
  fixes put :: "u8 \<Rightarrow> 's \<Rightarrow> 's"
    and ok :: "'s \<Rightarrow> bool"
    and frame :: "'s \<Rightarrow> 's \<Rightarrow> bool"
    and view :: "'s \<Rightarrow> 't"
    and aput :: "u8 \<Rightarrow> 't \<Rightarrow> 't"
  assumes put_ok: "ok s \<Longrightarrow> ok (put c s)"
    and put_frame: "ok s \<Longrightarrow> frame s (put c s)"
    and put_view: "ok s \<Longrightarrow> view (put c s) = aput c (view s)"
    and frame_refl: "frame s s"
    and frame_trans: "frame s t \<Longrightarrow> frame t u \<Longrightarrow> frame s u"
begin

lemma puts_ok: "ok s \<Longrightarrow> ok (fold put cs s)"
  by (induction cs arbitrary: s) (auto intro: put_ok)

lemma puts_frame: "ok s \<Longrightarrow> frame s (fold put cs s)"
proof (induction cs arbitrary: s)
  case (Cons c cs)
  then show ?case by (auto intro: frame_trans [OF put_frame] put_ok)
qed (simp add: frame_refl)

lemma puts_view: "ok s \<Longrightarrow> view (fold put cs s) = fold aput cs (view s)"
  by (induction cs arbitrary: s) (simp_all add: put_view put_ok)

end

interpretation vga: console "monitor_put :: u8 \<Rightarrow> 'a monitor_scheme \<Rightarrow> 'a monitor_scheme"
  cursor_ok console_frame terminal_of term_put
proof unfold_locales
  show "console_frame s t \<Longrightarrow> console_frame t u \<Longrightarrow> console_frame s u"
    for s t u :: "'a monitor_scheme"
    by (auto simp: console_frame_def)
  show "console_frame s s" for s :: "'a monitor_scheme"
    by (simp add: console_frame_def)
qed (simp_all add: monitor_put_cursor_ok monitor_put_frame monitor_put_refines)

lemmas console_lemmas = vga.puts_ok vga.puts_frame vga.puts_view

lemma monitor_puts_simps [simp]:
  "monitor_puts [] s = s"
  "monitor_puts (c # cs) s = monitor_puts cs (monitor_put c s)"
  "monitor_puts (cs @ ds) s = monitor_puts ds (monitor_puts cs s)"
  by (simp_all add: monitor_puts_def)

lemma monitor_puts_ok: "cursor_ok s \<Longrightarrow> cursor_ok (monitor_puts cs s)"
  by (simp add: monitor_puts_def console_lemmas)

lemma monitor_puts_frame: "cursor_ok s \<Longrightarrow> console_frame s (monitor_puts cs s)"
  by (simp add: monitor_puts_def console_lemmas)

lemma monitor_write_loop_puts:
  assumes "cstr (mem s) (c + i) cs" and "cursor_ok s" and "length cs < 4294967295"
    and "\<And>x. in_region (c + i) (Suc (length cs)) x \<Longrightarrow> \<not> in_video x"
  shows "monitor_write_loop c i s = Some (monitor_puts cs s)"
  using assms
proof (induction cs arbitrary: i s)
  case Nil
  then show ?case by (simp add: monitor_write_loop.simps)
next
  case (Cons d ds)
  let ?s = "monitor_put d s"
  have reg: "in_region (c + i) (Suc (length (d # ds))) x"
    if "in_region (c + (i + 1)) (Suc (length ds)) x" for x
    using that in_region_Suc [of "Suc (length (d # ds))" "c + i" x] by (simp add: add.assoc)
  have "cstr (mem s) (c + (i + 1)) ds" using Cons.prems(1) by (simp add: add.assoc)
  then have "cstr (mem ?s) (c + (i + 1)) ds"
  proof (rule cstr_frame)
    fix x assume "in_region (c + (i + 1)) (Suc (length ds)) x"
    then have "\<not> in_video x" using Cons.prems(4) reg by blast
    then show "mem ?s x = mem s x"
      using monitor_put_frame [OF Cons.prems(2)] by (simp add: console_frame_def)
  qed (use Cons.prems(3) in simp)
  then have "monitor_write_loop c (i + 1) ?s = Some (monitor_puts ds ?s)"
    using Cons.prems reg by (intro Cons.IH) (auto intro: monitor_put_cursor_ok)
  then show ?case using Cons.prems(1) by (subst monitor_write_loop.simps) simp
qed

section \<open>Decimal and hexadecimal output\<close>

fun decimal :: "nat \<Rightarrow> u8 list" where
  "decimal n = (if n < 10 then [48 + of_nat n] else decimal (n div 10) @ [48 + of_nat (n mod 10)])"

definition hex_digit :: "nat \<Rightarrow> u8" where
  "hex_digit d = (if d < 10 then of_nat (48 + d) else of_nat (87 + d))"

fun hexadecimal :: "nat \<Rightarrow> u8 list" where
  "hexadecimal n = (if n < 16 then [hex_digit n] else hexadecimal (n div 16) @ [hex_digit (n mod 16)])"

declare decimal.simps [simp del] hexadecimal.simps [simp del]

lemma dec_back_rev: "j \<le> length c \<Longrightarrow> dec_back c j c2 = rev (drop j c) @ c2"
proof (induction c j c2 rule: dec_back.induct)
  case (1 c j c2)
  show ?case
  proof (cases "j < length c")
    case True
    then have "dec_back c j c2 = rev (drop (j + 1) c) @ c ! j # c2"
      using 1 by (subst dec_back.simps) simp
    then show ?thesis using True by (simp add: Cons_nth_drop_Suc [symmetric])
  qed (use 1 in \<open>simp add: dec_back.simps\<close>)
qed

lemma dec_fill_decimal: "0 < n \<Longrightarrow> dec_fill (int n) c = c @ rev (decimal n)"
proof (induction n arbitrary: c rule: less_induct)
  case (less n)
  let ?d = "48 + of_int (int n mod 10) :: u8"
  have d: "?d = 48 + of_nat (n mod 10)"
    by (metis of_int_of_nat_eq of_nat_numeral zmod_int)
  have step: "dec_fill (int n) c = dec_fill (int (n div 10)) (c @ [?d])"
    using less.prems by (subst dec_fill.simps) (simp add: zdiv_int)
  show ?case
  proof (cases "n < 10")
    case True
    then show ?thesis
      unfolding step d by (simp add: dec_fill.simps decimal.simps [of n])
  next
    case False
    then have "0 < n div 10" and "n div 10 < n" by simp_all
    then show ?thesis
      unfolding step d using less.IH [of "n div 10"] False by (simp add: decimal.simps [of n])
  qed
qed

lemma sint_nonneg:
  assumes "unat (n :: u32) < 2147483648"
  shows "sint n = int (unat n)"
proof -
  have "int (unat n) < 2147483648" using assms by linarith
  then have "uint n < 2147483648" by simp
  then have "signed_take_bit 31 (uint n) = uint n"
    by (intro signed_take_bit_int_eq_self) (simp_all add: order_trans [of _ 0])
  then show ?thesis by (simp add: sint_uint)
qed

lemma sint_negative:
  assumes "2147483648 \<le> unat (n :: u32)"
  shows "sint n = int (unat n) - 4294967296"
proof -
  have "uint n < 4294967296" and "2147483648 \<le> uint n"
  proof -
    have "int (unat n) < 4294967296" and "2147483648 \<le> int (unat n)"
      using unat_lt_u32 [of n] assms by linarith+
    then show "uint n < 4294967296" and "2147483648 \<le> uint n" by simp_all
  qed
  then have "take_bit 32 (uint n + 2147483648) = uint n - 2147483648"
    unfolding take_bit_eq_mod
    using minus_mod_self2 [of "uint n + 2147483648" "4294967296"] by simp
  then show ?thesis by (simp add: sint_uint signed_take_bit_eq_take_bit_shift)
qed

lemma monitor_write_dec_decimal:
  "monitor_write_dec n s = (if n < 0x80000000 then monitor_puts (decimal (unat n)) s else s)"
proof (cases "n < 0x80000000")
  case True
  then have sint: "sint n = int (unat n)" by (intro sint_nonneg) (simp add: word_less_nat_alt)
  show ?thesis
  proof (cases "n = 0")
    case False
    then have "dec_back (dec_fill (sint n) []) 0 [] = decimal (unat n)"
      unfolding sint using dec_fill_decimal [of "unat n" "[]"] by (simp add: dec_back_rev unat_gt_0)
    then show ?thesis using True False by (simp add: monitor_write_dec_def)
  qed (simp add: monitor_write_dec_def decimal.simps)
next
  case False
  then have "sint n = int (unat n) - 4294967296"
    by (intro sint_negative) (simp add: word_less_nat_alt)
  then have "\<not> 0 < sint n" using unat_lt_u32 [of n] by linarith
  moreover have "n \<noteq> 0" using False by auto
  ultimately show ?thesis
    using False by (simp add: monitor_write_dec_def dec_fill.simps dec_back.simps)
qed

lemma and_15: "x AND 0xF = take_bit 4 (x :: u32)"
  by (simp add: take_bit_eq_mask mask_eq_exp_minus_1)

lemma unat_nibble: "unat (drop_bit (4 * j) (n :: u32) AND 0xF) = unat n div 16 ^ j mod 16"
proof -
  have "unat (drop_bit (4 * j) n AND 0xF) = take_bit 4 (drop_bit (4 * j) (unat n))"
    unfolding and_15 by (simp add: unsigned_take_bit_eq unsigned_drop_bit_eq take_bit_nat_eq_self)
  then show ?thesis by (simp add: take_bit_eq_mod drop_bit_eq_div power_mult)
qed

lemma hex_char_all: "\<forall>n \<in> set [0..<16]. hex_char (of_nat n) = hex_digit n"
  by code_simp

lemma hex_char_digit:
  assumes "unat t < 16"
  shows "hex_char t = hex_digit (unat t)"
proof -
  have "unat t \<in> set [0..<16]" using assms by simp
  from bspec [OF hex_char_all this] show ?thesis by simp
qed

text \<open>The digits at the positions \<open>k\<close> down to 0, with leading zeros.\<close>

fun hex_fixed :: "nat \<Rightarrow> nat \<Rightarrow> u8 list" where
  "hex_fixed n 0 = [hex_digit (n mod 16)]"
| "hex_fixed n (Suc k) = hex_digit (n div 16 ^ Suc k mod 16) # hex_fixed n k"

lemma hex_fixed_snoc: "hex_fixed n (Suc k) = hex_fixed (n div 16) k @ [hex_digit (n mod 16)]"
proof (induction k)
  case (Suc k)
  have "n div 16 ^ Suc (Suc k) = n div 16 div 16 ^ Suc k"
    by (metis div_mult2_eq power_Suc)
  then show ?case using Suc by simp
qed simp

lemma hex_fixed_hexadecimal:
  "n < 16 ^ Suc k \<Longrightarrow> k = 0 \<or> 16 ^ k \<le> n \<Longrightarrow> hex_fixed n k = hexadecimal n"
proof (induction k arbitrary: n)
  case 0
  then show ?case by (simp add: hexadecimal.simps)
next
  case (Suc k)
  have "n div 16 < 16 ^ Suc k" using Suc.prems(1) by (simp add: less_mult_imp_div_less mult.commute)
  moreover have "k = 0 \<or> 16 ^ k \<le> n div 16"
    using Suc.prems(2) by (simp add: less_eq_div_iff_mult_less_eq mult.commute)
  ultimately have "hex_fixed (n div 16) k = hexadecimal (n div 16)" by (rule Suc.IH)
  moreover have "\<not> n < 16"
  proof -
    have "(1::nat) \<le> 16 ^ k" by simp
    then show ?thesis using Suc.prems(2) by (simp; linarith)
  qed
  ultimately show ?case
    by (subst hexadecimal.simps) (simp add: hex_fixed_snoc del: hex_fixed.simps)
qed

lemma nibble_bound: "unat (drop_bit c (n :: u32) AND 0xF) < 16"
  using take_bit_nat_less_exp [of 4 "unat (drop_bit c n)"]
  unfolding and_15 by (simp only: unsigned_take_bit_eq) simp

lemma hex_loop_fixed:
  "monitor_put (hex_char (n AND 0xF)) (hex_loop n (4 * k) 0 s) = monitor_puts (hex_fixed (unat n) k) s"
proof (induction k arbitrary: s)
  case 0
  have "hex_char (n AND 0xF) = hex_digit (unat n mod 16)"
    using hex_char_digit [OF nibble_bound [of 0 n]] unat_nibble [of 0 n] by simp
  then show ?case by (simp add: hex_loop.simps)
next
  case (Suc k)
  have "hex_char (drop_bit (4 * Suc k) n AND 0xF) = hex_digit (unat n div 16 ^ Suc k mod 16)"
    using hex_char_digit [OF nibble_bound [of "4 * Suc k" n]] unat_nibble [of "Suc k" n] by presburger
  moreover have "4 * Suc k - 4 = 4 * k" by simp
  ultimately show ?case
    using Suc.IH by (subst hex_loop.simps) (simp add: Let_def)
qed

lemma hex_loop_hexadecimal:
  "unat n < 16 ^ Suc k \<Longrightarrow>
   monitor_put (hex_char (n AND 0xF)) (hex_loop n (4 * k) 1 s) = monitor_puts (hexadecimal (unat n)) s"
proof (induction k arbitrary: s)
  case 0
  then have "hexadecimal (unat n) = hex_fixed (unat n) 0"
    using hex_fixed_hexadecimal [of "unat n" 0] by simp
  moreover have "hex_loop n (4 * 0) 1 s = hex_loop n (4 * 0) 0 s"
    by (simp add: hex_loop.simps)
  ultimately show ?case using hex_loop_fixed [of n 0 s] by simp
next
  case (Suc k)
  let ?t = "drop_bit (4 * Suc k) n AND 0xF"
  have t: "unat ?t = unat n div 16 ^ Suc k"
    using Suc.prems unat_nibble [of "Suc k" n]
    by (simp add: less_mult_imp_div_less mult.commute)
  have four: "4 * Suc k - 4 = 4 * k" by simp
  show ?case
  proof (cases "?t = 0")
    case True
    then have "unat n < 16 ^ Suc k"
      using t by (simp add: div_eq_0_iff)
    then show ?thesis
      using Suc.IH True four by (subst hex_loop.simps) (simp add: Let_def)
  next
    case False
    then have "16 ^ Suc k \<le> unat n"
      using t by (metis div_less not_less unat_eq_zero)
    then have fixed: "hex_fixed (unat n) (Suc k) = hexadecimal (unat n)"
      using Suc.prems by (intro hex_fixed_hexadecimal) simp_all
    have "hex_loop n (4 * Suc k) 1 s = hex_loop n (4 * Suc k) 0 s"
      using False by (subst (1 2) hex_loop.simps) (simp add: Let_def)
    then show ?thesis by (simp only: hex_loop_fixed fixed)
  qed
qed

lemma monitor_write_hex_hexadecimal:
  "monitor_write_hex n s = monitor_puts (bytes ''0x'' @ hexadecimal (unat n)) s"
proof -
  have "unat n < 16 ^ Suc 7" by simp
  from hex_loop_hexadecimal [OF this, of "monitor_puts (bytes ''0x'') s"] show ?thesis
    by (simp add: monitor_write_hex_def Let_def)
qed

text \<open>The printed digits determine the number.\<close>

definition dec_value :: "u8 list \<Rightarrow> nat" where
  "dec_value cs = foldl (\<lambda>v c. 10 * v + (unat c - 48)) 0 cs"

definition hex_value :: "u8 list \<Rightarrow> nat" where
  "hex_value cs = foldl (\<lambda>v c. 16 * v + (if 97 \<le> c then unat c - 87 else unat c - 48)) 0 cs"

lemma unat_of_nat_u8: "n < 256 \<Longrightarrow> unat (of_nat n :: u8) = n"
  by (simp add: unat_of_nat take_bit_nat_eq_self)

lemma dec_value_decimal: "dec_value (decimal n) = n"
proof (induction n rule: decimal.induct)
  case (1 n)
  have d: "unat (48 + of_nat k :: u8) - 48 = k" if "k < 10" for k
    using unat_of_nat_u8 [of "48 + k"] that by simp
  show ?case
  proof (cases "n < 10")
    case True
    then show ?thesis by (simp add: decimal.simps dec_value_def d)
  next
    case False
    then have "dec_value (decimal n) = 10 * dec_value (decimal (n div 10)) + n mod 10"
      using d [of "n mod 10"] by (subst decimal.simps) (simp add: dec_value_def)
    then show ?thesis using 1 False by simp
  qed
qed

lemma hex_value_hexadecimal: "hex_value (hexadecimal n) = n"
proof (induction n rule: hexadecimal.induct)
  case (1 n)
  have d: "(if 97 \<le> hex_digit k then unat (hex_digit k) - 87 else unat (hex_digit k) - 48) = k"
    if "k < 16" for k
    using that unat_of_nat_u8 [of "48 + k"] unat_of_nat_u8 [of "87 + k"]
    by (auto simp: hex_digit_def word_le_nat_alt)
  show ?case
  proof (cases "n < 16")
    case True
    then show ?thesis using d [of n] by (simp add: hexadecimal.simps hex_value_def)
  next
    case False
    then have "hex_value (hexadecimal n) = 16 * hex_value (hexadecimal (n div 16)) + n mod 16"
      using d [of "n mod 16"] by (subst hexadecimal.simps) (simp add: hex_value_def)
    then show ?thesis using 1 False by simp
  qed
qed

text \<open>A number of at most ten digits fits into the 32-byte buffers of \<open>monitor_write_dec\<close>.\<close>

lemma length_decimal: "n < 10 ^ Suc k \<Longrightarrow> length (decimal n) \<le> Suc k"
proof (induction k arbitrary: n)
  case 0
  then show ?case by (simp add: decimal.simps)
next
  case (Suc k)
  then have "length (decimal (n div 10)) \<le> Suc k"
    by (simp add: less_mult_imp_div_less mult.commute)
  then show ?case by (subst decimal.simps) simp
qed

section \<open>The kernel log line and panic\<close>

lemma length_padded_line: "length (padded_line m ok) = 80"
  by (auto simp: padded_line_def bytes_def min_def)

lemma padded_line_nonzero:
  assumes "0 \<notin> set message"
  shows "0 \<notin> set (padded_line message success)"
  using assms by (auto simp: padded_line_def bytes_def dest: in_set_takeD)

lemma monitor_write_padded_eq:
  assumes "0 \<notin> set message" and "length message \<le> 80"
  shows "monitor_write_padded after message success s
    = Inr (monitor_puts (padded_line message success @ takeWhile (\<lambda>c. c \<noteq> 0) after) s)"
proof -
  have "takeWhile (\<lambda>c. c \<noteq> 0) (padded_line message success @ after)
      = padded_line message success @ takeWhile (\<lambda>c. c \<noteq> 0) after"
    using padded_line_nonzero [OF assms(1)] by (auto simp: takeWhile_append)
  then show ?thesis using assms(2) by (simp add: monitor_write_padded_def)
qed

lemma monitor_write_dec_ok: "cursor_ok s \<Longrightarrow> cursor_ok (monitor_write_dec n s)"
  by (simp add: monitor_write_dec_decimal monitor_puts_ok)

lemma monitor_write_hex_ok: "cursor_ok s \<Longrightarrow> cursor_ok (monitor_write_hex n s)"
  by (simp only: monitor_write_hex_hexadecimal monitor_puts_ok)

lemma monitor_write_dec_frame: "cursor_ok s \<Longrightarrow> console_frame s (monitor_write_dec n s)"
  by (simp add: monitor_write_dec_decimal monitor_puts_frame vga.frame_refl)

lemma monitor_write_hex_frame: "cursor_ok s \<Longrightarrow> console_frame s (monitor_write_hex n s)"
  by (simp only: monitor_write_hex_hexadecimal monitor_puts_frame)

lemma iflag_put [simp]: "iflag (monitor_put c s) = iflag s"
  by (simp add: monitor_put_def)

lemma iflag_puts [simp]: "iflag (monitor_puts cs s) = iflag s"
  by (induction cs arbitrary: s) simp_all

lemma iflag_dec [simp]: "iflag (monitor_write_dec n s) = iflag s"
  by (simp add: monitor_write_dec_def)

lemma cursor_ok_iflag [simp]: "cursor_ok (s\<lparr>iflag := b\<rparr>) = cursor_ok s"
  by (simp add: cursor_ok_def)

lemma panic_report_off [simp]: "\<not> iflag (panic_report prefix message file line s)"
  by (simp add: panic_report_def Let_def)

lemma panic_report_ok: "cursor_ok s \<Longrightarrow> cursor_ok (panic_report prefix message file line s)"
  by (simp add: panic_report_def Let_def monitor_puts_ok monitor_put_cursor_ok monitor_write_dec_ok)

lemma panic_report_puts:
  assumes "line < 0x80000000"
  shows "panic_report prefix message file line s = monitor_puts
    (prefix @ message @ bytes '') at '' @ file @ bytes '':'' @ decimal (unat line) @ [0x0A]
     @ bytes ''Computer halting now!'' @ [0x0A]) (s\<lparr>iflag := False\<rparr>)"
  using assms by (simp add: panic_report_def Let_def monitor_write_dec_decimal)

lemma ASSERT_simps [simp]:
  "ASSERT True file line desc s = Inr ()"
  "ASSERT False file line desc s = panic_assert (bytes file) line (bytes desc) s"
  by (simp_all add: ASSERT_def)

lemma ASSERT_eq_Inr [res_simps]: "ASSERT b file line desc s = Inr u \<longleftrightarrow> b"
  by (simp add: ASSERT_def panic_assert_def)

section \<open>Properties\<close>

text \<open>A console just after reset, for concrete instances.\<close>

definition monitor0 :: monitor where
  "monitor0 = \<lparr>mem = (\<lambda>_. 0), outs = [], inp = (\<lambda>_. 0), inpw = (\<lambda>_. 0), iflag = True,
     cr0 = 0, cr2 = 0, cr3 = 0, cursor_x = 0, cursor_y = 0\<rparr>"

lemma monitor0_ok [simp]: "cursor_ok monitor0"
  by (simp add: monitor0_def cursor_ok_def)

text \<open>
  C6. Writing any sequence of characters drives the screen exactly as the abstract
  80 by 25 terminal prescribes (backspace, tab stops, carriage return, newline, printable ASCII,
  wrap at column 80, scroll at row 25), keeps the cursor on the screen, and changes no memory
  outside the video buffer and no other part of the machine.
\<close>
theorem monitor_refines_terminal:
  assumes "cursor_ok s"
  shows "terminal_of (monitor_puts cs s) = fold term_put cs (terminal_of s)
    \<and> cursor_ok (monitor_puts cs s) \<and> console_frame s (monitor_puts cs s)"
  unfolding monitor_puts_def
  using vga.puts_view [OF assms] vga.puts_ok [OF assms] vga.puts_frame [OF assms] by blast

theorem monitor_refines_terminal_witness:
  "terminal_of (monitor_puts (bytes ''ok'') monitor0)
     = fold term_put (bytes ''ok'') (terminal_of monitor0)
   \<and> cursor_ok (monitor_puts (bytes ''ok'') monitor0)
   \<and> console_frame monitor0 (monitor_puts (bytes ''ok'') monitor0)"
  by (rule monitor_refines_terminal [OF monitor0_ok])

text \<open>
  \<open>monitor_write\<close> of a NUL-terminated string outside the video buffer ends and prints exactly
  the characters before the terminator.
\<close>

lemma monitor_write_string:
  assumes "cstr (mem s) c cs" and "cursor_ok s" and "length cs < 4294967295"
    and "\<And>x. in_region c (Suc (length cs)) x \<Longrightarrow> \<not> in_video x"
  shows "monitor_write c s = Some (monitor_puts cs s)"
  unfolding monitor_write_def by (rule monitor_write_loop_puts) (use assms in simp_all)

lemma low_not_video: "unat x < 0xB8000 \<Longrightarrow> \<not> in_video x"
  using unat_sub_wrap32 [of x "0xB8000"] by (simp add: in_video_def in_region_def video_memory_def)

text \<open>
  C39. \<open>monitor_write_dec\<close> prints the decimal digits of every number below \<open>2 ^ 31\<close>, and those digits
  read back give the number; a number from \<open>2 ^ 31\<close> on is taken for a negative one and nothing is
  printed.
\<close>
theorem monitor_write_dec_prints:
  "monitor_write_dec n s = (if n < 0x80000000 then monitor_puts (decimal (unat n)) s else s)
   \<and> dec_value (decimal (unat n)) = unat n"
  by (simp add: monitor_write_dec_decimal dec_value_decimal)

lemma hd_hexadecimal: "0 < n \<Longrightarrow> hd (hexadecimal n) \<noteq> 48"
proof (induction n rule: hexadecimal.induct)
  case (1 n)
  have "\<forall>d \<in> set [1..<16]. hex_digit d \<noteq> 48" by code_simp
  then have digit: "0 < d \<Longrightarrow> d < 16 \<Longrightarrow> hex_digit d \<noteq> 48" for d by simp
  show ?case
  proof (cases "n < 16")
    case True
    then show ?thesis using 1(2) digit [of n] by (simp add: hexadecimal.simps)
  next
    case False
    then have "hexadecimal n = hexadecimal (n div 16) @ [hex_digit (n mod 16)]"
      by (subst hexadecimal.simps) simp
    moreover have "hexadecimal (n div 16) \<noteq> []" by (subst hexadecimal.simps) simp
    moreover have "0 < n div 16" using False by simp
    ultimately show ?thesis using 1(1) False by simp
  qed
qed

text \<open>
  C38. \<open>monitor_write_hex\<close> prints \<^verbatim>\<open>0x\<close> and the hexadecimal digits of every 32-bit number without
  leading zeroes, and those digits read back give the number.
\<close>
theorem monitor_write_hex_prints:
  "monitor_write_hex n s = monitor_puts (bytes ''0x'' @ hexadecimal (unat n)) s
   \<and> hex_value (hexadecimal (unat n)) = unat n
   \<and> (hd (hexadecimal (unat n)) = 48 \<longleftrightarrow> n = 0)"
proof (cases "n = 0")
  case True
  then show ?thesis
    by (simp add: monitor_write_hex_hexadecimal hex_value_hexadecimal)
       (simp add: hexadecimal.simps hex_digit_def)
next
  case False
  then show ?thesis
    using hd_hexadecimal [OF unat_pos [OF False]]
    by (simp add: monitor_write_hex_hexadecimal hex_value_hexadecimal)
qed

text \<open>
  A failed assertion never returns: it ends in the halted state, with interrupts off and a
  report that names the expression, the file and the line; an assertion that holds does nothing.
\<close>
theorem assertion_failure_halts:
  assumes "line < 0x80000000"
  shows "ASSERT b file line desc s =
    (if b then Inr () else Inl (Halted (monitor_puts
      (bytes ''ASSERTION-FAILED('' @ bytes desc @ bytes '') at '' @ bytes file @ bytes '':''
       @ decimal (unat line) @ [0x0A] @ bytes ''Computer halting now!'' @ [0x0A]) (s\<lparr>iflag := False\<rparr>))))"
  using assms by (simp add: ASSERT_def panic_assert_def panic_report_puts)

theorem assertion_failure_halts_witness:
  "ASSERT False ''f.c'' 7 ''p'' monitor0 = Inl (Halted (monitor_puts
      (bytes ''ASSERTION-FAILED('' @ bytes ''p'' @ bytes '') at '' @ bytes ''f.c'' @ bytes '':''
       @ decimal 7 @ [0x0A] @ bytes ''Computer halting now!'' @ [0x0A]) (monitor0\<lparr>iflag := False\<rparr>)))"
  using assertion_failure_halts [of 7 False "''f.c''" "''p''" monitor0]
  by (simp del: monitor_puts_simps ASSERT_simps)

end
