(* ===== verification/Interrupts.thy ===== *)
theory Interrupts
  imports Monitor
begin

text \<open>
  Interrupt dispatch, sys/isr.c: the table of registered handlers and the two C entry points that
  the assembly stubs of sys/interrupt.s call. A handler is one of the four functions the kernel
  registers; what they do is the argument \<open>call\<close> of the dispatchers, because the handlers
  live in components above this one. A handler gets the saved registers by reference and may
  change them, so it returns them with the state.
\<close>

section \<open>State and operations\<close>

datatype isr = Page_fault | Timer_callback | Keyboard_handler | Syscall_handler

record registers =
  r_ds :: u32
  r_edi :: u32
  r_esi :: u32
  r_ebp :: u32
  r_esp :: u32
  r_ebx :: u32
  r_edx :: u32
  r_ecx :: u32
  r_eax :: u32
  r_int_no :: u32
  r_err_code :: u32
  r_eip :: u32
  r_cs :: u32
  r_eflags :: u32
  r_useresp :: u32
  r_ss :: u32

record interrupts = monitor +
  interrupt_handlers :: "u8 \<Rightarrow> isr option"

type_synonym 's handler_call = "isr \<Rightarrow> registers \<Rightarrow> 's \<Rightarrow> ('s, registers \<times> 's) result"

definition register_interrupt_handler ::
  "u8 \<Rightarrow> isr \<Rightarrow> 'a interrupts_scheme \<Rightarrow> 'a interrupts_scheme" where
  "register_interrupt_handler num handler s =
     s\<lparr>interrupt_handlers := (interrupt_handlers s)(num := Some handler)\<rparr>"

definition isr_handler ::
  "'a interrupts_scheme handler_call \<Rightarrow> registers \<Rightarrow> 'a interrupts_scheme
   \<Rightarrow> ('a interrupts_scheme, registers \<times> 'a interrupts_scheme) result" where
  "isr_handler call regs s =
     (let int_no = ucast (r_int_no regs AND 0xFF) :: u8 in
      case interrupt_handlers s int_no of
        Some handler \<Rightarrow> call handler regs s
      | None \<Rightarrow>
          (let s = monitor_puts (bytes ''unhandled interrupt:'' @ [0x0A]) s;
               s = monitor_puts (bytes ''    hex: '') s;
               s = monitor_write_hex (ucast int_no) s;
               s = monitor_put 0x0A s;
               s = monitor_puts (bytes ''    dec: '') s;
               s = monitor_write_dec (ucast int_no) s;
               s = monitor_put 0x0A s
           in panic (bytes ''UNABLE TO FIND HANDLER FOR INTERRUPT'') (bytes ''sys/isr.c'') 44 s))"

text \<open>\<open>irq_handler\<close> indexes the table with the unmasked number: beyond 255 it reads outside.\<close>

definition irq_handler ::
  "'a interrupts_scheme handler_call \<Rightarrow> registers \<Rightarrow> 'a interrupts_scheme
   \<Rightarrow> ('a interrupts_scheme, registers \<times> 'a interrupts_scheme) result" where
  "irq_handler call regs s =
     (let s = (if 40 \<le> r_int_no regs then outb 0xA0 0x20 s else s);
          s = outb 0x20 0x20 s
      in if 256 \<le> r_int_no regs then Inl (Undefined ''interrupt_handlers index'')
         else case interrupt_handlers s (ucast (r_int_no regs)) of
           Some handler \<Rightarrow> call handler regs s
         | None \<Rightarrow> Inr (regs, s))"

text \<open>
  The numbers the stubs of sys/interrupt.s push: \<^verbatim>\<open>push byte n\<close> sign-extends to 32 bits.
\<close>

definition push_byte :: "u8 \<Rightarrow> u32" where
  "push_byte n = scast n"

section \<open>Dispatch\<close>

lemma register_simps [simp]:
  "interrupt_handlers (register_interrupt_handler n h s) = (interrupt_handlers s)(n := Some h)"
  "mem (register_interrupt_handler n h s) = mem s"
  "outs (register_interrupt_handler n h s) = outs s"
  "interrupts.more (register_interrupt_handler n h s) = interrupts.more s"
  by (simp_all add: register_interrupt_handler_def)

lemma pushed_number_masked: "ucast (push_byte n AND 0xFF) = n"
proof -
  have "push_byte n AND 0xFF = take_bit 8 (push_byte n)"
    by (simp add: take_bit_eq_mask mask_eq_exp_minus_1)
  then show ?thesis
    by (simp only: push_byte_def) (rule bit_word_eqI, auto simp: bit_simps)
qed

lemma isr_dispatch:
  assumes "r_int_no regs = push_byte n" and "interrupt_handlers s n = Some h"
  shows "isr_handler call regs s = call h regs s"
  using assms by (simp add: isr_handler_def pushed_number_masked)

lemma isr_unhandled:
  assumes "r_int_no regs = push_byte n" and "interrupt_handlers s n = None" and "cursor_ok s"
  shows "\<exists>t. isr_handler call regs s = Inl (Halted t) \<and> \<not> iflag t \<and> cursor_ok t"
  using assms
  by (simp add: isr_handler_def pushed_number_masked panic_def Let_def panic_report_ok
      monitor_puts_ok monitor_put_cursor_ok monitor_write_dec_ok monitor_write_hex_ok)

text \<open>Every line is acknowledged before its handler runs: the slave first for the lines 8 to 15, and the master.\<close>

lemma irq_acknowledges:
  assumes "r_int_no regs = of_nat n" and "32 \<le> n" and "n < 48"
  shows "irq_handler call regs s =
    (let t = s\<lparr>outs := (0x20, 0x20) # (if 40 \<le> n then [(0xA0, 0x20)] else []) @ outs s\<rparr> in
     case interrupt_handlers s (of_nat n) of
       Some h \<Rightarrow> call h regs t | None \<Rightarrow> Inr (regs, t))"
proof -
  have n: "unat (of_nat n :: u32) = n" using assms(3) by (simp add: unat_of_nat_small)
  then have "\<not> 256 \<le> (of_nat n :: u32)" and "40 \<le> (of_nat n :: u32) \<longleftrightarrow> 40 \<le> n"
    using assms(3) by (simp_all add: word_le_nat_alt)
  moreover have "ucast (of_nat n :: u32) = (of_nat n :: u8)"
    using assms(3) by (intro word_unat_eq_iff [THEN iffD2]) (simp add: unsigned_ucast_eq unat_of_nat take_bit_nat_eq_self)
  ultimately show ?thesis
    using assms(1)
    by (cases "interrupt_handlers s (of_nat n)") (simp_all add: irq_handler_def Let_def outb_def)
qed

section \<open>Properties\<close>

definition regs0 :: registers where
  "regs0 = \<lparr>r_ds = 0, r_edi = 0, r_esi = 0, r_ebp = 0, r_esp = 0, r_ebx = 0, r_edx = 0, r_ecx = 0,
     r_eax = 0, r_int_no = 0, r_err_code = 0, r_eip = 0, r_cs = 0, r_eflags = 0, r_useresp = 0,
     r_ss = 0\<rparr>"

definition interrupts0 :: interrupts where
  "interrupts0 = monitor.extend monitor0 \<lparr>interrupt_handlers = (\<lambda>_. None)\<rparr>"

text \<open>
  For every vector, also those that \<^verbatim>\<open>push byte\<close> sign-extends (128, the system call, among
  them), \<open>isr_handler\<close> runs the handler last registered for the vector, and without a handler it
  reports the vector and halts with interrupts off and the cursor on the screen.
\<close>
theorem isr_routes_vector:
  assumes "r_int_no regs = push_byte n" and "cursor_ok s"
  shows "isr_handler call regs (register_interrupt_handler n h s)
      = call h regs (register_interrupt_handler n h s)
    \<and> (interrupt_handlers s n \<noteq> None \<or>
       (\<exists>t. isr_handler call regs s = Inl (Halted t) \<and> \<not> iflag t \<and> cursor_ok t))"
proof -
  have "isr_handler call regs (register_interrupt_handler n h s)
      = call h regs (register_interrupt_handler n h s)"
    by (rule isr_dispatch [OF assms(1)]) simp
  moreover have "\<exists>t. isr_handler call regs s = Inl (Halted t) \<and> \<not> iflag t \<and> cursor_ok t"
    if "interrupt_handlers s n = None"
    using assms(1) that assms(2) by (rule isr_unhandled)
  ultimately show ?thesis by blast
qed

theorem isr_routes_vector_witness:
  "isr_handler (\<lambda>_ r s. Inr (r, s)) (regs0\<lparr>r_int_no := push_byte 128\<rparr>)
       (register_interrupt_handler 128 Syscall_handler interrupts0)
     = Inr (regs0\<lparr>r_int_no := push_byte 128\<rparr>, register_interrupt_handler 128 Syscall_handler interrupts0)
   \<and> push_byte 128 = 0xFFFFFF80"
proof -
  have "cursor_ok interrupts0"
    by (simp add: interrupts0_def monitor0_def cursor_ok_def monitor.extend_def)
  then show ?thesis
    using isr_routes_vector [of "regs0\<lparr>r_int_no := push_byte 128\<rparr>" 128 interrupts0
      "\<lambda>_ r s. Inr (r, s)" Syscall_handler]
    by (simp add: push_byte_def)
qed

end
