(* ===== verification/Descriptor_Tables.thy ===== *)
theory Descriptor_Tables
  imports Interrupts
begin

text \<open>
  The global and interrupt descriptor tables and the task state segment,
  sys/descriptor_tables.c with sys/dt_asm.s. The addresses of the tables and of the assembly
  stubs are fixed by the linker; they are the record \<open>layout\<close>, an argument of the operations
  that take them. Segment registers are loaded by the flush routines.
\<close>

section \<open>State and operations\<close>

record tss =
  t_prev_tss :: u32
  t_esp0 :: u32
  t_ss0 :: u32
  t_esp1 :: u32
  t_ss1 :: u32
  t_esp2 :: u32
  t_ss2 :: u32
  t_cr3 :: u32
  t_eip :: u32
  t_eflags :: u32
  t_eax :: u32
  t_ecx :: u32
  t_edx :: u32
  t_ebx :: u32
  t_esp :: u32
  t_ebp :: u32
  t_esi :: u32
  t_edi :: u32
  t_es :: u32
  t_cs :: u32
  t_ss :: u32
  t_ds :: u32
  t_fs :: u32
  t_gs :: u32
  t_ldt :: u32
  t_trap :: u16
  t_iomap_base :: u16

definition tss_zero :: tss where
  "tss_zero = \<lparr>t_prev_tss = 0, t_esp0 = 0, t_ss0 = 0, t_esp1 = 0, t_ss1 = 0, t_esp2 = 0,
     t_ss2 = 0, t_cr3 = 0, t_eip = 0, t_eflags = 0, t_eax = 0, t_ecx = 0, t_edx = 0, t_ebx = 0,
     t_esp = 0, t_ebp = 0, t_esi = 0, t_edi = 0, t_es = 0, t_cs = 0, t_ss = 0, t_ds = 0,
     t_fs = 0, t_gs = 0, t_ldt = 0, t_trap = 0, t_iomap_base = 0\<rparr>"

text \<open>\<^verbatim>\<open>sizeof\<close> of the packed structures: 25 double words and two words; 8 bytes each.\<close>

definition sizeof_tss :: u32 where "sizeof_tss = 104"
definition sizeof_gdt_entry :: u32 where "sizeof_gdt_entry = 8"
definition sizeof_idt_entry :: u32 where "sizeof_idt_entry = 8"

record gdt_entry =
  limit_low :: u16
  base_low :: u16
  base_middle :: u8
  access :: u8
  granularity :: u8
  base_high :: u8

record table_ptr =
  limit :: u16
  base :: u32

record idt_entry =
  base_lo :: u16
  sel :: u16
  always_zero :: u8
  flags :: u8
  base_hi :: u16

record layout =
  gdt_entries_addr :: u32
  idt_entries_addr :: u32
  tss_entry_addr :: u32
  isr_stub :: "nat \<Rightarrow> u32"
  irq_stub :: "nat \<Rightarrow> u32"

record dtables = interrupts +
  gdt_entries :: "gdt_entry list"
  gdt_ptr :: table_ptr
  idt_entries :: "u8 \<Rightarrow> idt_entry"
  idt_ptr :: table_ptr
  tss_entry :: tss
  gdtr :: table_ptr
  idtr :: table_ptr
  seg_cs :: u16
  seg_ds :: u16
  seg_es :: u16
  seg_fs :: u16
  seg_gs :: u16
  seg_ss :: u16
  task_reg :: u16

definition gdt_set_gate ::
  "nat \<Rightarrow> u32 \<Rightarrow> u32 \<Rightarrow> u8 \<Rightarrow> u8 \<Rightarrow> 'a dtables_scheme \<Rightarrow> 'a dtables_scheme" where
  "gdt_set_gate num bas lim acc gran s =
     s\<lparr>gdt_entries := (gdt_entries s)[num :=
        \<lparr>limit_low = ucast (lim AND 0xFFFF),
         base_low = ucast (bas AND 0xFFFF),
         base_middle = ucast (drop_bit 16 bas AND 0xFF),
         access = acc,
         granularity = ucast (drop_bit 16 lim AND 0x0F) OR (gran AND 0xF0),
         base_high = ucast (drop_bit 24 bas AND 0xFF)\<rparr>]\<rparr>"

definition idt_set_gate ::
  "u8 \<Rightarrow> u32 \<Rightarrow> u16 \<Rightarrow> u8 \<Rightarrow> 'a dtables_scheme \<Rightarrow> 'a dtables_scheme" where
  "idt_set_gate num bas selector flgs s =
     s\<lparr>idt_entries := (idt_entries s)(num :=
        \<lparr>base_lo = ucast (bas AND 0xFFFF),
         sel = selector,
         always_zero = 0,
         flags = flgs OR 0x60,
         base_hi = ucast (drop_bit 16 bas AND 0xFFFF)\<rparr>)\<rparr>"

definition write_tss :: "layout \<Rightarrow> nat \<Rightarrow> u16 \<Rightarrow> u32 \<Rightarrow> 'a dtables_scheme \<Rightarrow> 'a dtables_scheme" where
  "write_tss ly num ss0 esp0 s =
     (let bas = tss_entry_addr ly;
          lim = bas + sizeof_tss;
          s = gdt_set_gate num bas lim 0xE9 0x00 s
      in s\<lparr>tss_entry := tss_zero\<lparr>t_ss0 := ucast ss0, t_esp0 := esp0, t_cs := 0x0b,
            t_ss := 0x13, t_ds := 0x13, t_es := 0x13, t_fs := 0x13, t_gs := 0x13\<rparr>\<rparr>)"

definition set_kernel_stack :: "u32 \<Rightarrow> 'a dtables_scheme \<Rightarrow> 'a dtables_scheme" where
  "set_kernel_stack stack s = s\<lparr>tss_entry := (tss_entry s)\<lparr>t_esp0 := stack\<rparr>\<rparr>"

text \<open>sys/dt_asm.s: \<^verbatim>\<open>lgdt\<close>, \<^verbatim>\<open>lidt\<close> and \<^verbatim>\<open>ltr\<close> with the reload of the segment registers.\<close>

definition gdt_flush :: "'a dtables_scheme \<Rightarrow> 'a dtables_scheme" where
  "gdt_flush s = s\<lparr>gdtr := gdt_ptr s, seg_ds := 0x10, seg_es := 0x10, seg_fs := 0x10, seg_gs := 0x10, seg_ss := 0x10,
     seg_cs := 0x08\<rparr>"

definition idt_flush :: "'a dtables_scheme \<Rightarrow> 'a dtables_scheme" where
  "idt_flush s = s\<lparr>idtr := idt_ptr s\<rparr>"

definition tss_flush :: "'a dtables_scheme \<Rightarrow> 'a dtables_scheme" where
  "tss_flush s = s\<lparr>task_reg := 0x2B\<rparr>"

definition init_gdt :: "layout \<Rightarrow> 'a dtables_scheme \<Rightarrow> u8 \<times> 'a dtables_scheme" where
  "init_gdt ly s =
     (let s = s\<lparr>gdt_ptr := \<lparr>limit = ucast (sizeof_gdt_entry * 6 - 1), base = gdt_entries_addr ly\<rparr>\<rparr>;
          s = gdt_set_gate 0 0 0 0 0 s;
          s = gdt_set_gate 1 0 0xFFFFFFFF 0x9A 0xCF s;
          s = gdt_set_gate 2 0 0xFFFFFFFF 0x92 0xCF s;
          s = gdt_set_gate 3 0 0xFFFFFFFF 0xFA 0xCF s;
          s = gdt_set_gate 4 0 0xFFFFFFFF 0xF2 0xCF s;
          s = write_tss ly 5 0x10 0x0 s;
          s = gdt_flush s;
          s = tss_flush s
      in (0, s))"

definition idt_zero :: idt_entry where
  "idt_zero = \<lparr>base_lo = 0, sel = 0, always_zero = 0, flags = 0, base_hi = 0\<rparr>"

text \<open>The command words that move the IRQs of the two interrupt controllers to 32 to 47.\<close>

definition remap_pic :: "'a dtables_scheme \<Rightarrow> 'a dtables_scheme" where
  "remap_pic s = fold (\<lambda>(p, v). outb p v)
     [(0x20, 0x11), (0xA0, 0x11), (0x21, 0x20), (0xA1, 0x28), (0x21, 0x04), (0xA1, 0x02),
      (0x21, 0x01), (0xA1, 0x01), (0x21, 0x0), (0xA1, 0x0)] s"

definition isr_gates :: "layout \<Rightarrow> nat list \<Rightarrow> 'a dtables_scheme \<Rightarrow> 'a dtables_scheme" where
  "isr_gates ly ns s = fold (\<lambda>n. idt_set_gate (of_nat n) (isr_stub ly n) 0x08 0x8E) ns s"

definition irq_gates :: "layout \<Rightarrow> nat list \<Rightarrow> 'a dtables_scheme \<Rightarrow> 'a dtables_scheme" where
  "irq_gates ly ns s = fold (\<lambda>n. idt_set_gate (of_nat (32 + n)) (irq_stub ly n) 0x08 0x8E) ns s"

definition init_idt :: "layout \<Rightarrow> 'a dtables_scheme \<Rightarrow> u8 \<times> 'a dtables_scheme" where
  "init_idt ly s =
     (let s = s\<lparr>idt_ptr := \<lparr>limit = ucast (sizeof_idt_entry * 256 - 1), base = idt_entries_addr ly\<rparr>\<rparr>;
          s = s\<lparr>idt_entries := (\<lambda>_. idt_zero)\<rparr>;
          s = remap_pic s;
          s = isr_gates ly [0..<32] s;
          s = irq_gates ly [0..<16] s;
          s = idt_set_gate 128 (isr_stub ly 128) 0x08 0x8E s;
          s = idt_flush s
      in (0, s))"

definition init_descriptor_tables :: "layout \<Rightarrow> 'a dtables_scheme \<Rightarrow> u8 \<times> 'a dtables_scheme" where
  "init_descriptor_tables ly s =
     (let (success, s) = init_gdt ly s in
      if success \<noteq> 0 then (1, s)
      else let (success, s) = init_idt ly s in
        if success \<noteq> 0 then (1, s)
        else (0, s\<lparr>interrupt_handlers := (\<lambda>_. None)\<rparr>))"

section \<open>What the processor reads from a descriptor\<close>

definition gdt_base :: "gdt_entry \<Rightarrow> u32" where
  "gdt_base e = ucast (base_low e) OR push_bit 16 (ucast (base_middle e)) OR push_bit 24 (ucast (base_high e))"

definition gdt_limit :: "gdt_entry \<Rightarrow> u32" where
  "gdt_limit e = ucast (limit_low e) OR push_bit 16 (ucast (granularity e AND 0x0F))"

definition gdt_dpl :: "gdt_entry \<Rightarrow> u8" where
  "gdt_dpl e = drop_bit 5 (access e) AND 3"

text \<open>The last byte of a segment: with page granularity (bit 7) the limit counts pages of 4096 bytes.\<close>

definition gdt_last :: "gdt_entry \<Rightarrow> u32" where
  "gdt_last e = (if bit (granularity e) 7 then push_bit 12 (gdt_limit e) OR 0xFFF else gdt_limit e)"

text \<open>The access byte: present, a code or data segment, a code segment, writeable data or readable code.\<close>

definition gdt_present :: "gdt_entry \<Rightarrow> bool" where "gdt_present e \<longleftrightarrow> bit (access e) 7"
definition gdt_memory :: "gdt_entry \<Rightarrow> bool" where "gdt_memory e \<longleftrightarrow> bit (access e) 4"
definition gdt_code :: "gdt_entry \<Rightarrow> bool" where "gdt_code e \<longleftrightarrow> bit (access e) 3"

definition idt_offset :: "idt_entry \<Rightarrow> u32" where
  "idt_offset e = ucast (base_lo e) OR push_bit 16 (ucast (base_hi e))"

definition idt_present :: "idt_entry \<Rightarrow> bool" where
  "idt_present e \<longleftrightarrow> bit (flags e) 7"

definition idt_dpl :: "idt_entry \<Rightarrow> u8" where
  "idt_dpl e = drop_bit 5 (flags e) AND 3"

definition selector_entry :: "u16 \<Rightarrow> nat" where
  "selector_entry selector = unat (drop_bit 3 selector)"

section \<open>Descriptors keep what was written\<close>

lemma mask_numerals:
  "(0xFFFF :: u32) = mask 16" "(0xFF :: u32) = mask 8" "(0x0F :: u32) = mask 4"
  "(0x0F :: u8) = mask 4" "(0xF0 :: u8) = push_bit 4 (mask 4)"
  by (simp_all add: mask_eq_exp_minus_1)

definition make_gdt_entry :: "u32 \<Rightarrow> u32 \<Rightarrow> u8 \<Rightarrow> u8 \<Rightarrow> gdt_entry" where
  "make_gdt_entry bas lim acc gran =
     \<lparr>limit_low = ucast (lim AND 0xFFFF), base_low = ucast (bas AND 0xFFFF),
      base_middle = ucast (drop_bit 16 bas AND 0xFF), access = acc,
      granularity = ucast (drop_bit 16 lim AND 0x0F) OR (gran AND 0xF0),
      base_high = ucast (drop_bit 24 bas AND 0xFF)\<rparr>"

lemma gdt_set_gate_eq:
  "gdt_set_gate n b l a g s = s\<lparr>gdt_entries := (gdt_entries s)[n := make_gdt_entry b l a g]\<rparr>"
  by (simp add: gdt_set_gate_def make_gdt_entry_def)

lemma gdt_base_make: "gdt_base (make_gdt_entry b l a g) = b"
proof (rule bit_word_eqI)
  fix n assume "n < LENGTH(32)"
  then consider "n < 16" | "16 \<le> n" "n < 24" | "24 \<le> n" "n < 32" by force
  then show "bit (gdt_base (make_gdt_entry b l a g)) n = bit b n"
    unfolding gdt_base_def make_gdt_entry_def mask_numerals
    by cases (auto simp: bit_simps)
qed

lemma gdt_limit_make: "gdt_limit (make_gdt_entry b l a g) = take_bit 20 l"
proof (rule bit_word_eqI)
  fix n assume "n < LENGTH(32)"
  then consider "n < 16" | "16 \<le> n" "n < 20" | "20 \<le> n" "n < 32" by force
  then show "bit (gdt_limit (make_gdt_entry b l a g)) n = bit (take_bit 20 l) n"
    unfolding gdt_limit_def make_gdt_entry_def mask_numerals
    by cases (auto simp: bit_simps)
qed

lemma gdt_flags_make: "granularity (make_gdt_entry b l a g) AND 0xF0 = g AND 0xF0"
  unfolding make_gdt_entry_def mask_numerals
  by (rule bit_word_eqI) (auto simp: bit_simps)

lemma gdt_access_make [simp]: "access (make_gdt_entry b l a g) = a"
  by (simp add: make_gdt_entry_def)

definition make_idt_entry :: "u32 \<Rightarrow> u16 \<Rightarrow> u8 \<Rightarrow> idt_entry" where
  "make_idt_entry bas selector flgs =
     \<lparr>base_lo = ucast (bas AND 0xFFFF), sel = selector, always_zero = 0, flags = flgs OR 0x60,
      base_hi = ucast (drop_bit 16 bas AND 0xFFFF)\<rparr>"

lemma idt_set_gate_eq:
  "idt_set_gate n b sl f s = s\<lparr>idt_entries := (idt_entries s)(n := make_idt_entry b sl f)\<rparr>"
  by (simp add: idt_set_gate_def make_idt_entry_def)

lemma idt_offset_make: "idt_offset (make_idt_entry b sl f) = b"
proof (rule bit_word_eqI)
  fix n assume "n < LENGTH(32)"
  then consider "n < 16" | "16 \<le> n" "n < 32" by force
  then show "bit (idt_offset (make_idt_entry b sl f)) n = bit b n"
    unfolding idt_offset_def make_idt_entry_def mask_numerals
    by cases (auto simp: bit_simps)
qed

lemma make_idt_entry_simps [simp]:
  "sel (make_idt_entry b sl f) = sl" "flags (make_idt_entry b sl f) = f OR 0x60"
  "always_zero (make_idt_entry b sl f) = 0"
  by (simp_all add: make_idt_entry_def)

section \<open>Initialisation\<close>

lemma init_gdt_entries:
  assumes "length (gdt_entries s) = 6"
  shows "gdt_entries (snd (init_gdt ly s)) =
    [make_gdt_entry 0 0 0 0,
     make_gdt_entry 0 0xFFFFFFFF 0x9A 0xCF, make_gdt_entry 0 0xFFFFFFFF 0x92 0xCF,
     make_gdt_entry 0 0xFFFFFFFF 0xFA 0xCF, make_gdt_entry 0 0xFFFFFFFF 0xF2 0xCF,
     make_gdt_entry (tss_entry_addr ly) (tss_entry_addr ly + 104) 0xE9 0x00]"
proof -
  obtain a b c d e f where "gdt_entries s = [a, b, c, d, e, f]"
    using assms by (auto simp: length_Suc_conv numeral_eq_Suc)
  then show ?thesis
    by (simp add: init_gdt_def gdt_set_gate_eq write_tss_def gdt_flush_def tss_flush_def
        sizeof_tss_def Let_def numeral_eq_Suc)
qed

lemma of_nat_u8_inject: "n < 256 \<Longrightarrow> k < 256 \<Longrightarrow> (of_nat n :: u8) = of_nat k \<longleftrightarrow> n = k"
  by (metis unat_of_nat_u8)

lemma isr_gates_entries:
  assumes "\<forall>n \<in> set ns. n < 256" and "k < 256"
  shows "idt_entries (isr_gates ly ns s) (of_nat k) =
    (if k \<in> set ns then make_idt_entry (isr_stub ly k) 0x08 0x8E else idt_entries s (of_nat k))"
  using assms unfolding isr_gates_def
  by (induction ns arbitrary: s) (auto simp: idt_set_gate_eq of_nat_u8_inject)

lemma irq_gates_entries:
  assumes "\<forall>n \<in> set ns. n < 16" and "k < 256"
  shows "idt_entries (irq_gates ly ns s) (of_nat k) =
    (if 32 \<le> k \<and> k - 32 \<in> set ns then make_idt_entry (irq_stub ly (k - 32)) 0x08 0x8E
     else idt_entries s (of_nat k))"
  using assms unfolding irq_gates_def
proof (induction ns arbitrary: s)
  case (Cons n ns)
  have "(of_nat k :: u8) = of_nat (32 + n) \<longleftrightarrow> k = 32 + n"
    using Cons.prems by (intro of_nat_u8_inject) auto
  then show ?case using Cons by (auto simp: idt_set_gate_eq simp del: of_nat_add)
qed simp

lemma remap_pic_simps [simp]: "idt_entries (remap_pic s) = idt_entries s"
  by (simp add: remap_pic_def outb_def)

lemma init_idt_entries:
  assumes "k < 256"
  shows "idt_entries (snd (init_idt ly s)) (of_nat k) =
    (if k < 32 \<or> k = 128 then make_idt_entry (isr_stub ly k) 0x08 0x8E
     else if k < 48 then make_idt_entry (irq_stub ly (k - 32)) 0x08 0x8E
     else idt_zero)"
proof -
  have "(of_nat k :: u8) = 128 \<longleftrightarrow> k = 128"
    using assms of_nat_u8_inject [of k 128] by simp
  then show ?thesis
    using assms
    by (auto simp: init_idt_def Let_def idt_flush_def idt_set_gate_eq irq_gates_entries
        isr_gates_entries)
qed

lemma init_descriptor_tables_simps:
  "fst (init_descriptor_tables ly s) = 0"
  "interrupt_handlers (snd (init_descriptor_tables ly s)) = (\<lambda>_. None)"
  by (simp_all add: init_descriptor_tables_def init_gdt_def init_idt_def Let_def)

section \<open>Properties\<close>

text \<open>
  A segment descriptor and an interrupt gate decode, the way the processor reads them, to what
  was encoded: the base and the low 20 bits of the limit of a segment, its access byte and its
  granularity flags; the offset and selector of a gate. A gate always gets privilege level 3.
\<close>
theorem descriptors_round_trip:
  assumes "n < length (gdt_entries s)"
  shows "gdt_base (gdt_entries (gdt_set_gate n b l a g s) ! n) = b
    \<and> gdt_limit (gdt_entries (gdt_set_gate n b l a g s) ! n) = take_bit 20 l
    \<and> access (gdt_entries (gdt_set_gate n b l a g s) ! n) = a
    \<and> granularity (gdt_entries (gdt_set_gate n b l a g s) ! n) AND 0xF0 = g AND 0xF0
    \<and> idt_offset (idt_entries (idt_set_gate v b sl f s) v) = b
    \<and> sel (idt_entries (idt_set_gate v b sl f s) v) = sl
    \<and> idt_dpl (idt_entries (idt_set_gate v b sl f s) v) = 3"
proof -
  have "drop_bit 5 (f OR 0x60) AND 3 = (3 :: u8)"
    by (rule bit_word_eqI) (auto simp: bit_simps)
  then show ?thesis
    using assms by (simp add: gdt_set_gate_eq idt_set_gate_eq gdt_base_make gdt_limit_make
        gdt_flags_make idt_offset_make idt_dpl_def)
qed

lemma gates_keep [simp]:
  "gdtr (isr_gates ly ns s) = gdtr s" "idt_ptr (isr_gates ly ns s) = idt_ptr s"
  "gdtr (irq_gates ly ns s) = gdtr s" "idt_ptr (irq_gates ly ns s) = idt_ptr s"
  unfolding isr_gates_def irq_gates_def
  by (induction ns arbitrary: s) (simp_all add: idt_set_gate_eq)

lemma remap_pic_keeps [simp]: "gdtr (remap_pic s) = gdtr s" "idt_ptr (remap_pic s) = idt_ptr s"
  by (simp_all add: remap_pic_def outb_def)

lemma init_tables:
  "idtr (snd (init_idt ly s)) = \<lparr>limit = 2047, base = idt_entries_addr ly\<rparr>"
  "gdtr (snd (init_idt ly s)) = gdtr s"
  "gdtr (snd (init_gdt ly s)) = \<lparr>limit = 47, base = gdt_entries_addr ly\<rparr>"
  by (simp_all add: init_idt_def init_gdt_def idt_set_gate_eq gdt_set_gate_eq write_tss_def
      idt_flush_def gdt_flush_def tss_flush_def sizeof_idt_entry_def sizeof_gdt_entry_def Let_def)

definition layout0 :: layout where
  "layout0 = \<lparr>gdt_entries_addr = 0x1000, idt_entries_addr = 0x2000, tss_entry_addr = 0x3000,
     isr_stub = (\<lambda>n. 0x100000 + 16 * of_nat n), irq_stub = (\<lambda>n. 0x110000 + 16 * of_nat n)\<rparr>"

definition dtables0 :: dtables where
  "dtables0 = interrupts.extend interrupts0
     \<lparr>gdt_entries = replicate 6 (make_gdt_entry 0 0 0 0), gdt_ptr = \<lparr>limit = 0, base = 0\<rparr>,
      idt_entries = (\<lambda>_. idt_zero), idt_ptr = \<lparr>limit = 0, base = 0\<rparr>, tss_entry = tss_zero,
      gdtr = \<lparr>limit = 0, base = 0\<rparr>, idtr = \<lparr>limit = 0, base = 0\<rparr>, seg_cs = 0, seg_ds = 0, seg_es = 0, seg_fs = 0,
      seg_gs = 0, seg_ss = 0, task_reg = 0\<rparr>"

lemma dtables0_gdt [simp]: "length (gdt_entries dtables0) = 6"
  by (simp add: dtables0_def interrupts.extend_def)

theorem descriptors_round_trip_witness:
  "gdt_base (gdt_entries (gdt_set_gate 5 0x12345678 0xABCDE 0xE9 0 dtables0) ! 5) = 0x12345678
   \<and> gdt_limit (gdt_entries (gdt_set_gate 5 0x12345678 0xABCDE 0xE9 0 dtables0) ! 5) = 0xABCDE
   \<and> idt_offset (idt_entries (idt_set_gate 128 0x12345678 8 0x8E dtables0) 128) = 0x12345678
   \<and> idt_dpl (idt_entries (idt_set_gate 128 0x12345678 8 0x8E dtables0) 128) = 3"
  using descriptors_round_trip [of 5 dtables0 "0x12345678" "0xABCDE" "0xE9" 0 128 8 "0x8E"] by simp

text \<open>
  C34. The segments the kernel sets up, as the processor reads them from the table: entry 0 is not present; entries 1 and 2 are
  the kernel's code and data, 3 and 4 the user's with privilege level 3, and each of the four starts at 0 and ends with
  the last byte of the address space, although the field for the limit holds only 20 bits of the number passed; entry 5 is a present system
  segment (the TSS) at the address of \<^verbatim>\<open>tss_entry\<close>. The segment registers hold the kernel's segments.
\<close>
theorem flat_segments_installed:
  assumes "length (gdt_entries s) = 6" and "init_gdt ly s = (success, t)"
  shows "success = 0 \<and> \<not> gdt_present (gdt_entries t ! 0)
    \<and> (\<forall>i \<in> {1, 2, 3, 4}. gdt_present (gdt_entries t ! i) \<and> gdt_memory (gdt_entries t ! i)
        \<and> gdt_base (gdt_entries t ! i) = 0 \<and> gdt_last (gdt_entries t ! i) = 0xFFFFFFFF
        \<and> gdt_code (gdt_entries t ! i) = (i = 1 \<or> i = 3) \<and> gdt_dpl (gdt_entries t ! i) = (if i < 3 then 0 else 3))
    \<and> gdt_present (gdt_entries t ! 5) \<and> \<not> gdt_memory (gdt_entries t ! 5) \<and> gdt_base (gdt_entries t ! 5) = tss_entry_addr ly
    \<and> selector_entry (seg_cs t) = 1 \<and> (\<forall>r \<in> {seg_ds t, seg_es t, seg_fs t, seg_gs t, seg_ss t}. selector_entry r = 2)
    \<and> selector_entry (task_reg t) = 5"
proof -
  have t: "gdt_entries t = [make_gdt_entry 0 0 0 0, make_gdt_entry 0 0xFFFFFFFF 0x9A 0xCF, make_gdt_entry 0 0xFFFFFFFF 0x92 0xCF,
     make_gdt_entry 0 0xFFFFFFFF 0xFA 0xCF, make_gdt_entry 0 0xFFFFFFFF 0xF2 0xCF,
     make_gdt_entry (tss_entry_addr ly) (tss_entry_addr ly + 104) 0xE9 0x00]"
    using init_gdt_entries [OF assms(1), of ly] assms(2) by simp
  have r: "success = 0" "seg_cs t = 0x08" "seg_ds t = 0x10" "seg_es t = 0x10" "seg_fs t = 0x10" "seg_gs t = 0x10" "seg_ss t = 0x10"
    "task_reg t = 0x2B"
    using assms(2) by (auto simp: init_gdt_def gdt_set_gate_eq write_tss_def gdt_flush_def tss_flush_def Let_def)
  have "gdt_last (make_gdt_entry 0 0xFFFFFFFF a 0xCF) = 0xFFFFFFFF" for a
    by (simp add: gdt_last_def gdt_limit_make) (simp add: make_gdt_entry_def)
  then show ?thesis
    by (simp add: r) (simp add: t gdt_present_def gdt_memory_def gdt_code_def gdt_dpl_def gdt_base_make selector_entry_def)
qed

theorem flat_segments_installed_witness:
  "gdt_last (gdt_entries (snd (init_gdt layout0 dtables0)) ! 4) = 0xFFFFFFFF
    \<and> gdt_dpl (gdt_entries (snd (init_gdt layout0 dtables0)) ! 4) = 3"
proof -
  obtain success t where t: "init_gdt layout0 dtables0 = (success, t)" by fastforce
  show ?thesis unfolding t using flat_segments_installed [OF dtables0_gdt t] by simp
qed

text \<open>
  C20. After \<open>init_descriptor_tables\<close> every processor exception (0 to 31), every hardware interrupt
  (32 to 47) and the system call (128) has a present gate in the kernel code segment that leads to
  its own stub, every other vector is absent, no handler is registered, and the processor's table
  registers hold the two tables.
\<close>
theorem descriptor_tables_installed:
  assumes "init_descriptor_tables ly s = (success, t)" and "k < 256"
  shows "success = 0
    \<and> idt_present (idt_entries t (of_nat k)) = (k < 48 \<or> k = 128)
    \<and> (k < 32 \<or> k = 128 \<longrightarrow> idt_offset (idt_entries t (of_nat k)) = isr_stub ly k)
    \<and> (32 \<le> k \<and> k < 48 \<longrightarrow> idt_offset (idt_entries t (of_nat k)) = irq_stub ly (k - 32))
    \<and> (k < 48 \<or> k = 128 \<longrightarrow> sel (idt_entries t (of_nat k)) = 8)
    \<and> interrupt_handlers t = (\<lambda>_. None)
    \<and> idtr t = \<lparr>limit = 2047, base = idt_entries_addr ly\<rparr>
    \<and> gdtr t = \<lparr>limit = 47, base = gdt_entries_addr ly\<rparr>"
proof -
  have t: "t = (snd (init_idt ly (snd (init_gdt ly s))))\<lparr>interrupt_handlers := (\<lambda>_. None)\<rparr>"
    and "success = 0"
    using assms(1) by (auto simp: init_descriptor_tables_def init_gdt_def init_idt_def Let_def)
  then show ?thesis
    using init_idt_entries [OF assms(2), of ly "snd (init_gdt ly s)"]
    by (auto simp: idt_offset_make idt_present_def idt_zero_def init_tables bit_simps)
qed

theorem descriptor_tables_installed_witness:
  "idt_offset (idt_entries (snd (init_descriptor_tables layout0 dtables0)) 33) = 0x110010
   \<and> \<not> idt_present (idt_entries (snd (init_descriptor_tables layout0 dtables0)) 48)"
proof -
  obtain success t where t: "init_descriptor_tables layout0 dtables0 = (success, t)" by fastforce
  show ?thesis
    unfolding t using descriptor_tables_installed [OF t, of 33] descriptor_tables_installed [OF t, of 48]
    by (simp add: layout0_def)
qed

end
