(* ===== verification/Ordered_Array.thy ===== *)
theory Ordered_Array
  imports Monitor "HOL-Library.Multiset"
begin

text \<open>
  The ordered arrays of sys/ordered_array.c. The descriptor is a record; the elements are 32-bit
  words in the raw memory, because the kernel heap places its index inside the memory it manages.
  The comparison is a function pointer (\<open>None\<close> is the null pointer) and reads the memory.
  \<open>oa_list\<close> is the abstraction: the list of the first \<open>size\<close> elements. Insertion refines
  insertion into a sorted list (locale \<open>key_order\<close>, interpreted here for the standard
  predicate and in the heap for the order of holes by size).
\<close>

section \<open>State and operations\<close>

type_synonym lessthan_predicate = "memory \<Rightarrow> u32 \<Rightarrow> u32 \<Rightarrow> u8"

record ordered_array =
  oa_array :: u32
  oa_size :: u32
  oa_max_size :: u32
  oa_less_than :: "lessthan_predicate option"

definition standard_lessthan_predicate :: lessthan_predicate where
  "standard_lessthan_predicate m a b = (if a < b then 1 else 0)"

definition place_ordered_array ::
  "u32 \<Rightarrow> u32 \<Rightarrow> lessthan_predicate option \<Rightarrow> 'a hw_scheme \<Rightarrow> ordered_array \<times> 'a hw_scheme" where
  "place_ordered_array addr max_size lt s =
     (\<lparr>oa_array = addr, oa_size = 0, oa_max_size = max_size, oa_less_than = lt\<rparr>,
      s\<lparr>mem := memset (mem s) addr 0 (max_size * 4)\<rparr>)"

text \<open>\<open>create_ordered_array\<close> takes its storage from \<^verbatim>\<open>kmalloc\<close>, the argument \<open>alloc\<close>.\<close>

definition create_ordered_array ::
  "(u32 \<Rightarrow> 'a hw_scheme \<Rightarrow> ('a hw_scheme, u32 \<times> 'a hw_scheme) result)
   \<Rightarrow> u32 \<Rightarrow> lessthan_predicate option \<Rightarrow> 'a hw_scheme
   \<Rightarrow> ('a hw_scheme, ordered_array \<times> 'a hw_scheme) result" where
  "create_ordered_array alloc max_size lt s =
     bind_res (alloc (max_size * 4) s) (\<lambda>(addr, s).
       Inr (place_ordered_array addr max_size lt s))"

definition destroy_ordered_array :: "ordered_array \<Rightarrow> 'a hw_scheme \<Rightarrow> 'a hw_scheme" where
  "destroy_ordered_array array s = s"

text \<open>The first loop of \<open>insert_ordered_array\<close>: the index at which the item belongs.\<close>

function oa_scan :: "memory \<Rightarrow> lessthan_predicate \<Rightarrow> u32 \<Rightarrow> u32 \<Rightarrow> u32 \<Rightarrow> u32 \<Rightarrow> u32" where
  "oa_scan m lt array sz item iterator =
     (if iterator < sz \<and> lt m (ld32 m (array + 4 * iterator)) item \<noteq> 0
      then oa_scan m lt array sz item (iterator + 1) else iterator)"
  by pat_completeness auto
termination
  by (relation "measure (\<lambda>(m, lt, array, sz, item, iterator). unat sz - unat iterator)") auto

text \<open>Its second loop: every element from the insertion point on moves up by one.\<close>

function oa_shift :: "memory \<Rightarrow> u32 \<Rightarrow> u32 \<Rightarrow> u32 \<Rightarrow> u32 \<Rightarrow> memory" where
  "oa_shift m array sz temp iterator =
     (if iterator < sz
      then oa_shift (st32 m (array + 4 * (iterator + 1)) temp) array sz
             (ld32 m (array + 4 * (iterator + 1))) (iterator + 1)
      else m)"
  by pat_completeness auto
termination
  by (relation "measure (\<lambda>(m, array, sz, temp, iterator). unat sz - unat iterator)") auto

text \<open>The loop of \<open>remove_ordered_array\<close>.\<close>

function oa_close :: "memory \<Rightarrow> u32 \<Rightarrow> u32 \<Rightarrow> u32 \<Rightarrow> memory" where
  "oa_close m array sz i =
     (if i < sz
      then oa_close (st32 m (array + 4 * i) (ld32 m (array + 4 * (i + 1)))) array sz (i + 1)
      else m)"
  by pat_completeness auto
termination
  by (relation "measure (\<lambda>(m, array, sz, i). unat sz - unat i)") auto

declare oa_scan.simps [simp del] oa_shift.simps [simp del] oa_close.simps [simp del]

definition insert_ordered_array ::
  "u32 \<Rightarrow> ordered_array \<Rightarrow> 'a monitor_scheme
   \<Rightarrow> ('a monitor_scheme, ordered_array \<times> 'a monitor_scheme) result" where
  "insert_ordered_array item array s =
     (case oa_less_than array of
        None \<Rightarrow> panic_assert (bytes ''sys/ordered_array.c'') 52 (bytes ''array->less_than'') s
      | Some lt \<Rightarrow>
          (let iterator = oa_scan (mem s) lt (oa_array array) (oa_size array) item 0 in
           if iterator = oa_size array
           then Inr (array\<lparr>oa_size := oa_size array + 1\<rparr>,
                     s\<lparr>mem := st32 (mem s) (oa_array array + 4 * oa_size array) item\<rparr>)
           else
             (let temp = ld32 (mem s) (oa_array array + 4 * iterator);
                  m = st32 (mem s) (oa_array array + 4 * iterator) item;
                  m = oa_shift m (oa_array array) (oa_size array) temp iterator
              in Inr (array\<lparr>oa_size := oa_size array + 1\<rparr>, s\<lparr>mem := m\<rparr>))))"

definition lookup_ordered_array ::
  "u32 \<Rightarrow> ordered_array \<Rightarrow> 'a monitor_scheme \<Rightarrow> ('a monitor_scheme, u32) result" where
  "lookup_ordered_array i array s =
     bind_res (ASSERT (i < oa_size array) ''sys/ordered_array.c'' 80 ''i < array->size'' s)
       (\<lambda>_. Inr (ld32 (mem s) (oa_array array + 4 * i)))"

definition remove_ordered_array ::
  "u32 \<Rightarrow> ordered_array \<Rightarrow> 'a hw_scheme \<Rightarrow> ordered_array \<times> 'a hw_scheme" where
  "remove_ordered_array i array s =
     (array\<lparr>oa_size := oa_size array + 1\<rparr>,
      s\<lparr>mem := oa_close (mem s) (oa_array array) (oa_size array) i\<rparr>)"

section \<open>The abstract list\<close>

definition oa_elem :: "memory \<Rightarrow> u32 \<Rightarrow> nat \<Rightarrow> u32" where
  "oa_elem m array i = ld32 m (array + 4 * of_nat i)"

definition oa_list :: "memory \<Rightarrow> ordered_array \<Rightarrow> u32 list" where
  "oa_list m a = map (oa_elem m (oa_array a)) [0..<unat (oa_size a)]"

text \<open>Room for one more element without wrapping the index arithmetic.\<close>

definition oa_fits :: "ordered_array \<Rightarrow> bool" where
  "oa_fits a \<longleftrightarrow> unat (oa_size a) < 1073741823"

section \<open>Elements after writes\<close>

lemma index_bound_simps:
  "unat (oa_size a) < 1073741823 \<Longrightarrow> k \<le> unat (oa_size a) \<Longrightarrow> k < 1073741824"
  by simp

lemma oa_elem_st32:
  assumes "i < 1073741824" and "j < 1073741824"
  shows "oa_elem (st32 m (array + 4 * of_nat i) v) array j = (if i = j then v else oa_elem m array j)"
  using assms ld32_st32_index [of i j m array v] by (auto simp: oa_elem_def)

lemma length_oa_list [simp]: "length (oa_list m a) = unat (oa_size a)"
  by (simp add: oa_list_def)

lemma nth_oa_list: "i < unat (oa_size a) \<Longrightarrow> oa_list m a ! i = oa_elem m (oa_array a) i"
  by (simp add: oa_list_def)

lemma oa_elem_frame:
  assumes "\<And>x. in_region array (4 * n) x \<Longrightarrow> m' x = m x" and "i < n" and "n \<le> 1073741824"
  shows "oa_elem m' array i = oa_elem m array i"
  unfolding oa_elem_def
proof (rule ld32_frame)
  fix x assume "in_region (array + 4 * of_nat i) 4 x"
  then obtain k where k: "k < 4" "x = array + 4 * of_nat i + of_nat k" by (rule in_regionE)
  then have "x = array + of_nat (4 * i + k)" by simp
  moreover have "4 * i + k < 4 * n" using k(1) assms(2) by simp
  ultimately show "m' x = m x"
    using assms(1,3) by (simp add: in_region_of_nat del: of_nat_add of_nat_mult)
qed

lemma oa_list_frame:
  assumes "\<And>x. in_region (oa_array a) (4 * unat (oa_size a)) x \<Longrightarrow> m' x = m x"
    and "unat (oa_size a) \<le> 1073741824"
  shows "oa_list m' a = oa_list m a"
  unfolding oa_list_def using assms by (auto intro!: oa_elem_frame)

lemma st32_elem_outside:
  assumes "i < n" and "n \<le> 1073741824" and "\<not> in_region array (4 * n) x"
  shows "st32 m (array + 4 * of_nat i) v x = m x"
proof (rule st32_outside)
  show "\<not> in_region (array + 4 * of_nat i) 4 x"
  proof
    assume "in_region (array + 4 * of_nat i) 4 x"
    then obtain k where k: "k < 4" "x = array + 4 * of_nat i + of_nat k" by (rule in_regionE)
    then have "x = array + of_nat (4 * i + k)" by simp
    moreover have "4 * i + k < 4 * n" using k(1) assms(1) by simp
    ultimately show False
      using assms(2,3) by (simp add: in_region_of_nat del: of_nat_add of_nat_mult)
  qed
qed

section \<open>The loops\<close>

lemma Suc_index: "(of_nat i :: u32) + 1 = of_nat (Suc i)"
  by simp

lemma index_less:
  assumes "i < 4294967296"
  shows "(of_nat i :: u32) < sz \<longleftrightarrow> i < unat sz"
  using assms by (simp add: word_less_nat_alt unat_of_nat_small)

text \<open>
  A loop that counts up as long as the elements satisfy a condition stops at the length of the
  longest prefix that does.
\<close>

lemma scan_eq:
  fixes f :: "u32 \<Rightarrow> u32"
  assumes step: "\<And>i. f i = (if i < of_nat n \<and> P (ld32 m (array + 4 * i)) then f (i + 1) else i)"
    and "n < 4294967296" and "i \<le> n"
  shows "f (of_nat i) = of_nat (i + length (takeWhile P (map (oa_elem m array) [i..<n])))"
  using assms(3)
proof (induction "n - i" arbitrary: i)
  case 0
  then have "\<not> (of_nat i :: u32) < of_nat n" by simp
  then show ?case using 0 by (subst step) simp
next
  case (Suc d)
  then have i: "i < n" by simp
  then have up: "[i..<n] = i # [Suc i..<n]" by (simp add: upt_conv_Cons)
  have less: "(of_nat i :: u32) < of_nat n"
    using i assms(2) by (simp add: index_less unat_of_nat_small)
  have IH: "f (of_nat (Suc i)) = of_nat (Suc i + length (takeWhile P (map (oa_elem m array) [Suc i..<n])))"
    using Suc by (intro Suc.hyps(1)) simp_all
  show ?case
    using less IH unfolding up by (subst step) (simp add: oa_elem_def Suc_index add.commute)
qed

lemma scan_list_eq:
  assumes "\<And>i. f i = (if i < oa_size a \<and> P (ld32 m (oa_array a + 4 * i)) then f (i + 1) else i)"
  shows "f 0 = of_nat (length (takeWhile P (oa_list m a)))"
  using scan_eq [of f "unat (oa_size a)" P m "oa_array a" 0] assms by (simp add: oa_list_def)

lemma oa_shift_elem:
  assumes "n < 1073741824" and "i \<le> n" and "k < 1073741824"
  shows "oa_elem (oa_shift m array (of_nat n) temp (of_nat i)) array k =
    (if i < k \<and> k \<le> n then if k = Suc i then temp else oa_elem m array (k - 1)
     else oa_elem m array k)"
  using assms(2)
proof (induction "n - i" arbitrary: i m temp)
  case 0
  then have "\<not> (of_nat i :: u32) < of_nat n" by simp
  then show ?case using 0 by (subst oa_shift.simps) auto
next
  case (Suc d)
  then have i: "i < n" by simp
  have less: "(of_nat i :: u32) < of_nat n"
    using i assms(1) by (simp add: index_less unat_of_nat_small)
  let ?m = "st32 m (array + 4 * of_nat (Suc i)) temp"
  have IH: "oa_elem (oa_shift ?m array (of_nat n) (oa_elem m array (Suc i)) (of_nat (Suc i))) array k =
      (if Suc i < k \<and> k \<le> n then if k = Suc (Suc i) then oa_elem m array (Suc i) else oa_elem ?m array (k - 1)
       else oa_elem ?m array k)"
    using Suc i by (intro Suc.hyps(1)) simp_all
  have upd: "oa_elem ?m array j = (if Suc i = j then temp else oa_elem m array j)"
    if "j < 1073741824" for j
    using that i assms(1) by (intro oa_elem_st32) simp_all
  have step: "oa_shift m array (of_nat n) temp (of_nat i)
      = oa_shift ?m array (of_nat n) (oa_elem m array (Suc i)) (of_nat (Suc i))"
    using less by (subst oa_shift.simps) (simp add: oa_elem_def Suc_index del: of_nat_Suc)
  show ?case
    unfolding step IH using upd [of k] upd [of "k - 1"] assms(3) i by auto
qed

lemma oa_close_elem:
  assumes "n < 1073741823" and "i \<le> n" and "k < 1073741824"
  shows "oa_elem (oa_close m array (of_nat n) (of_nat i)) array k =
    (if i \<le> k \<and> k < n then oa_elem m array (Suc k) else oa_elem m array k)"
  using assms(2)
proof (induction "n - i" arbitrary: i m)
  case 0
  then have "\<not> (of_nat i :: u32) < of_nat n" by simp
  then show ?case using 0 by (subst oa_close.simps) auto
next
  case (Suc d)
  then have i: "i < n" by simp
  have less: "(of_nat i :: u32) < of_nat n"
    using i assms(1) by (simp add: index_less unat_of_nat_small)
  let ?m = "st32 m (array + 4 * of_nat i) (oa_elem m array (Suc i))"
  have IH: "oa_elem (oa_close ?m array (of_nat n) (of_nat (Suc i))) array k =
      (if Suc i \<le> k \<and> k < n then oa_elem ?m array (Suc k) else oa_elem ?m array k)"
    using Suc i by (intro Suc.hyps(1)) simp_all
  have upd: "oa_elem ?m array j = (if i = j then oa_elem m array (Suc i) else oa_elem m array j)"
    if "j < 1073741824" for j
    using that i assms(1) by (intro oa_elem_st32) simp_all
  have step: "oa_close m array (of_nat n) (of_nat i) = oa_close ?m array (of_nat n) (of_nat (Suc i))"
    using less by (subst oa_close.simps) (simp add: oa_elem_def Suc_index del: of_nat_Suc)
  show ?case
    unfolding step IH using upd [of k] upd [of "Suc k"] assms(1,3) i by auto
qed

lemma oa_shift_outside:
  assumes "n < 1073741824" and "i \<le> n" and "\<not> in_region array (4 * Suc n) x"
  shows "oa_shift m array (of_nat n) temp (of_nat i) x = m x"
  using assms(2)
proof (induction "n - i" arbitrary: i m temp)
  case 0
  then have "\<not> (of_nat i :: u32) < of_nat n" by simp
  then show ?case by (subst oa_shift.simps) simp
next
  case (Suc d)
  then have i: "i < n" by simp
  let ?m = "st32 m (array + 4 * of_nat (Suc i)) temp"
  have less: "(of_nat i :: u32) < of_nat n"
    using i assms(1) by (simp add: index_less unat_of_nat_small)
  have "oa_shift m array (of_nat n) temp (of_nat i)
      = oa_shift ?m array (of_nat n) (oa_elem m array (Suc i)) (of_nat (Suc i))"
    using less by (subst oa_shift.simps) (simp add: oa_elem_def Suc_index del: of_nat_Suc)
  moreover have "oa_shift ?m array (of_nat n) (oa_elem m array (Suc i)) (of_nat (Suc i)) x = ?m x"
    using Suc i by (intro Suc.hyps(1)) simp_all
  moreover have "?m x = m x"
    by (rule st32_elem_outside [of _ "Suc n"]) (use i assms in simp_all)
  ultimately show ?case by simp
qed

lemma oa_close_outside:
  assumes "n < 1073741824" and "i \<le> n" and "\<not> in_region array (4 * n) x"
  shows "oa_close m array (of_nat n) (of_nat i) x = m x"
  using assms(2)
proof (induction "n - i" arbitrary: i m)
  case 0
  then have "\<not> (of_nat i :: u32) < of_nat n" by simp
  then show ?case by (subst oa_close.simps) simp
next
  case (Suc d)
  then have i: "i < n" by simp
  let ?m = "st32 m (array + 4 * of_nat i) (oa_elem m array (Suc i))"
  have less: "(of_nat i :: u32) < of_nat n"
    using i assms(1) by (simp add: index_less unat_of_nat_small)
  have "oa_close m array (of_nat n) (of_nat i) = oa_close ?m array (of_nat n) (of_nat (Suc i))"
    using less by (subst oa_close.simps) (simp add: oa_elem_def Suc_index del: of_nat_Suc)
  moreover have "oa_close ?m array (of_nat n) (of_nat (Suc i)) x = ?m x"
    using Suc i by (intro Suc.hyps(1)) simp_all
  moreover have "?m x = m x"
    by (rule st32_elem_outside [of _ n]) (use i assms in simp_all)
  ultimately show ?case by simp
qed

section \<open>Insertion, removal, lookup\<close>

lemma takeWhile_split_nth:
  assumes "j = length (takeWhile P xs)"
  shows "takeWhile P xs = take j xs" and "dropWhile P xs = drop j xs"
  unfolding assms by (rule takeWhile_eq_take, rule dropWhile_eq_drop)

lemma list_insert_nth:
  assumes "j \<le> length xs" and "k \<le> length xs"
  shows "(take j xs @ x # drop j xs) ! k = (if k < j then xs ! k else if k = j then x else xs ! (k - 1))"
  using assms by (auto simp: nth_append nth_Cons')

text \<open>The memory after the insertion at index \<open>j\<close>, in both branches of the code.\<close>

definition insert_mem :: "memory \<Rightarrow> ordered_array \<Rightarrow> nat \<Rightarrow> u32 \<Rightarrow> memory" where
  "insert_mem m a j item =
     (if j = unat (oa_size a) then st32 m (oa_array a + 4 * of_nat j) item
      else oa_shift (st32 m (oa_array a + 4 * of_nat j) item) (oa_array a) (oa_size a)
             (oa_elem m (oa_array a) j) (of_nat j))"

lemma insert_mem_elem:
  assumes "oa_fits a" and j: "j \<le> unat (oa_size a)" and k: "k \<le> unat (oa_size a)"
  shows "oa_elem (insert_mem m a j item) (oa_array a) k
    = (take j (oa_list m a) @ item # drop j (oa_list m a)) ! k"
proof -
  let ?n = "unat (oa_size a)" and ?b = "oa_array a"
  let ?m0 = "st32 m (?b + 4 * of_nat j) item"
  have n: "?n < 1073741823" using assms(1) by (simp add: oa_fits_def)
  have upd: "oa_elem ?m0 ?b i = (if j = i then item else oa_elem m ?b i)"
    if "i < 1073741824" for i
    using that j n by (intro oa_elem_st32) simp_all
  show ?thesis
  proof (cases "j = ?n")
    case True
    then show ?thesis using k n upd [of k] by (auto simp: insert_mem_def nth_append nth_oa_list)
  next
    case False
    then have "oa_elem (insert_mem m a j item) ?b k = (if j < k \<and> k \<le> ?n
        then if k = Suc j then oa_elem m ?b j else oa_elem ?m0 ?b (k - 1) else oa_elem ?m0 ?b k)"
      using oa_shift_elem [of ?n j k ?m0 ?b "oa_elem m ?b j"] j k n by (simp add: insert_mem_def)
    then show ?thesis
      using upd [of k] upd [of "k - 1"] j k n False by (auto simp: list_insert_nth nth_oa_list)
  qed
qed

lemma insert_mem_outside:
  assumes "oa_fits a" and "j \<le> unat (oa_size a)"
    and "\<not> in_region (oa_array a) (4 * Suc (unat (oa_size a))) x"
  shows "insert_mem m a j item x = m x"
proof -
  let ?n = "unat (oa_size a)" and ?b = "oa_array a"
  have n: "?n < 1073741823" using assms(1) by (simp add: oa_fits_def)
  have "st32 m (?b + 4 * of_nat j) item x = m x"
    by (rule st32_elem_outside [of _ "Suc ?n"]) (use assms n in simp_all)
  then show ?thesis
    using oa_shift_outside [of ?n j ?b x] assms n by (auto simp: insert_mem_def)
qed

lemma insert_mem_list:
  assumes "oa_fits a" and "j \<le> unat (oa_size a)"
  shows "oa_list (insert_mem m a j item) (a\<lparr>oa_size := oa_size a + 1\<rparr>)
    = take j (oa_list m a) @ item # drop j (oa_list m a)"
proof -
  have size: "unat (oa_size a + 1) = Suc (unat (oa_size a))"
    using assms(1) by (simp add: oa_fits_def unat_word_ariths)
  show ?thesis
    using insert_mem_elem [OF assms] assms(2)
    by (intro nth_equalityI) (simp_all add: nth_oa_list size less_Suc_eq_le)
qed

lemma insert_ordered_array_eq:
  assumes lt: "oa_less_than a = Some lt" and fits: "oa_fits a"
  shows "insert_ordered_array item a s = Inr (a\<lparr>oa_size := oa_size a + 1\<rparr>, s\<lparr>mem :=
    insert_mem (mem s) a (length (takeWhile (\<lambda>x. lt (mem s) x item \<noteq> 0) (oa_list (mem s) a))) item\<rparr>)"
proof -
  let ?n = "unat (oa_size a)"
  define j where "j = length (takeWhile (\<lambda>x. lt (mem s) x item \<noteq> 0) (oa_list (mem s) a))"
  have n: "?n < 1073741823" using fits by (simp add: oa_fits_def)
  have j: "j \<le> ?n"
    using length_takeWhile_le [of "\<lambda>x. lt (mem s) x item \<noteq> 0" "oa_list (mem s) a"] by (simp add: j_def)
  have scan: "oa_scan (mem s) lt (oa_array a) (oa_size a) item 0 = of_nat j"
    unfolding j_def by (rule scan_list_eq) (rule oa_scan.simps)
  have last: "of_nat j = oa_size a \<longleftrightarrow> j = ?n"
  proof
    assume "of_nat j = oa_size a"
    then have "unat (of_nat j :: u32) = ?n" by simp
    then show "j = ?n" using j n by (simp add: unat_of_nat_small)
  qed simp
  show ?thesis
    by (simp add: insert_ordered_array_def lt scan last insert_mem_def Let_def oa_elem_def
        flip: j_def)
qed

lemma insert_ordered_array_spec:
  assumes lt: "oa_less_than a = Some lt" and fits: "oa_fits a"
  shows "\<exists>m. insert_ordered_array item a s = Inr (a\<lparr>oa_size := oa_size a + 1\<rparr>, s\<lparr>mem := m\<rparr>) \<and>
    oa_list m (a\<lparr>oa_size := oa_size a + 1\<rparr>)
      = takeWhile (\<lambda>x. lt (mem s) x item \<noteq> 0) (oa_list (mem s) a) @ item
        # dropWhile (\<lambda>x. lt (mem s) x item \<noteq> 0) (oa_list (mem s) a) \<and>
    (\<forall>x. \<not> in_region (oa_array a) (4 * Suc (unat (oa_size a))) x \<longrightarrow> m x = mem s x)"
proof -
  let ?P = "\<lambda>x. lt (mem s) x item \<noteq> 0" and ?xs = "oa_list (mem s) a"
  have j: "length (takeWhile ?P ?xs) \<le> unat (oa_size a)"
    using length_takeWhile_le [of ?P ?xs] by simp
  note split = takeWhile_split_nth [of _ ?P ?xs, OF refl, symmetric]
  show ?thesis
    using insert_ordered_array_eq [OF assms, of item s] insert_mem_list [OF fits j, of "mem s" item]
      insert_mem_outside [OF fits j] unfolding split by blast
qed

lemma remove_ordered_array_spec:
  assumes "oa_fits a" and "unat i < unat (oa_size a)" and "remove_ordered_array i a s = (a', s')"
  shows "oa_list (mem s') a' = take (unat i) (oa_list (mem s) a) @ drop (Suc (unat i)) (oa_list (mem s) a)
      @ replicate 2 (oa_elem (mem s) (oa_array a) (unat (oa_size a)))"
    and "a' = a\<lparr>oa_size := oa_size a + 1\<rparr>"
    and "s' = s\<lparr>mem := mem s'\<rparr>"
    and "\<not> in_region (oa_array a) (4 * unat (oa_size a)) x \<Longrightarrow> mem s' x = mem s x"
proof -
  let ?n = "unat (oa_size a)" and ?b = "oa_array a" and ?xs = "oa_list (mem s) a"
  have n: "?n < 1073741823" using assms(1) by (simp add: oa_fits_def)
  have size: "unat (oa_size a + 1) = Suc ?n" using n by (simp add: unat_word_ariths)
  have m: "mem s' = oa_close (mem s) ?b (oa_size a) i" and a': "a' = a\<lparr>oa_size := oa_size a + 1\<rparr>"
    and s': "s' = s\<lparr>mem := mem s'\<rparr>"
    using assms(3) by (auto simp: remove_ordered_array_def)
  show "a' = a\<lparr>oa_size := oa_size a + 1\<rparr>" by (rule a')
  show "s' = s\<lparr>mem := mem s'\<rparr>" by (rule s')
  have elem: "oa_elem (mem s') ?b k =
      (if unat i \<le> k \<and> k < ?n then oa_elem (mem s) ?b (Suc k) else oa_elem (mem s) ?b k)"
    if "k \<le> ?n" for k
    using oa_close_elem [of ?n "unat i" k "mem s" ?b] assms(2) n that by (simp add: m)
  show "oa_list (mem s') a' = take (unat i) ?xs @ drop (Suc (unat i)) ?xs
      @ replicate 2 (oa_elem (mem s) ?b ?n)" (is "?l = ?r")
  proof (rule nth_equalityI)
    show "length ?l = length ?r" using assms(2) by (simp add: a' size)
  next
    fix k assume "k < length ?l"
    then have k: "k \<le> ?n" by (simp add: a' size)
    have "?l ! k = oa_elem (mem s') ?b k" using k by (simp add: nth_oa_list a' size)
    have "Suc k = ?n" if "k < ?n" "\<not> k < unat i" "\<not> k - unat i < ?n - Suc (unat i)"
      using that assms(2) by linarith
    then show "?l ! k = ?r ! k"
      using \<open>?l ! k = _\<close> elem [OF k] assms(2) k
      by (auto simp: nth_append nth_oa_list nth_replicate less_Suc_eq_le min_def)
  qed
  show "mem s' x = mem s x" if "\<not> in_region ?b (4 * ?n) x"
    using oa_close_outside [of ?n "unat i" ?b x "mem s"] n assms(2) that by (simp add: m)
qed

lemma lookup_ordered_array_eq:
  "lookup_ordered_array i a s =
    (if i < oa_size a then Inr (oa_list (mem s) a ! unat i)
     else panic_assert (bytes ''sys/ordered_array.c'') 80 (bytes ''i < array->size'') s)"
  by (auto simp: lookup_ordered_array_def ASSERT_def panic_assert_def nth_oa_list oa_elem_def
      word_less_nat_alt)

section \<open>Orders by a key\<close>

text \<open>A comparison that compares keys: insertion before the first element that is not smaller
  keeps the keys sorted.\<close>

locale key_order =
  fixes lt :: "'a \<Rightarrow> 'a \<Rightarrow> bool" and key :: "'a \<Rightarrow> 'k :: linorder"
  assumes lt_key: "lt x y \<longleftrightarrow> key x < key y"
begin

lemma insert_sorted:
  assumes "sorted (map key xs)"
  shows "sorted (map key (takeWhile (\<lambda>x. lt x item) xs @ item # dropWhile (\<lambda>x. lt x item) xs))"
  using assms
proof (induction xs)
  case (Cons x xs)
  then show ?case by (auto simp: lt_key dest!: set_takeWhileD set_dropWhileD)
qed simp

lemma insert_mset:
  "mset (takeWhile (\<lambda>x. lt x item) xs @ item # dropWhile (\<lambda>x. lt x item) xs) = add_mset item (mset xs)"
  by (simp flip: union_code mset_append)

end

interpretation addresses: key_order "\<lambda>a b. standard_lessthan_predicate m a b \<noteq> 0" "\<lambda>a. a" for m
  by unfold_locales (simp add: standard_lessthan_predicate_def)

section \<open>Properties\<close>

text \<open>
  C14. Inserting into an ordered array that is not full, with any predicate that compares keys (the standard one, or the sizes of holes that the
  heap uses), keeps it sorted by the keys, adds exactly the item, and writes only the words of the array's own storage of
  \<open>max_size\<close> words. The code does not check that there is room.
\<close>
theorem insert_keeps_sorted:
  assumes "oa_less_than a = Some lt" and ord: "key_order (\<lambda>x y. lt (mem s) x y \<noteq> 0) key"
    and room: "unat (oa_size a) < unat (oa_max_size a)" "unat (oa_array a) + 4 * unat (oa_max_size a) < 4294967296"
    and sorted: "sorted (map key (oa_list (mem s) a))"
  shows "\<exists>a' s'. insert_ordered_array item a s = Inr (a', s') \<and>
    sorted (map key (oa_list (mem s') a')) \<and> mset (oa_list (mem s') a') = add_mset item (mset (oa_list (mem s) a)) \<and>
    a' = a\<lparr>oa_size := oa_size a + 1\<rparr> \<and> s' = s\<lparr>mem := mem s'\<rparr> \<and>
    (\<forall>x. unat (oa_array a) \<le> unat x \<and> unat x < unat (oa_array a) + 4 * unat (oa_max_size a) \<or> mem s' x = mem s x)"
proof -
  have fits: "oa_fits a" using room by (simp add: oa_fits_def)
  obtain m where m: "insert_ordered_array item a s = Inr (a\<lparr>oa_size := oa_size a + 1\<rparr>, s\<lparr>mem := m\<rparr>)"
    and l: "oa_list m (a\<lparr>oa_size := oa_size a + 1\<rparr>)
      = takeWhile (\<lambda>x. lt (mem s) x item \<noteq> 0) (oa_list (mem s) a) @ item
        # dropWhile (\<lambda>x. lt (mem s) x item \<noteq> 0) (oa_list (mem s) a)"
    and same: "\<forall>x. \<not> in_region (oa_array a) (4 * Suc (unat (oa_size a))) x \<longrightarrow> m x = mem s x"
    using insert_ordered_array_spec [OF assms(1) fits, of item s] by blast
  have "unat (oa_array a) \<le> unat x \<and> unat x < unat (oa_array a) + 4 * unat (oa_max_size a)"
    if "in_region (oa_array a) (4 * Suc (unat (oa_size a))) x" for x
    using that room in_region_interval [of "oa_array a" "4 * Suc (unat (oa_size a))" x] by auto
  then have "\<forall>x. unat (oa_array a) \<le> unat x \<and> unat x < unat (oa_array a) + 4 * unat (oa_max_size a) \<or> m x = mem s x"
    using same by blast
  then show ?thesis
    using m key_order.insert_sorted [OF ord sorted, of item] key_order.insert_mset [OF ord, of item "oa_list (mem s) a"]
    by (intro exI [of _ "a\<lparr>oa_size := oa_size a + 1\<rparr>"] exI [of _ "s\<lparr>mem := m\<rparr>"]) (simp add: l)
qed

text \<open>An array that is full gets its last element stored in the word behind its storage.\<close>

lemma insert_overruns_full_array:
  assumes "oa_less_than a = Some lt" and "oa_fits a" and "oa_size a = oa_max_size a"
    and "\<forall>x \<in> set (oa_list (mem s) a). lt (mem s) x item \<noteq> 0"
  shows "\<exists>s'. insert_ordered_array item a s = Inr (a\<lparr>oa_size := oa_size a + 1\<rparr>, s')
    \<and> oa_elem (mem s') (oa_array a) (unat (oa_max_size a)) = item"
proof -
  let ?a = "a\<lparr>oa_size := oa_size a + 1\<rparr>"
  have n: "unat (oa_size ?a) = Suc (unat (oa_max_size a))" using assms(2,3) by (simp add: oa_fits_def unat_word_ariths)
  obtain m where m: "insert_ordered_array item a s = Inr (?a, s\<lparr>mem := m\<rparr>)"
    and "oa_list m ?a = oa_list (mem s) a @ [item]"
    using insert_ordered_array_spec [OF assms(1,2), of item s] assms(4)
    by (auto simp: takeWhile_eq_all_conv [THEN iffD2] dropWhile_eq_Nil_conv [THEN iffD2])
  then have "oa_list m ?a ! unat (oa_max_size a) = item" using assms(3) by (simp add: nth_append)
  then show ?thesis using m n nth_oa_list [of "unat (oa_max_size a)" ?a m] by (intro exI [of _ "s\<lparr>mem := m\<rparr>"]) simp
qed

definition array0 :: ordered_array where
  "array0 = \<lparr>oa_array = 0x1000, oa_size = 2, oa_max_size = 8,
     oa_less_than = Some standard_lessthan_predicate\<rparr>"

definition array_state0 :: monitor where
  "array_state0 = monitor0\<lparr>mem := (\<lambda>_. 0)(0x1000 := 3, 0x1004 := 9)\<rparr>"

lemma replicate_two: "replicate 2 x = [x, x]"
  by (simp add: numeral_2_eq_2)

lemma array0_simps:
  "oa_list (mem array_state0) array0 = [3, 9]" "oa_fits array0"
  "oa_less_than array0 = Some standard_lessthan_predicate" "oa_size array0 = 2"
  "oa_elem (mem array_state0) (oa_array array0) 2 = 0"
  by (simp_all add: array0_def array_state0_def oa_list_def oa_elem_def ld32_def oa_fits_def
      upt_rec [of _ "2"])

theorem insert_keeps_sorted_witness:
  "\<exists>a' s'. insert_ordered_array 5 array0 array_state0 = Inr (a', s') \<and>
    sorted (oa_list (mem s') a') \<and> mset (oa_list (mem s') a') = {#3, 5, 9#}"
proof -
  have "key_order (\<lambda>x y. standard_lessthan_predicate (mem array_state0) x y \<noteq> 0) (\<lambda>x. x)"
    by (rule addresses.key_order_axioms)
  moreover have "unat (oa_size array0) < unat (oa_max_size array0)" "unat (oa_array array0) + 4 * unat (oa_max_size array0) < 4294967296"
    by (simp_all add: array0_def)
  ultimately show ?thesis
    using insert_keeps_sorted [OF array0_simps(3), of array_state0 "\<lambda>x. x" 5] by (auto simp: array0_simps)
qed

text \<open>
  \<open>remove_ordered_array\<close> closes the gap, but its \<open>size\<close> grows by one instead of shrinking: the
  element after the old end appears twice at the end of the array.
\<close>
theorem remove_grows_array:
  assumes "oa_fits a" and "i < oa_size a" and "remove_ordered_array i a s = (a', s')"
  shows "oa_list (mem s') a' = take (unat i) (oa_list (mem s) a) @ drop (Suc (unat i)) (oa_list (mem s) a)
      @ replicate 2 (oa_elem (mem s) (oa_array a) (unat (oa_size a)))
    \<and> length (oa_list (mem s') a') = Suc (length (oa_list (mem s) a))"
  using remove_ordered_array_spec(1) [OF assms(1) _ assms(3)] assms(2)
  by (simp add: word_less_nat_alt)

theorem remove_grows_array_witness:
  "oa_list (mem (snd (remove_ordered_array 0 array0 array_state0))) (fst (remove_ordered_array 0 array0 array_state0))
     = [9, 0, 0]"
  using remove_grows_array [of array0 0 array_state0]
  by (simp add: array0_simps replicate_two)

end
