(* ===== verification/Frames.thy ===== *)
theory Frames
  imports Descriptor_Tables Ordered_Array
begin

text \<open>
  Physical frames and page table entries, the first part of sys/paging.c: the bitset of used
  frames, \<open>first_frame\<close>, \<open>alloc_frame\<close>, \<open>free_frame\<close> and \<open>get_page\<close>. The bitset, the page
  directories and the page tables are in the raw memory. A \<^verbatim>\<open>page_t *\<close> is the address of a
  32-bit entry: bit 0 present, bit 1 rw, bit 2 user, bit 3 accessed, bit 4 dirty, bits 12 to 31
  the frame. A \<^verbatim>\<open>page_directory_t\<close> is 1024 table pointers, 1024 physical table entries (offset
  4096) and \<^verbatim>\<open>physicalAddr\<close> (offset 8192).

  The record also holds the other globals of sys/paging.c and sys/kheap.c, since the two files
  call each other. \<open>heaps\<close> are the \<^verbatim>\<open>heap_t\<close> structures by address; \<open>pmem\<close> is the physical
  memory that \<^verbatim>\<open>copy_page_physical\<close> works on with paging turned off.
  The locale \<open>frame_bitmap\<close> is the interface of the bitset.
\<close>

section \<open>State\<close>

record heap =
  hp_index :: ordered_array
  hp_start_address :: u32
  hp_end_address :: u32
  hp_max_address :: u32
  hp_supervisor :: u8
  hp_readonly :: u8

record vm = dtables +
  placement_address :: u32
  kheap :: u32
  heaps :: "u32 \<Rightarrow> heap"
  kernel_directory :: u32
  current_directory :: u32
  frames :: u32
  nframes :: u32
  pmem :: memory

section \<open>The bitset of frames\<close>

definition INDEX_FROM_BIT :: "u32 \<Rightarrow> u32" where
  "INDEX_FROM_BIT a = a div (8 * 4)"

definition OFFSET_FROM_BIT :: "u32 \<Rightarrow> nat" where
  "OFFSET_FROM_BIT a = unat (a mod (8 * 4))"

definition frames_word :: "'a vm_scheme \<Rightarrow> u32 \<Rightarrow> u32" where
  "frames_word s idx = ld32 (mem s) (frames s + 4 * idx)"

definition set_frame :: "u32 \<Rightarrow> 'a vm_scheme \<Rightarrow> 'a vm_scheme" where
  "set_frame frame_addr s =
     (let frame = frame_addr div 0x1000;
          idx = INDEX_FROM_BIT frame;
          off = OFFSET_FROM_BIT frame
      in s\<lparr>mem := st32 (mem s) (frames s + 4 * idx) (frames_word s idx OR push_bit off 1)\<rparr>)"

definition clear_frame :: "u32 \<Rightarrow> 'a vm_scheme \<Rightarrow> 'a vm_scheme" where
  "clear_frame frame_addr s =
     (let frame = frame_addr div 0x1000;
          idx = INDEX_FROM_BIT frame;
          off = OFFSET_FROM_BIT frame
      in s\<lparr>mem := st32 (mem s) (frames s + 4 * idx) (frames_word s idx AND NOT (push_bit off 1))\<rparr>)"

definition test_frame :: "u32 \<Rightarrow> 'a vm_scheme \<Rightarrow> u32" where
  "test_frame frame_addr s =
     (let frame = frame_addr div 0x1000;
          idx = INDEX_FROM_BIT frame;
          off = OFFSET_FROM_BIT frame
      in frames_word s idx AND push_bit off 1)"

text \<open>
  \<open>first_frame\<close>: the inner loop over the bits of a word, the outer loop over the words. The
  function falls off its end when no bit is free; that is \<open>None\<close>.
\<close>

function first_zero :: "u32 \<Rightarrow> nat \<Rightarrow> nat option" where
  "first_zero w j =
     (if j < 32 then if w AND push_bit j 1 = 0 then Some j else first_zero w (j + 1) else None)"
  by pat_completeness auto
termination
  by (relation "measure (\<lambda>(w, j). 32 - j)") auto

function first_frame_from :: "'a vm_scheme \<Rightarrow> u32 \<Rightarrow> u32 option" where
  "first_frame_from s i =
     (if i < INDEX_FROM_BIT (nframes s) then
        if frames_word s i \<noteq> 0xFFFFFFFF then
          case first_zero (frames_word s i) 0 of
            Some j \<Rightarrow> Some (i * 4 * 8 + of_nat j)
          | None \<Rightarrow> first_frame_from s (i + 1)
        else first_frame_from s (i + 1)
      else None)"
  by pat_completeness auto
termination
  by (relation "measure (\<lambda>(s, i). unat (INDEX_FROM_BIT (nframes s)) - unat i)") auto

declare first_zero.simps [simp del] first_frame_from.simps [simp del]

definition first_frame :: "'a vm_scheme \<Rightarrow> u32 option" where
  "first_frame s = first_frame_from s 0"

section \<open>Page table entries\<close>

definition page_frame :: "u32 \<Rightarrow> u32" where
  "page_frame e = drop_bit 12 e"

definition set_page_frame :: "u32 \<Rightarrow> u32 \<Rightarrow> u32" where
  "set_page_frame f e = (e AND 0xFFF) OR push_bit 12 f"

definition set_page_bit :: "nat \<Rightarrow> bool \<Rightarrow> u32 \<Rightarrow> u32" where
  "set_page_bit n b e = (if b then e OR push_bit n 1 else e AND NOT (push_bit n 1))"

definition alloc_frame ::
  "u32 \<Rightarrow> u32 \<Rightarrow> u32 \<Rightarrow> 'a vm_scheme \<Rightarrow> ('a vm_scheme, 'a vm_scheme) result" where
  "alloc_frame page is_kernel is_writeable s =
     (if page_frame (ld32 (mem s) page) \<noteq> 0 then Inr s
      else case first_frame s of
        None \<Rightarrow> Inl (Undefined ''first_frame'')
      | Some idx \<Rightarrow>
          (let s = set_frame (idx * 0x1000) s;
               e = ld32 (mem s) page;
               e = set_page_bit 0 True e;
               e = set_page_bit 1 (is_writeable \<noteq> 0) e;
               e = set_page_bit 2 (is_kernel = 0) e;
               e = set_page_frame idx e
           in Inr (s\<lparr>mem := st32 (mem s) page e\<rparr>)))"

definition free_frame :: "u32 \<Rightarrow> 'a vm_scheme \<Rightarrow> 'a vm_scheme" where
  "free_frame page s =
     (let frame = page_frame (ld32 (mem s) page) in
      if frame = 0 then s
      else (let s = clear_frame frame s
            in s\<lparr>mem := st32 (mem s) page (set_page_frame 0 (ld32 (mem s) page))\<rparr>))"

section \<open>Page directories\<close>

definition dir_table :: "u32 \<Rightarrow> u32 \<Rightarrow> u32" where
  "dir_table dir i = dir + 4 * i"

definition dir_tablePhysical :: "u32 \<Rightarrow> u32 \<Rightarrow> u32" where
  "dir_tablePhysical dir i = dir + 4096 + 4 * i"

definition dir_physicalAddr :: "u32 \<Rightarrow> u32" where
  "dir_physicalAddr dir = dir + 8192"

definition sizeof_page_directory :: u32 where "sizeof_page_directory = 8196"
definition sizeof_page_table :: u32 where "sizeof_page_table = 4096"

text \<open>
  \<open>kmalloc_ap\<close> is the page-aligned allocator of sys/kheap.c, which gives the address and the
  physical address of the block; it calls back into \<open>get_page\<close>, so it is an argument here.
\<close>

type_synonym 's page_allocator = "u32 \<Rightarrow> 's \<Rightarrow> ('s, (u32 \<times> u32) \<times> 's) result"

definition get_page ::
  "'a vm_scheme page_allocator \<Rightarrow> u32 \<Rightarrow> u32 \<Rightarrow> u32 \<Rightarrow> 'a vm_scheme
   \<Rightarrow> ('a vm_scheme, u32 \<times> 'a vm_scheme) result" where
  "get_page kmalloc_ap address mk dir s =
     (let address = address div 0x1000;
          table_idx = address div 1024
      in if ld32 (mem s) (dir_table dir table_idx) \<noteq> 0
         then Inr (ld32 (mem s) (dir_table dir table_idx) + 4 * (address mod 1024), s)
         else if mk \<noteq> 0 then
           bind_res (kmalloc_ap sizeof_page_table s) (\<lambda>((table, tmp), s).
             let s = s\<lparr>mem := st32 (mem s) (dir_table dir table_idx) table\<rparr>;
                 s = s\<lparr>mem := memset (mem s) (ld32 (mem s) (dir_table dir table_idx)) 0 0x1000\<rparr>;
                 s = s\<lparr>mem := st32 (mem s) (dir_tablePhysical dir table_idx) (tmp OR 0x7)\<rparr>
             in Inr (ld32 (mem s) (dir_table dir table_idx) + 4 * (address mod 1024), s))
         else Inr (0, s))"

section \<open>The bitset as a set of frame numbers\<close>

definition frame_words :: "'a vm_scheme \<Rightarrow> nat" where
  "frame_words s = unat (INDEX_FROM_BIT (nframes s))"

definition frame_count :: "'a vm_scheme \<Rightarrow> nat" where
  "frame_count s = 32 * frame_words s"

definition frame_used :: "'a vm_scheme \<Rightarrow> nat \<Rightarrow> bool" where
  "frame_used s k \<longleftrightarrow> bit (frames_word s (of_nat (k div 32))) (k mod 32)"

text \<open>At most \<open>2 ^ 20\<close> frames of 4096 bytes fit into 32-bit physical addresses.\<close>

definition frames_ok :: "'a vm_scheme \<Rightarrow> bool" where
  "frames_ok s \<longleftrightarrow> frame_words s \<le> 32768"

lemma frame_number:
  assumes "k < 1048576"
  shows "(of_nat k * 0x1000 :: u32) div 0x1000 = of_nat k"
proof -
  have "unat (of_nat k * 0x1000 :: u32) = k * 0x1000"
    using assms by (simp add: unat_word_ariths unat_of_nat_small)
  then show ?thesis
    using assms by (intro word_unat_eq_iff [THEN iffD2]) (simp add: unat_div_distrib unat_of_nat_small)
qed

lemma frame_index:
  assumes "k < 1048576"
  shows "INDEX_FROM_BIT (of_nat k) = of_nat (k div 32)" and "OFFSET_FROM_BIT (of_nat k) = k mod 32"
  using assms
  by (simp_all add: INDEX_FROM_BIT_def OFFSET_FROM_BIT_def word_unat_eq_iff unat_div_distrib
      unat_mod_distrib unat_of_nat_small)

lemma frames_word_st32:
  assumes "i < 32768" and "j < 32768"
  shows "frames_word (s\<lparr>mem := st32 (mem s) (frames s + 4 * of_nat i) v\<rparr>) (of_nat j)
    = (if i = j then v else frames_word s (of_nat j))"
  using assms ld32_st32_index [of i j "mem s" "frames s" v] by (auto simp: frames_word_def)

lemma div_mod_32_eq: "j div 32 = k div 32 \<Longrightarrow> j mod 32 = k mod 32 \<Longrightarrow> j = (k::nat)"
  by (metis div_mult_mod_eq)

lemma frame_used_set:
  assumes "k < 1048576" and "j < 1048576"
  shows "frame_used (set_frame (of_nat k * 0x1000) s) j \<longleftrightarrow> j = k \<or> frame_used s j"
proof -
  have "k div 32 < 32768" and "j div 32 < 32768" using assms by simp_all
  then show ?thesis
    using assms div_mod_32_eq [of j k] mod_less_divisor [of 32 j]
    by (auto simp: frame_used_def set_frame_def Let_def frame_number frame_index frames_word_st32
        bit_simps simp del: mod_less_divisor)
qed

lemma frame_used_clear:
  assumes "k < 1048576" and "j < 1048576"
  shows "frame_used (clear_frame (of_nat k * 0x1000) s) j \<longleftrightarrow> j \<noteq> k \<and> frame_used s j"
proof -
  have "k div 32 < 32768" and "j div 32 < 32768" using assms by simp_all
  then show ?thesis
    using assms div_mod_32_eq [of j k]
    by (auto simp: frame_used_def clear_frame_def Let_def frame_number frame_index frames_word_st32
        bit_simps)
qed

lemma and_bit_zero_iff: "(w :: u32) AND 2 ^ j = 0 \<longleftrightarrow> \<not> bit w j"
  by (rule and_exp_eq_0_iff_not_bit)

lemma test_frame_used:
  assumes "k < 1048576"
  shows "test_frame (of_nat k * 0x1000) s \<noteq> 0 \<longleftrightarrow> frame_used s k"
  using assms
  by (simp add: test_frame_def frame_used_def Let_def frame_number frame_index and_bit_zero_iff)

lemma first_zero_find: "first_zero w j = find (\<lambda>i. \<not> bit w i) [j..<32]"
proof (induction w j rule: first_zero.induct)
  case (1 w j)
  show ?case
  proof (cases "j < 32")
    case True
    then show ?thesis
      using 1 by (subst first_zero.simps) (simp add: and_bit_zero_iff upt_conv_Cons)
  qed (simp add: first_zero.simps)
qed

lemma find_append:
  "find P (xs @ ys) = (case find P xs of None \<Rightarrow> find P ys | Some x \<Rightarrow> Some x)"
  by (induction xs) auto

lemma find_offset: "find P [a..<a + n] = map_option ((+) a) (find (\<lambda>i. P (a + i)) [0..<n])"
  by (induction n) (auto simp: find_append split: option.splits)

lemma find_all_bits: "find (\<lambda>i. \<not> bit (0xFFFFFFFF :: u32) i) [0..<32] = None"
  by code_simp

lemma first_frame_from_find:
  assumes "frames_ok s" and "i \<le> frame_words s"
  shows "first_frame_from s (of_nat i)
    = map_option of_nat (find (\<lambda>k. \<not> frame_used s k) [32 * i..<frame_count s])"
  using assms(2)
proof (induction "frame_words s - i" arbitrary: i)
  case 0
  then have "\<not> (of_nat i :: u32) < INDEX_FROM_BIT (nframes s)"
    by (simp add: frame_words_def)
  then show ?case using 0 by (subst first_frame_from.simps) (simp add: frame_count_def)
next
  case (Suc d)
  then have i: "i < frame_words s" by simp
  then have less: "(of_nat i :: u32) < INDEX_FROM_BIT (nframes s)"
    using assms(1) by (simp add: word_less_nat_alt unat_of_nat_small frame_words_def frames_ok_def)
  let ?w = "frames_word s (of_nat i)" and ?P = "\<lambda>k. \<not> frame_used s k"
  have "first_frame_from s (of_nat (Suc i)) = map_option of_nat (find ?P [32 * Suc i..<frame_count s])"
    using Suc i by (intro Suc.hyps(1)) simp_all
  then have IH: "first_frame_from s (of_nat i + 1) = map_option of_nat (find ?P [32 * Suc i..<frame_count s])"
    by (simp add: add.commute)
  have word: "find ?P [32 * i..<32 * i + 32] = map_option ((+) (32 * i)) (find (\<lambda>j. \<not> bit ?w j) [0..<32])"
    unfolding find_offset by (rule arg_cong [of _ _ "map_option _"], rule find_cong) (auto simp: frame_used_def)
  have "[32 * i..<frame_count s] = [32 * i..<32 * i + 32] @ [32 * Suc i..<frame_count s]"
    using i upt_add_eq_append [of "32 * i" "32 * i + 32" "frame_count s - (32 * i + 32)"]
    by (simp add: frame_count_def add.commute)
  then show ?case
    using less IH word find_all_bits
    by (subst first_frame_from.simps)
       (auto simp: first_zero_find find_append split: option.splits)
qed

lemma first_frame_find:
  "frames_ok s \<Longrightarrow> first_frame s = map_option of_nat (find (\<lambda>k. \<not> frame_used s k) [0..<frame_count s])"
  using first_frame_from_find [of s 0] by (simp add: first_frame_def)

section \<open>The interface of the bitset\<close>

text \<open>
  What \<open>alloc_frame\<close> relies on: \<open>first\<close> gives the least frame that is not in use, and
  \<open>mark\<close> and \<open>unmark\<close> change one frame. \<open>ok\<close> is the condition under which the laws hold,
  and \<open>count\<close> the number of frames managed.
\<close>

locale frame_bitmap =
  fixes used :: "'s \<Rightarrow> nat \<Rightarrow> bool"
    and mark :: "nat \<Rightarrow> 's \<Rightarrow> 's"
    and unmark :: "nat \<Rightarrow> 's \<Rightarrow> 's"
    and first :: "'s \<Rightarrow> nat option"
    and count :: "'s \<Rightarrow> nat"
    and ok :: "'s \<Rightarrow> bool"
  assumes used_mark: "ok s \<Longrightarrow> k < count s \<Longrightarrow> j < count s \<Longrightarrow> used (mark k s) j \<longleftrightarrow> j = k \<or> used s j"
    and used_unmark: "ok s \<Longrightarrow> k < count s \<Longrightarrow> j < count s \<Longrightarrow> used (unmark k s) j \<longleftrightarrow> j \<noteq> k \<and> used s j"
    and first_find: "ok s \<Longrightarrow> first s = find (\<lambda>k. \<not> used s k) [0..<count s]"
    and count_mark: "ok s \<Longrightarrow> count (mark k s) = count s"
    and ok_mark: "ok s \<Longrightarrow> ok (mark k s)"
begin

lemma first_free:
  assumes "ok s" and "first s = Some k"
  shows "k < count s" and "\<not> used s k" and "j < k \<Longrightarrow> used s j"
proof -
  obtain i where i: "i < count s" "\<not> used s ([0..<count s] ! i)" "k = [0..<count s] ! i"
    and least: "\<And>j. j < i \<Longrightarrow> used s ([0..<count s] ! j)"
    using assms by (auto simp: first_find find_Some_iff)
  show "k < count s" and "\<not> used s k" using i by auto
  show "used s j" if "j < k" using that i least [of j] by auto
qed

lemma first_full: "ok s \<Longrightarrow> first s = None \<longleftrightarrow> (\<forall>k < count s. used s k)"
  by (auto simp: first_find find_None_iff)

lemma next_first:
  assumes "ok s" and "first s = Some k" and "first (mark k s) = Some k'"
  shows "k < k'"
proof (rule ccontr)
  assume "\<not> k < k'"
  then have "k' \<le> k" by simp
  moreover have "k' < count s" and "\<not> used (mark k s) k'"
    using first_free [OF ok_mark [OF assms(1)] assms(3)] count_mark [OF assms(1)] by simp_all
  ultimately show False
    using first_free [OF assms(1,2)] used_mark [OF assms(1), of k k'] by auto
qed

lemma mark_unmark:
  assumes "ok s" and "first s = Some k" and "j < count s"
  shows "used (unmark k (mark k s)) j \<longleftrightarrow> used s j"
  using first_free [OF assms(1,2)] assms
  by (auto simp: used_unmark used_mark count_mark ok_mark)

end

definition mark_frame :: "nat \<Rightarrow> 'a vm_scheme \<Rightarrow> 'a vm_scheme" where
  "mark_frame k s = set_frame (of_nat k * 0x1000) s"

definition unmark_frame :: "nat \<Rightarrow> 'a vm_scheme \<Rightarrow> 'a vm_scheme" where
  "unmark_frame k s = clear_frame (of_nat k * 0x1000) s"

lemma set_frame_keeps [simp]:
  "frame_count (set_frame a s) = frame_count s" "frame_words (set_frame a s) = frame_words s"
  "frames (set_frame a s) = frames s" "nframes (set_frame a s) = nframes s"
  by (simp_all add: set_frame_def frame_count_def frame_words_def Let_def)

interpretation bitset: frame_bitmap frame_used mark_frame unmark_frame
  "\<lambda>s. map_option unat (first_frame s)" frame_count frames_ok
proof unfold_locales
  fix s :: "'a vm_scheme"
  assume ok: "frames_ok s"
  then have small: "k < frame_count s \<Longrightarrow> k < 1048576" for k
    by (simp add: frames_ok_def frame_count_def)
  show "map_option unat (first_frame s) = find (\<lambda>k. \<not> frame_used s k) [0..<frame_count s]"
  proof (cases "find (\<lambda>k. \<not> frame_used s k) [0..<frame_count s]")
    case (Some k)
    then have "k < frame_count s" by (auto simp: find_Some_iff)
    then show ?thesis using Some small [of k] by (simp add: first_frame_find [OF ok] unat_of_nat_small)
  qed (simp add: first_frame_find [OF ok])
  show "frame_used (mark_frame k s) j = (j = k \<or> frame_used s j)"
    if "k < frame_count s" "j < frame_count s" for k j
    using small that by (simp add: mark_frame_def frame_used_set)
  show "frame_used (unmark_frame k s) j = (j \<noteq> k \<and> frame_used s j)"
    if "k < frame_count s" "j < frame_count s" for k j
    using small that by (simp add: unmark_frame_def frame_used_clear)
qed (simp_all add: mark_frame_def frames_ok_def)

section \<open>Allocating and freeing the frame of a page\<close>

text \<open>The entry at \<open>page\<close> is not part of the bitset.\<close>

definition page_clear :: "u32 \<Rightarrow> 'a vm_scheme \<Rightarrow> bool" where
  "page_clear page s \<longleftrightarrow> sep (frames s) (4 * frame_words s) page 4"

lemma and_FFF: "x AND 0xFFF = take_bit 12 (x :: u32)"
  by (simp add: take_bit_eq_mask mask_eq_exp_minus_1)

lemma page_frame_set: "page_frame (set_page_frame f e) = take_bit 20 f"
  unfolding page_frame_def set_page_frame_def and_FFF
  by (rule bit_word_eqI) (auto simp: bit_simps)

lemma page_flag_set: "n < 12 \<Longrightarrow> bit (set_page_frame f e) n \<longleftrightarrow> bit e n"
  unfolding set_page_frame_def and_FFF by (auto simp: bit_simps)

lemma page_bit_set: "n < 32 \<Longrightarrow> k < 32 \<Longrightarrow> bit (set_page_bit k b e) n \<longleftrightarrow> (if n = k then b else bit e n)"
  by (auto simp: set_page_bit_def bit_simps)

lemma page_frame_bit: "k < 12 \<Longrightarrow> page_frame (set_page_bit k b e) = page_frame e"
  unfolding page_frame_def
  by (rule bit_word_eqI) (auto simp: set_page_bit_def bit_simps dest: bit_imp_le_length)

lemma frame_used_page:
  assumes "page_clear page s" and "k < frame_count s" and "frames_ok s"
  shows "frame_used (s\<lparr>mem := st32 (mem s) page e\<rparr>) k \<longleftrightarrow> frame_used s k"
proof -
  have i: "k div 32 < frame_words s" and w: "frame_words s \<le> 1073741824"
    using assms(2,3) by (auto simp: frame_count_def frames_ok_def)
  have "oa_elem (st32 (mem s) page e) (frames s) (k div 32) = oa_elem (mem s) (frames s) (k div 32)"
  proof (rule oa_elem_frame [OF _ i w])
    fix x assume "in_region (frames s) (4 * frame_words s) x"
    then have "\<not> in_region page 4 x"
      using assms(1) sep_not_in_region sep_commute unfolding page_clear_def by blast
    then show "st32 (mem s) page e x = mem s x" by (rule st32_outside)
  qed
  then show ?thesis by (simp add: frame_used_def frames_word_def oa_elem_def)
qed

lemma set_frame_outside:
  assumes "k < frame_count s" and "frames_ok s" and "\<not> in_region (frames s) (4 * frame_words s) x"
  shows "mem (set_frame (of_nat k * 0x1000) s) x = mem s x"
proof -
  have "k < 1048576" and "k div 32 < frame_words s" and "frame_words s \<le> 1073741824"
    using assms(1,2) by (auto simp: frame_count_def frames_ok_def)
  then show ?thesis
    using assms(3) by (simp add: set_frame_def Let_def frame_number frame_index st32_elem_outside)
qed

lemma clear_frame_outside:
  assumes "k < frame_count s" and "frames_ok s" and "\<not> in_region (frames s) (4 * frame_words s) x"
  shows "mem (clear_frame (of_nat k * 0x1000) s) x = mem s x"
proof -
  have "k < 1048576" and "k div 32 < frame_words s" and "frame_words s \<le> 1073741824"
    using assms(1,2) by (auto simp: frame_count_def frames_ok_def)
  then show ?thesis
    using assms(3) by (simp add: clear_frame_def Let_def frame_number frame_index st32_elem_outside)
qed

lemma ld32_page_outside:
  assumes "page_clear page s"
    and "\<And>x. \<not> in_region (frames s) (4 * frame_words s) x \<Longrightarrow> m x = mem s x"
  shows "ld32 m page = ld32 (mem s) page"
  using assms sep_not_in_region unfolding page_clear_def by (intro ld32_frame) blast

lemma alloc_frame_taken:
  "page_frame (ld32 (mem s) page) \<noteq> 0 \<Longrightarrow> alloc_frame page ker wr s = Inr s"
  by (simp add: alloc_frame_def)

lemma alloc_frame_full:
  assumes "page_frame (ld32 (mem s) page) = 0" and "frames_ok s" and "\<forall>k < frame_count s. frame_used s k"
  shows "alloc_frame page ker wr s = Inl (Undefined ''first_frame'')"
  using assms bitset.first_full [of s] by (simp add: alloc_frame_def)

lemma alloc_frame_new:
  assumes "page_frame (ld32 (mem s) page) = 0" and ok: "frames_ok s" and clear: "page_clear page s"
    and first: "find (\<lambda>k. \<not> frame_used s k) [0..<frame_count s] = Some k"
  shows "\<exists>t. alloc_frame page ker wr s = Inr t \<and>
    page_frame (ld32 (mem t) page) = of_nat k \<and>
    bit (ld32 (mem t) page) 0 \<and> (bit (ld32 (mem t) page) 1 \<longleftrightarrow> wr \<noteq> 0) \<and>
    (bit (ld32 (mem t) page) 2 \<longleftrightarrow> ker = 0) \<and>
    (\<forall>j < frame_count s. frame_used t j \<longleftrightarrow> j = k \<or> frame_used s j) \<and>
    (\<forall>x. \<not> in_region page 4 x \<longrightarrow> \<not> in_region (frames s) (4 * frame_words s) x \<longrightarrow> mem t x = mem s x) \<and>
    t = s\<lparr>mem := mem t\<rparr>"
proof -
  have k: "k < frame_count s" using first by (auto simp: find_Some_iff)
  then have k20: "k < 1048576" using ok by (simp add: frame_count_def frames_ok_def)
  let ?s = "set_frame (of_nat k * 0x1000) s"
  define e where "e = set_page_frame (of_nat k) (set_page_bit 2 (ker = 0)
    (set_page_bit 1 (wr \<noteq> 0) (set_page_bit 0 True (ld32 (mem ?s) page))))"
  define t where "t = ?s\<lparr>mem := st32 (mem ?s) page e\<rparr>"
  have "alloc_frame page ker wr s = Inr t"
    using assms(1) first by (simp add: alloc_frame_def first_frame_find [OF ok] e_def t_def Let_def)
  moreover have "page_frame e = of_nat k"
    using k20 by (simp add: e_def page_frame_set word_unat_eq_iff
        unsigned_take_bit_eq unat_of_nat_small take_bit_nat_eq_self)
  moreover have "bit e 0" and "bit e 1 \<longleftrightarrow> wr \<noteq> 0" and "bit e 2 \<longleftrightarrow> ker = 0"
    by (simp_all add: e_def page_flag_set page_bit_set)
  moreover have "frame_used t j \<longleftrightarrow> j = k \<or> frame_used s j" if "j < frame_count s" for j
  proof -
    have "page_clear page ?s" and "frames_ok ?s"
      using clear ok by (simp_all add: page_clear_def frames_ok_def)
    then have "frame_used t j \<longleftrightarrow> frame_used ?s j"
      unfolding t_def using that by (intro frame_used_page) simp_all
    then show ?thesis
      using bitset.used_mark [OF ok k that] by (simp add: mark_frame_def)
  qed
  moreover have "mem t x = mem s x"
    if "\<not> in_region page 4 x" "\<not> in_region (frames s) (4 * frame_words s) x" for x
    using that set_frame_outside [OF k ok that(2)] by (simp add: t_def st32_outside)
  moreover have "t = s\<lparr>mem := mem t\<rparr>"
    by (simp add: t_def set_frame_def Let_def)
  ultimately show ?thesis by (intro exI [of _ t]) (simp add: t_def)
qed

lemma clear_frame_keeps [simp]:
  "frame_count (clear_frame a s) = frame_count s" "frame_words (clear_frame a s) = frame_words s"
  "frames (clear_frame a s) = frames s"
  by (simp_all add: clear_frame_def frame_count_def frame_words_def Let_def)

text \<open>
  \<open>free_frame\<close> hands the frame number to \<open>clear_frame\<close>, which expects an address: the bit that
  is cleared is that of the number divided by 4096.
\<close>

lemma free_frame_effect:
  assumes "page_frame (ld32 (mem s) page) = of_nat f" and "0 < f" and "f < 1048576"
    and ok: "frames_ok s" and clear: "page_clear page s" and "f div 4096 < frame_count s"
  shows "page_frame (ld32 (mem (free_frame page s)) page) = 0"
    and "j < frame_count s \<Longrightarrow> frame_used (free_frame page s) j \<longleftrightarrow> j \<noteq> f div 4096 \<and> frame_used s j"
proof -
  let ?s = "clear_frame (of_nat f) s" and ?k = "f div 4096"
  have div: "(of_nat f :: u32) div 0x1000 = (of_nat ?k * 0x1000) div 0x1000"
    using assms(3) frame_number [of ?k]
    by (simp add: word_unat_eq_iff unat_div_distrib unat_of_nat_small)
  then have clr: "?s = clear_frame (of_nat ?k * 0x1000) s"
    by (simp only: clear_frame_def)
  have f: "(of_nat f :: u32) \<noteq> 0"
    using assms(2,3) unat_of_nat_small [of f] by auto
  have free: "free_frame page s = ?s\<lparr>mem := st32 (mem ?s) page (set_page_frame 0 (ld32 (mem ?s) page))\<rparr>"
    using assms(1) f by (simp add: free_frame_def Let_def)
  show "page_frame (ld32 (mem (free_frame page s)) page) = 0"
    by (simp add: free page_frame_set)
  assume j: "j < frame_count s"
  have "page_clear page ?s" and "frames_ok ?s"
    using clear ok by (simp_all add: page_clear_def frames_ok_def)
  then have "frame_used (free_frame page s) j \<longleftrightarrow> frame_used ?s j"
    unfolding free using j by (intro frame_used_page) simp_all
  then show "frame_used (free_frame page s) j \<longleftrightarrow> j \<noteq> ?k \<and> frame_used s j"
    using bitset.used_unmark [OF ok assms(6) j] by (simp add: clr unmark_frame_def)
qed

section \<open>Walking and extending a directory\<close>

lemma get_page_present:
  assumes "ld32 (mem s) (dir_table dir (address div 0x1000 div 1024)) = table" and "table \<noteq> 0"
  shows "get_page km address mk dir s = Inr (table + 4 * (address div 0x1000 mod 1024), s)"
  using assms by (simp add: get_page_def Let_def)

lemma get_page_absent:
  assumes "ld32 (mem s) (dir_table dir (address div 0x1000 div 1024)) = 0"
  shows "get_page km address 0 dir s = Inr (0, s)"
  using assms by (simp add: get_page_def Let_def)

lemma table_index_bound: "unat (a div 0x1000 div 1024 :: u32) < 1024"
proof -
  have "unat (a div 0x1000 div 1024) = unat a div 4194304"
    by (simp add: unat_div_distrib div_mult2_eq [symmetric])
  then show ?thesis using unat_lt_u32 [of a] by (simp add: less_mult_imp_div_less)
qed

lemma dir_entry_region:
  assumes "unat i < 1024" and "in_region (dir_table dir i) 4 x \<or> in_region (dir_tablePhysical dir i) 4 x"
  shows "in_region dir 8196 x"
proof -
  obtain c k where c: "c = 0 \<or> c = 4096" and k: "k < 4" and x: "x = dir + of_nat c + 4 * i + of_nat k"
  proof (cases "in_region (dir_table dir i) 4 x")
    case True
    then show thesis using that [of 0] by (auto simp: dir_table_def elim!: in_regionE)
  next
    case False
    then have "in_region (dir_tablePhysical dir i) 4 x" using assms(2) by simp
    then show thesis using that [of 4096] by (auto simp: dir_tablePhysical_def elim!: in_regionE)
  qed
  then have "x = dir + of_nat (c + 4 * unat i + k)" by (simp add: algebra_simps)
  moreover have "c + 4 * unat i + k < 8196" using c k assms(1) by auto
  ultimately show ?thesis by (simp add: in_region_of_nat del: of_nat_add of_nat_mult)
qed

lemma dir_entries_sep: "sep (dir_table dir i) 4 (dir_tablePhysical dir i) 4"
  by (simp add: sep_def dir_table_def dir_tablePhysical_def)

lemma get_page_create:
  assumes absent: "ld32 (mem s) (dir_table dir (address div 0x1000 div 1024)) = 0" and "mk \<noteq> 0"
    and km: "km 4096 s = Inr ((table, phys), s1)" and away: "sep dir 8196 table 4096"
  shows "\<exists>m. get_page km address mk dir s = Inr (table + 4 * (address div 0x1000 mod 1024), s1\<lparr>mem := m\<rparr>) \<and>
    ld32 m (dir_table dir (address div 0x1000 div 1024)) = table \<and>
    ld32 m (dir_tablePhysical dir (address div 0x1000 div 1024)) = phys OR 0x7 \<and>
    (\<forall>x. in_region table 4096 x \<longrightarrow> m x = 0) \<and>
    (\<forall>x. \<not> in_region table 4096 x \<longrightarrow> \<not> in_region (dir_table dir (address div 0x1000 div 1024)) 4 x \<longrightarrow>
       \<not> in_region (dir_tablePhysical dir (address div 0x1000 div 1024)) 4 x \<longrightarrow> m x = mem s1 x)"
proof -
  define i where "i = address div 0x1000 div 1024"
  define m1 where "m1 = memset (st32 (mem s1) (dir_table dir i) table) table 0 0x1000"
  define m where "m = st32 m1 (dir_tablePhysical dir i) (phys OR 0x7)"
  have i: "unat i < 1024" unfolding i_def by (rule table_index_bound)
  have out: "\<not> in_region (dir_table dir i) 4 x \<and> \<not> in_region (dir_tablePhysical dir i) 4 x"
    if "in_region table 4096 x" for x
    using that dir_entry_region [OF i] sep_not_in_region [OF away] by blast
  have m1: "m1 x = (if in_region table 4096 x then 0 else st32 (mem s1) (dir_table dir i) table x)" for x
    by (simp add: m1_def memset_eq)
  have entry: "ld32 m1 (dir_table dir i) = table"
  proof -
    have "ld32 m1 (dir_table dir i) = ld32 (st32 (mem s1) (dir_table dir i) table) (dir_table dir i)"
      using out by (intro ld32_frame) (auto simp: m1)
    then show ?thesis by simp
  qed
  then have "ld32 m (dir_table dir i) = table"
    using ld32_st32_other [OF dir_entries_sep [of dir i, unfolded sep_commute [of "dir_table dir i"]]]
    by (simp add: m_def)
  moreover from this have "get_page km address mk dir s
      = Inr (table + 4 * (address div 0x1000 mod 1024), s1\<lparr>mem := m\<rparr>)"
    using assms by (simp add: get_page_def Let_def sizeof_page_table_def m_def m1_def flip: i_def)
  moreover have "m x = 0" if "in_region table 4096 x" for x
    using that out [OF that] by (simp add: m_def m1 st32_outside)
  moreover have "m x = mem s1 x" if "\<not> in_region table 4096 x" "\<not> in_region (dir_table dir i) 4 x"
    "\<not> in_region (dir_tablePhysical dir i) 4 x" for x
    using that by (simp add: m_def m1 st32_outside)
  moreover have "ld32 m (dir_tablePhysical dir i) = phys OR 0x7" by (simp add: m_def)
  ultimately show ?thesis unfolding i_def by blast
qed

section \<open>Properties\<close>

text \<open>
  C26. \<open>first_frame\<close> gives the least frame number whose bit is clear, and only fails to return a
  number when every managed frame is in use.
\<close>
theorem first_frame_least_free:
  assumes "frames_ok s"
  shows "case first_frame s of
      Some f \<Rightarrow> unat f < frame_count s \<and> \<not> frame_used s (unat f) \<and> (\<forall>j < unat f. frame_used s j)
    | None \<Rightarrow> \<forall>k < frame_count s. frame_used s k"
proof (cases "first_frame s")
  case None
  then show ?thesis using bitset.first_full [OF assms] by simp
next
  case (Some f)
  then have "map_option unat (first_frame s) = Some (unat f)" by simp
  from bitset.first_free [OF assms this] Some show ?thesis by simp
qed

definition vm0 :: vm where
  "vm0 = dtables.extend dtables0
     \<lparr>placement_address = 0x200000, kheap = 0,
      heaps = (\<lambda>_. \<lparr>hp_index = \<lparr>oa_array = 0, oa_size = 0, oa_max_size = 0, oa_less_than = None\<rparr>,
        hp_start_address = 0, hp_end_address = 0, hp_max_address = 0, hp_supervisor = 0, hp_readonly = 0\<rparr>),
      kernel_directory = 0x3000, current_directory = 0x3000, frames = 0x2000, nframes = 64,
      pmem = (\<lambda>_. 0)\<rparr>"

lemma vm0_simps [simp]:
  "mem vm0 = (\<lambda>_. 0)" "frames vm0 = 0x2000" "nframes vm0 = 64" "kheap vm0 = 0"
  "placement_address vm0 = 0x200000" "kernel_directory vm0 = 0x3000" "cursor_x vm0 = 0" "cursor_y vm0 = 0"
  by (simp_all add: vm0_def dtables.extend_def dtables0_def interrupts.extend_def interrupts0_def
      monitor.extend_def monitor0_def)

lemma ld32_zero_memory [simp]: "ld32 (\<lambda>_. 0) a = 0"
  by (simp add: ld32_def)

lemma vm0_frames:
  "frames_ok (vm0\<lparr>mem := m\<rparr>)" "frame_words (vm0\<lparr>mem := m\<rparr>) = 2" "frame_count (vm0\<lparr>mem := m\<rparr>) = 64"
  "frames_ok vm0" "frame_words vm0 = 2" "frame_count vm0 = 64" "\<not> frame_used vm0 k"
  by (simp_all add: frames_ok_def frame_count_def frame_words_def INDEX_FROM_BIT_def
      frame_used_def frames_word_def)

theorem first_frame_least_free_witness:
  "first_frame vm0 \<noteq> None"
proof
  assume "first_frame vm0 = None"
  then have "\<forall>k < frame_count vm0. frame_used vm0 k"
    using first_frame_least_free [OF vm0_frames(4)] by simp
  then have "frame_used vm0 0" by (simp add: vm0_frames(6))
  then show False by (simp add: vm0_frames(7))
qed

text \<open>
  C5. \<open>alloc_frame\<close> on a page without a frame takes the least free frame: it was unused, now it is
  used, every other frame keeps its state, the entry holds the frame number with present set and
  rw and user as requested, and no memory but the bitset and the entry changes. On a page that has
  a frame it does nothing.
\<close>
theorem alloc_frame_takes_free_frame:
  assumes "frames_ok s" and "page_clear page s"
    and "find (\<lambda>k. \<not> frame_used s k) [0..<frame_count s] = Some k"
  shows "\<exists>t. alloc_frame page ker wr s = Inr t \<and>
    (if page_frame (ld32 (mem s) page) \<noteq> 0 then t = s
     else \<not> frame_used s k \<and> page_frame (ld32 (mem t) page) = of_nat k \<and>
       bit (ld32 (mem t) page) 0 \<and> (bit (ld32 (mem t) page) 1 \<longleftrightarrow> wr \<noteq> 0) \<and>
       (bit (ld32 (mem t) page) 2 \<longleftrightarrow> ker = 0) \<and>
       (\<forall>j < frame_count s. frame_used t j \<longleftrightarrow> j = k \<or> frame_used s j) \<and>
       (\<forall>x. in_region page 4 x \<or> in_region (frames s) (4 * frame_words s) x \<or> mem t x = mem s x) \<and>
       t = s\<lparr>mem := mem t\<rparr>)"
proof (cases "page_frame (ld32 (mem s) page) = 0")
  case True
  have "\<not> frame_used s k" using assms(3) by (auto simp: find_Some_iff)
  then show ?thesis using alloc_frame_new [OF True assms, of ker wr] True by auto
qed (simp add: alloc_frame_taken)

lemma find_upt_first: "n > 0 \<Longrightarrow> P 0 \<Longrightarrow> find P [0..<n] = Some 0"
  by (simp add: upt_conv_Cons)

theorem alloc_frame_takes_free_frame_witness:
  "\<exists>t. alloc_frame 0x5000 0 1 vm0 = Inr t \<and> frame_used t 0 \<and> \<not> frame_used t 1 \<and> bit (ld32 (mem t) 0x5000) 2"
proof -
  have "page_clear 0x5000 vm0" by (simp add: page_clear_def vm0_frames sep_def)
  moreover have "find (\<lambda>k. \<not> frame_used vm0 k) [0..<frame_count vm0] = Some 0"
    by (rule find_upt_first) (simp_all add: vm0_frames)
  ultimately show ?thesis
    using alloc_frame_takes_free_frame [OF vm0_frames(4), of "0x5000" 0 0 1]
    by (auto simp: page_frame_def vm0_frames)
qed

text \<open>
  \<open>free_frame\<close> takes the frame out of the page entry but does not release it: of the bitset it
  clears the bit of the frame number divided by 4096, so that the frame of the page itself stays
  in use.
\<close>
theorem free_frame_leaks:
  assumes "page_frame (ld32 (mem s) page) = of_nat f" and "0 < f" and "f < frame_count s"
    and "frames_ok s" and "page_clear page s" and "j < frame_count s"
  shows "page_frame (ld32 (mem (free_frame page s)) page) = 0
    \<and> (frame_used (free_frame page s) j \<longleftrightarrow> j \<noteq> f div 4096 \<and> frame_used s j)
    \<and> (frame_used (free_frame page s) f \<longleftrightarrow> frame_used s f)"
proof -
  have f: "f < 1048576" using assms(3,4) by (simp add: frame_count_def frames_ok_def)
  have d: "f div 4096 < frame_count s" "f \<noteq> f div 4096"
    using assms(2,3) div_le_dividend [of f 4096] by (linarith, auto)
  show ?thesis
    using free_frame_effect [OF assms(1,2) f assms(4,5) d(1)] assms(3,6) d(2) by blast
qed

theorem free_frame_leaks_witness:
  "page_frame (ld32 (mem (free_frame 0x5000 (vm0\<lparr>mem := st32 (\<lambda>_. 0) 0x5000 0x7007\<rparr>))) 0x5000) = 0"
  using free_frame_leaks [of "vm0\<lparr>mem := st32 (\<lambda>_. 0) 0x5000 0x7007\<rparr>" "0x5000" 7 0]
  by (simp add: page_frame_def vm0_frames page_clear_def sep_def)

text \<open>
  C17. Creating a page table installs it: \<open>get_page\<close> with \<open>make\<close> set returns the entry of the page
  in the new table, the directory holds the table and its physical address with present, rw and
  user set, every entry of the new table is clear, the rest of memory is unchanged, and a second
  lookup finds the same entry without allocating again.
\<close>
theorem get_page_creates_table:
  assumes "ld32 (mem s) (dir_table dir (address div 0x1000 div 1024)) = 0" and "mk \<noteq> 0"
    and "km 4096 s = Inr ((table, phys), s1)" and "sep dir 8196 table 4096" and "table \<noteq> 0"
  shows "\<exists>m. get_page km address mk dir s = Inr (table + 4 * (address div 0x1000 mod 1024), s1\<lparr>mem := m\<rparr>) \<and>
    get_page km' address mk' dir (s1\<lparr>mem := m\<rparr>)
      = Inr (table + 4 * (address div 0x1000 mod 1024), s1\<lparr>mem := m\<rparr>) \<and>
    ld32 m (dir_tablePhysical dir (address div 0x1000 div 1024)) = phys OR 0x7 \<and>
    (\<forall>x. in_region table 4096 x \<longrightarrow> m x = 0) \<and>
    (\<forall>x. in_region table 4096 x \<or> in_region (dir_table dir (address div 0x1000 div 1024)) 4 x \<or>
       in_region (dir_tablePhysical dir (address div 0x1000 div 1024)) 4 x \<or> m x = mem s1 x)"
proof -
  obtain m where m: "get_page km address mk dir s
        = Inr (table + 4 * (address div 0x1000 mod 1024), s1\<lparr>mem := m\<rparr>)"
      "ld32 m (dir_table dir (address div 0x1000 div 1024)) = table"
      "ld32 m (dir_tablePhysical dir (address div 0x1000 div 1024)) = phys OR 0x7"
      "\<forall>x. in_region table 4096 x \<longrightarrow> m x = 0"
      "\<forall>x. \<not> in_region table 4096 x \<longrightarrow> \<not> in_region (dir_table dir (address div 0x1000 div 1024)) 4 x \<longrightarrow>
         \<not> in_region (dir_tablePhysical dir (address div 0x1000 div 1024)) 4 x \<longrightarrow> m x = mem s1 x"
    using get_page_create [of s dir address mk km table phys s1] assms(1-4) by blast
  then have "get_page km' address mk' dir (s1\<lparr>mem := m\<rparr>)
      = Inr (table + 4 * (address div 0x1000 mod 1024), s1\<lparr>mem := m\<rparr>)"
    using assms(5) by (intro get_page_present) simp_all
  then show ?thesis using m by blast
qed

theorem get_page_creates_table_witness:
  "\<exists>m. get_page (\<lambda>_ s. Inr ((0x8000, 0x8000), s)) 0xC0000000 1 0x3000 vm0 = Inr (0x8000, vm0\<lparr>mem := m\<rparr>)
     \<and> ld32 m (dir_tablePhysical 0x3000 768) = 0x8007"
  using get_page_creates_table [of vm0 "0x3000" "0xC0000000" 1 "\<lambda>_ s. Inr ((0x8000, 0x8000), s)"
      "0x8000" "0x8000" vm0 "\<lambda>_ s. Inr ((0, 0), s)" 0]
  by (auto simp: sep_def)

end
