(* ===== verification/Kheap.thy ===== *)
theory Kheap
  imports Frames
begin

text \<open>
  The kernel heap, sys/kheap.c. A \<^verbatim>\<open>header_t *\<close> is the address of 12 bytes (magic at 0, the byte
  is_hole at 4, size at 8), a \<^verbatim>\<open>footer_t *\<close> the address of 8 bytes (magic at 0, header at 4); both
  are read from and written to the raw memory, so that overlapping structures overlap here as
  well. A \<^verbatim>\<open>heap_t *\<close> is an index into \<open>heaps\<close>.

  \<open>kmalloc_int\<close>, \<open>alloc\<close>, \<open>expand\<close> and \<open>get_page\<close> call each other. \<open>expand\<close> and
  \<open>kmalloc_int\<close> take the function they call back as an argument, and \<open>alloc\<close> closes the cycle
  with a bound on the depth of the recursion. The page loops of \<open>expand\<close> and \<open>contract\<close> step
  a 32-bit counter by 4096: after \<open>max_pages\<close> (\<open>2 ^ 20\<close>) steps the counter has taken every value
  it can take, so a loop that has not ended by then never ends.

  The operators keep C's precedence: \<^verbatim>\<open>a & 0xFFFFF000 != 0\<close> is \<^verbatim>\<open>a & (0xFFFFF000 != 0)\<close>, which
  tests the lowest bit of \<^verbatim>\<open>a\<close>.
\<close>

section \<open>Constants and structures\<close>

definition KHEAP_START :: u32 where "KHEAP_START = 0xC0000000"
definition KHEAP_INITIAL_SIZE :: u32 where "KHEAP_INITIAL_SIZE = 0x100000"
definition HEAP_INDEX_SIZE :: u32 where "HEAP_INDEX_SIZE = 0x20000"
definition HEAP_MAGIC :: u32 where "HEAP_MAGIC = 0x123890AB"
definition HEAP_MIN_SIZE :: u32 where "HEAP_MIN_SIZE = 0x70000"

definition sizeof_header :: u32 where "sizeof_header = 12"
definition sizeof_footer :: u32 where "sizeof_footer = 8"
definition sizeof_heap :: u32 where "sizeof_heap = 32"

definition max_pages :: nat where "max_pages = 1048576"

definition h_magic :: "memory \<Rightarrow> u32 \<Rightarrow> u32" where "h_magic m h = ld32 m h"
definition h_is_hole :: "memory \<Rightarrow> u32 \<Rightarrow> u8" where "h_is_hole m h = m (h + 4)"
definition h_size :: "memory \<Rightarrow> u32 \<Rightarrow> u32" where "h_size m h = ld32 m (h + 8)"
definition f_magic :: "memory \<Rightarrow> u32 \<Rightarrow> u32" where "f_magic m f = ld32 m f"
definition f_header :: "memory \<Rightarrow> u32 \<Rightarrow> u32" where "f_header m f = ld32 m (f + 4)"

definition set_h_magic :: "u32 \<Rightarrow> u32 \<Rightarrow> memory \<Rightarrow> memory" where "set_h_magic h v m = st32 m h v"
definition set_h_is_hole :: "u32 \<Rightarrow> u8 \<Rightarrow> memory \<Rightarrow> memory" where "set_h_is_hole h v m = m(h + 4 := v)"
definition set_h_size :: "u32 \<Rightarrow> u32 \<Rightarrow> memory \<Rightarrow> memory" where "set_h_size h v m = st32 m (h + 8) v"
definition set_f_magic :: "u32 \<Rightarrow> u32 \<Rightarrow> memory \<Rightarrow> memory" where "set_f_magic f v m = st32 m f v"
definition set_f_header :: "u32 \<Rightarrow> u32 \<Rightarrow> memory \<Rightarrow> memory" where "set_f_header f v m = st32 m (f + 4) v"

definition header_t_less_than :: lessthan_predicate where
  "header_t_less_than m a b = (if h_size m a < h_size m b then 1 else 0)"

section \<open>Placement and heap allocation\<close>

text \<open>
  \<open>kmalloc_int\<close> with the heap allocator as an argument. \<^verbatim>\<open>phys\<close> is an out parameter: \<open>want_phys\<close>
  says whether it is not null, and its value is the second component of the result
  (0 where the code leaves it alone).
\<close>

type_synonym 's heap_allocator = "u32 \<Rightarrow> u8 \<Rightarrow> u32 \<Rightarrow> 's \<Rightarrow> ('s, u32 \<times> 's) result"

definition kmalloc_int_with ::
  "'a vm_scheme heap_allocator \<Rightarrow> u32 \<Rightarrow> u32 \<Rightarrow> bool \<Rightarrow> 'a vm_scheme
   \<Rightarrow> ('a vm_scheme, (u32 \<times> u32) \<times> 'a vm_scheme) result" where
  "kmalloc_int_with alloc sz align want_phys s =
     (if kheap s \<noteq> 0 then
        bind_res (alloc sz (ucast align) (kheap s) s) (\<lambda>(addr, s).
          if want_phys then
            bind_res (get_page (\<lambda>_ s. Inr ((0, 0), s)) addr 0 (kernel_directory s) s) (\<lambda>(page, s).
              Inr ((addr, page_frame (ld32 (mem s) page) * 0x1000 + (addr AND 0xFFF)), s))
          else Inr ((addr, 0), s))
      else
        (let s = (if align = 1 \<and> placement_address s AND 0xFFFFF000 \<noteq> 0
                  then s\<lparr>placement_address := (placement_address s AND 0xFFFFF000) + 0x1000\<rparr>
                  else s);
             tmp = placement_address s
         in Inr ((tmp, if want_phys then tmp else 0),
                 s\<lparr>placement_address := placement_address s + sz\<rparr>)))"

section \<open>Growing and shrinking\<close>

fun expand_loop ::
  "nat \<Rightarrow> 'a vm_scheme page_allocator \<Rightarrow> u32 \<Rightarrow> u32 \<Rightarrow> u32 \<Rightarrow> 'a vm_scheme
   \<Rightarrow> ('a vm_scheme, 'a vm_scheme) result" where
  "expand_loop 0 km hp new_size i s = Inl Out_of_fuel"
| "expand_loop (Suc n) km hp new_size i s =
     (if i < new_size then
        bind_res (get_page km (hp_start_address (heaps s hp) + i) 1 (kernel_directory s) s) (\<lambda>(page, s).
        bind_res (alloc_frame page (if hp_supervisor (heaps s hp) \<noteq> 0 then 1 else 0)
                    (if hp_readonly (heaps s hp) \<noteq> 0 then 0 else 1) s) (\<lambda>s.
          expand_loop n km hp new_size (i + 0x1000) s))
      else Inr s)"

definition expand ::
  "'a vm_scheme page_allocator \<Rightarrow> u32 \<Rightarrow> u32 \<Rightarrow> 'a vm_scheme \<Rightarrow> ('a vm_scheme, 'a vm_scheme) result" where
  "expand km new_size hp s =
     (let heap = heaps s hp in
      bind_res (ASSERT (hp_end_address heap - hp_start_address heap < new_size) ''sys/kheap.c'' 84
                  ''new_size > heap->end_address - heap->start_address'' s) (\<lambda>_.
      let new_size = (if new_size AND (if (0xFFFFF000 :: u32) \<noteq> 0 then 1 else 0) \<noteq> 0
                      then (new_size AND 0xFFFFF000) + 0x1000 else new_size) in
      bind_res (ASSERT (hp_start_address heap + new_size \<le> hp_max_address heap) ''sys/kheap.c'' 94
                  ''heap->start_address+new_size <= heap->max_address'' s) (\<lambda>_.
      bind_res (expand_loop (Suc max_pages) km hp new_size
                  (hp_end_address heap - hp_start_address heap) s) (\<lambda>s.
        Inr (s\<lparr>heaps := (heaps s)(hp := (heaps s hp)\<lparr>hp_end_address :=
               hp_start_address (heaps s hp) + new_size\<rparr>)\<rparr>)))))"

fun contract_loop ::
  "nat \<Rightarrow> u32 \<Rightarrow> u32 \<Rightarrow> u32 \<Rightarrow> 'a vm_scheme \<Rightarrow> ('a vm_scheme, 'a vm_scheme) result" where
  "contract_loop 0 hp new_size i s = Inl Out_of_fuel"
| "contract_loop (Suc n) hp new_size i s =
     (if new_size < i then
        bind_res (get_page (\<lambda>_ s. Inr ((0, 0), s)) (hp_start_address (heaps s hp) + i) 0
                    (kernel_directory s) s) (\<lambda>(page, s).
          contract_loop n hp new_size (i - 0x1000) (free_frame page s))
      else Inr s)"

definition contract_size :: "u32 \<Rightarrow> u32" where
  "contract_size new_size =
     (let new_size = (if new_size AND 0x1000 \<noteq> 0 then (new_size AND 0x1000) + 0x1000 else new_size)
      in if new_size < HEAP_MIN_SIZE then HEAP_MIN_SIZE else new_size)"

definition contract ::
  "u32 \<Rightarrow> u32 \<Rightarrow> 'a vm_scheme \<Rightarrow> ('a vm_scheme, u32 \<times> 'a vm_scheme) result" where
  "contract new_size hp s =
     (let heap = heaps s hp in
      bind_res (ASSERT (new_size < hp_end_address heap - hp_start_address heap) ''sys/kheap.c'' 113
                  ''new_size < heap->end_address - heap->start_address'' s) (\<lambda>_.
      let new_size = contract_size new_size;
          old_size = hp_end_address heap - hp_start_address heap in
      bind_res (contract_loop (Suc max_pages) hp new_size (old_size - 0x1000) s) (\<lambda>s.
        Inr (new_size, s\<lparr>heaps := (heaps s)(hp := (heaps s hp)\<lparr>hp_end_address :=
               hp_start_address (heaps s hp) + new_size\<rparr>)\<rparr>))))"

section \<open>Searching the index\<close>

text \<open>
  The loop of \<open>find_smallest_hole\<close>. Its calls of \<open>lookup_ordered_array\<close> are within the bounds by
  the loop condition, so they read the element.
\<close>

definition hole_fits :: "memory \<Rightarrow> u32 \<Rightarrow> u8 \<Rightarrow> u32 \<Rightarrow> bool" where
  "hole_fits m sz page_align header =
     (if 0 < page_align then
        (let location = header;
             offset = (if (location + sizeof_header) AND (if (0xFFFFF000 :: u32) \<noteq> 0 then 1 else 0) \<noteq> 0
                       then 0x1000 - (location + sizeof_header) mod 0x1000 else 0);
             hole_size = h_size m header - offset
         in sint sz \<le> sint hole_size)
      else sz \<le> h_size m header)"

function find_hole_loop :: "memory \<Rightarrow> ordered_array \<Rightarrow> u32 \<Rightarrow> u8 \<Rightarrow> u32 \<Rightarrow> u32" where
  "find_hole_loop m index sz page_align iterator =
     (if iterator < oa_size index \<and> \<not> hole_fits m sz page_align (ld32 m (oa_array index + 4 * iterator))
      then find_hole_loop m index sz page_align (iterator + 1) else iterator)"
  by pat_completeness auto
termination
  by (relation "measure (\<lambda>(m, index, sz, page_align, iterator). unat (oa_size index) - unat iterator)") auto

definition find_smallest_hole :: "u32 \<Rightarrow> u8 \<Rightarrow> u32 \<Rightarrow> 'a vm_scheme \<Rightarrow> u32" where
  "find_smallest_hole sz page_align hp s =
     (let index = hp_index (heaps s hp);
          iterator = find_hole_loop (mem s) index sz page_align 0
      in if iterator = oa_size index then - 1 else iterator)"

text \<open>The loop of \<open>alloc\<close> that looks for the header with the highest address.\<close>

function endmost_loop :: "memory \<Rightarrow> ordered_array \<Rightarrow> u32 \<Rightarrow> u32 \<Rightarrow> u32 \<Rightarrow> u32" where
  "endmost_loop m index iterator idx value =
     (if iterator < oa_size index then
        (let tmp = ld32 m (oa_array index + 4 * iterator) in
         if value < tmp then endmost_loop m index (iterator + 1) iterator tmp
         else endmost_loop m index (iterator + 1) idx value)
      else idx)"
  by pat_completeness auto
termination
  by (relation "measure (\<lambda>(m, index, iterator, idx, value). unat (oa_size index) - unat iterator)") auto

text \<open>The loops of \<open>free\<close> that look for a header in the index.\<close>

function find_header_loop :: "memory \<Rightarrow> ordered_array \<Rightarrow> u32 \<Rightarrow> u32 \<Rightarrow> u32" where
  "find_header_loop m index header iterator =
     (if iterator < oa_size index \<and> ld32 m (oa_array index + 4 * iterator) \<noteq> header
      then find_header_loop m index header (iterator + 1) else iterator)"
  by pat_completeness auto
termination
  by (relation "measure (\<lambda>(m, index, header, iterator). unat (oa_size index) - unat iterator)") auto

declare find_hole_loop.simps [simp del] endmost_loop.simps [simp del] find_header_loop.simps [simp del]

definition index_insert ::
  "u32 \<Rightarrow> u32 \<Rightarrow> 'a vm_scheme \<Rightarrow> ('a vm_scheme, 'a vm_scheme) result" where
  "index_insert header hp s =
     bind_res (insert_ordered_array header (hp_index (heaps s hp)) s) (\<lambda>(index, s).
       Inr (s\<lparr>heaps := (heaps s)(hp := (heaps s hp)\<lparr>hp_index := index\<rparr>)\<rparr>))"

definition index_remove :: "u32 \<Rightarrow> u32 \<Rightarrow> 'a vm_scheme \<Rightarrow> 'a vm_scheme" where
  "index_remove i hp s =
     (let (index, s) = remove_ordered_array i (hp_index (heaps s hp)) s
      in s\<lparr>heaps := (heaps s)(hp := (heaps s hp)\<lparr>hp_index := index\<rparr>)\<rparr>)"

section \<open>Allocation\<close>

text \<open>
  The end of the branch of \<open>alloc\<close> that expands the heap: the new space becomes part of the hole
  with the highest address, or a hole of its own when the index is empty.
\<close>

definition grow_last_hole ::
  "u32 \<Rightarrow> u32 \<Rightarrow> u32 \<Rightarrow> 'a vm_scheme \<Rightarrow> ('a vm_scheme, 'a vm_scheme) result" where
  "grow_last_hole old_length old_end_address hp s =
     (let new_length = hp_end_address (heaps s hp) - hp_start_address (heaps s hp);
          idx = endmost_loop (mem s) (hp_index (heaps s hp)) 0 (- 1) 0
      in if idx = - 1 then
           (let header = old_end_address;
                m = set_h_magic header HEAP_MAGIC (mem s);
                m = set_h_size header (new_length - old_length) m;
                m = set_h_is_hole header 1 m;
                footer = old_end_address + h_size m header - sizeof_footer;
                m = set_f_magic footer HEAP_MAGIC m;
                m = set_f_header footer header m
            in index_insert header hp (s\<lparr>mem := m\<rparr>))
         else
           bind_res (lookup_ordered_array idx (hp_index (heaps s hp)) s) (\<lambda>header.
             let m = set_h_size header (h_size (mem s) header + (new_length - old_length)) (mem s);
                 footer = header + h_size m header - sizeof_footer;
                 m = set_f_header footer header m;
                 m = set_f_magic footer HEAP_MAGIC m
             in Inr (s\<lparr>mem := m\<rparr>)))"

text \<open>
  The rest of \<open>alloc\<close>, once a hole is found: the optional hole in front of a page-aligned block,
  the header and footer of the block, and the hole that is left after it.
\<close>

definition hole_in_front :: "u32 \<Rightarrow> u32 \<Rightarrow> memory \<Rightarrow> memory" where
  "hole_in_front orig_hole_pos new_location m =
     (let hole_header = orig_hole_pos;
          m = set_h_size hole_header (0x1000 - (orig_hole_pos AND 0xFFF) - sizeof_header) m;
          m = set_h_magic hole_header HEAP_MAGIC m;
          m = set_h_is_hole hole_header 1 m;
          hole_footer = new_location - sizeof_footer;
          m = set_f_magic hole_footer HEAP_MAGIC m
      in set_f_header hole_footer hole_header m)"

definition write_block :: "u32 \<Rightarrow> u32 \<Rightarrow> u32 \<Rightarrow> memory \<Rightarrow> memory" where
  "write_block block_header sz new_size m =
     (let m = set_h_magic block_header HEAP_MAGIC m;
          m = set_h_is_hole block_header 0 m;
          m = set_h_size block_header new_size m;
          block_footer = block_header + sizeof_header + sz;
          m = set_f_magic block_footer HEAP_MAGIC m
      in set_f_header block_footer block_header m)"

definition write_rest :: "u32 \<Rightarrow> u32 \<Rightarrow> u32 \<Rightarrow> memory \<Rightarrow> memory" where
  "write_rest hole_header rest end_address m =
     (let m = set_h_magic hole_header HEAP_MAGIC m;
          m = set_h_is_hole hole_header 1 m;
          m = set_h_size hole_header rest m;
          hole_footer = hole_header + rest - sizeof_footer
      in if hole_footer < end_address
         then set_f_header hole_footer hole_header (set_f_magic hole_footer HEAP_MAGIC m)
         else m)"

definition alloc_from_hole ::
  "u32 \<Rightarrow> u8 \<Rightarrow> u32 \<Rightarrow> u32 \<Rightarrow> 'a vm_scheme \<Rightarrow> ('a vm_scheme, u32 \<times> 'a vm_scheme) result" where
  "alloc_from_hole sz page_align iterator hp s =
     (let new_size = sz + sizeof_header + sizeof_footer in
      bind_res (lookup_ordered_array iterator (hp_index (heaps s hp)) s) (\<lambda>orig_hole_header.
      let orig_hole_pos = orig_hole_header;
          orig_hole_size = h_size (mem s) orig_hole_header;
          (sz, new_size) =
            (if orig_hole_size - new_size < sizeof_header + sizeof_footer
             then (sz + (orig_hole_size - new_size), orig_hole_size) else (sz, new_size));
          (orig_hole_pos, orig_hole_size, s) =
            (if page_align \<noteq> 0 \<and> orig_hole_pos AND 0xFFFFF000 \<noteq> 0
             then let new_location = orig_hole_pos + 0x1000 - (orig_hole_pos AND 0xFFF) - sizeof_header;
                      s = s\<lparr>mem := hole_in_front orig_hole_pos new_location (mem s)\<rparr>
                  in (new_location, orig_hole_size - h_size (mem s) orig_hole_pos, s)
             else (orig_hole_pos, orig_hole_size, index_remove iterator hp s));
          block_header = orig_hole_pos;
          s = s\<lparr>mem := write_block block_header sz new_size (mem s)\<rparr>
      in bind_res
           (if 0 < orig_hole_size - new_size then
              let hole_header = orig_hole_pos + sizeof_header + sz + sizeof_footer;
                  s = s\<lparr>mem := write_rest hole_header (orig_hole_size - new_size)
                         (hp_end_address (heaps s hp)) (mem s)\<rparr>
              in index_insert hole_header hp s
            else Inr s) (\<lambda>s. Inr (block_header + sizeof_header, s))))"

text \<open>\<open>alloc\<close> with a bound on the depth of its recursion, direct and through \<open>expand\<close>.\<close>

primrec alloc :: "nat \<Rightarrow> 'a vm_scheme heap_allocator" where
  "alloc 0 sz page_align hp s = Inl Out_of_fuel"
| "alloc (Suc n) sz page_align hp s =
     (let new_size = sz + sizeof_header + sizeof_footer;
          iterator = find_smallest_hole new_size page_align hp s
      in if iterator = - 1 then
           (let old_length = hp_end_address (heaps s hp) - hp_start_address (heaps s hp);
                old_end_address = hp_end_address (heaps s hp)
            in bind_res (expand (\<lambda>bytes. kmalloc_int_with (alloc n) bytes 1 True)
                           (old_length + new_size) hp s) (\<lambda>s.
               bind_res (grow_last_hole old_length old_end_address hp s) (\<lambda>s.
                 alloc n sz page_align hp s)))
         else alloc_from_hole sz page_align iterator hp s)"

declare alloc.simps [simp del]

definition kmalloc_int ::
  "nat \<Rightarrow> u32 \<Rightarrow> u32 \<Rightarrow> bool \<Rightarrow> 'a vm_scheme \<Rightarrow> ('a vm_scheme, (u32 \<times> u32) \<times> 'a vm_scheme) result" where
  "kmalloc_int n = kmalloc_int_with (alloc n)"

definition kmalloc_a :: "nat \<Rightarrow> u32 \<Rightarrow> 'a vm_scheme \<Rightarrow> ('a vm_scheme, u32 \<times> 'a vm_scheme) result" where
  "kmalloc_a n sz s = bind_res (kmalloc_int n sz 1 False s) (\<lambda>((a, _), s). Inr (a, s))"

definition kmalloc_p :: "nat \<Rightarrow> u32 \<Rightarrow> 'a vm_scheme \<Rightarrow> ('a vm_scheme, (u32 \<times> u32) \<times> 'a vm_scheme) result" where
  "kmalloc_p n sz s = kmalloc_int n sz 0 True s"

definition kmalloc_ap :: "nat \<Rightarrow> u32 \<Rightarrow> 'a vm_scheme \<Rightarrow> ('a vm_scheme, (u32 \<times> u32) \<times> 'a vm_scheme) result" where
  "kmalloc_ap n sz s = kmalloc_int n sz 1 True s"

definition kmalloc :: "nat \<Rightarrow> u32 \<Rightarrow> 'a vm_scheme \<Rightarrow> ('a vm_scheme, u32 \<times> 'a vm_scheme) result" where
  "kmalloc n sz s = bind_res (kmalloc_int n sz 0 False s) (\<lambda>((a, _), s). Inr (a, s))"

section \<open>Creating a heap and freeing a block\<close>

definition create_heap ::
  "nat \<Rightarrow> u32 \<Rightarrow> u32 \<Rightarrow> u32 \<Rightarrow> u8 \<Rightarrow> u8 \<Rightarrow> 'a vm_scheme \<Rightarrow> ('a vm_scheme, u32 \<times> 'a vm_scheme) result" where
  "create_heap n start end_addr mx supervisor readonly s =
     bind_res (kmalloc n sizeof_heap s) (\<lambda>(hp, s).
     bind_res (ASSERT (start mod 0x1000 = 0) ''sys/kheap.c'' 184 ''start % 0x1000 == 0'' s) (\<lambda>_.
     bind_res (ASSERT (end_addr mod 0x1000 = 0) ''sys/kheap.c'' 185 ''end_addr % 0x1000 == 0'' s) (\<lambda>_.
     let (index, s) = place_ordered_array start HEAP_INDEX_SIZE (Some header_t_less_than) s;
         start = start + 4 * HEAP_INDEX_SIZE;
         start = (if start AND (if (0xFFFFF000 :: u32) \<noteq> 0 then 1 else 0) \<noteq> 0
                  then (start AND 0xFFFFF000) + 0x1000 else start);
         s = s\<lparr>heaps := (heaps s)(hp := \<lparr>hp_index = index, hp_start_address = start,
               hp_end_address = end_addr, hp_max_address = mx, hp_supervisor = supervisor,
               hp_readonly = readonly\<rparr>)\<rparr>;
         hole = start;
         m = set_h_size hole (end_addr - start) (mem s);
         m = set_h_magic hole HEAP_MAGIC m;
         m = set_h_is_hole hole 1 m
     in bind_res (index_insert hole hp (s\<lparr>mem := m\<rparr>)) (\<lambda>s. Inr (hp, s)))))"

text \<open>
  The parts of \<open>free\<close>. \<open>unify_left\<close> gives the header, the memory and \<open>do_add\<close>; \<open>unify_right\<close>
  gives the footer; \<open>free_contract\<close> is the branch for the last block of the heap.
\<close>

definition unify_left :: "u32 \<Rightarrow> u32 \<Rightarrow> memory \<Rightarrow> u32 \<times> memory \<times> bool" where
  "unify_left header footer m =
     (let test_footer = header - sizeof_footer in
      if f_magic m test_footer = HEAP_MAGIC \<and> h_is_hole m (f_header m test_footer) = 1 then
        (let cache_size = h_size m header;
             header = f_header m test_footer;
             m = set_f_header footer header m;
             m = set_h_size header (h_size m header + cache_size) m
         in (header, m, False))
      else (header, m, True))"

definition unify_right ::
  "u32 \<Rightarrow> u32 \<Rightarrow> u32 \<Rightarrow> 'a vm_scheme \<Rightarrow> ('a vm_scheme, u32 \<times> 'a vm_scheme) result" where
  "unify_right header footer hp s =
     (let test_header = footer + sizeof_footer in
      if h_magic (mem s) test_header = HEAP_MAGIC \<and> h_is_hole (mem s) test_header \<noteq> 0 then
        (let s = s\<lparr>mem := set_h_size header (h_size (mem s) header + h_size (mem s) test_header) (mem s)\<rparr>;
             test_footer = test_header + h_size (mem s) test_header - sizeof_footer;
             footer = test_footer;
             iterator = find_header_loop (mem s) (hp_index (heaps s hp)) test_header 0
         in bind_res (ASSERT (iterator < oa_size (hp_index (heaps s hp))) ''sys/kheap.c'' 407
                        ''iterator < heap->index.size'' s) (\<lambda>_.
              Inr (footer, index_remove iterator hp s)))
      else Inr (footer, s))"

definition free_contract ::
  "u32 \<Rightarrow> u32 \<Rightarrow> u32 \<Rightarrow> 'a vm_scheme \<Rightarrow> ('a vm_scheme, 'a vm_scheme) result" where
  "free_contract header test_header hp s =
     (let old_length = hp_end_address (heaps s hp) - hp_start_address (heaps s hp) in
      bind_res (contract (header - hp_start_address (heaps s hp)) hp s) (\<lambda>(new_length, s).
        if 0 < h_size (mem s) header - (old_length - new_length) then
          (let m = set_h_size header (h_size (mem s) header - (old_length - new_length)) (mem s);
               footer = header + h_size m header - sizeof_footer;
               m = set_f_magic footer HEAP_MAGIC m;
               m = set_f_header footer header m
           in Inr (s\<lparr>mem := m\<rparr>))
        else
          (let iterator = find_header_loop (mem s) (hp_index (heaps s hp)) test_header 0
           in Inr (if iterator < oa_size (hp_index (heaps s hp)) then index_remove iterator hp s else s))))"

definition free :: "u32 \<Rightarrow> u32 \<Rightarrow> 'a vm_scheme \<Rightarrow> ('a vm_scheme, 'a vm_scheme) result" where
  "free p hp s =
     (if p = 0 then Inr s
      else
        (let header = p - sizeof_header;
             footer = header + h_size (mem s) header - sizeof_footer
         in bind_res (ASSERT (h_magic (mem s) header = HEAP_MAGIC) ''sys/kheap.c'' 365
                        ''header->magic == HEAP_MAGIC'' s) (\<lambda>_.
            bind_res (ASSERT (f_magic (mem s) footer = HEAP_MAGIC) ''sys/kheap.c'' 366
                        ''footer->magic == HEAP_MAGIC'' s) (\<lambda>_.
            let test_header = footer + sizeof_footer;
                (header, m, do_add) = unify_left header footer (set_h_is_hole header 1 (mem s))
            in bind_res (unify_right header footer hp (s\<lparr>mem := m\<rparr>)) (\<lambda>(footer, s).
               bind_res (if footer + sizeof_footer = hp_end_address (heaps s hp)
                         then free_contract header test_header hp s else Inr s) (\<lambda>s.
                 if do_add then index_insert header hp s else Inr s))))))"

definition kfree :: "u32 \<Rightarrow> 'a vm_scheme \<Rightarrow> ('a vm_scheme, 'a vm_scheme) result" where
  "kfree p s = free p (kheap s) s"

section \<open>Headers and footers in memory\<close>

text \<open>\<open>tagged m h hole n\<close>: at \<open>h\<close> there is a header, and \<open>n\<close> bytes on a footer that points back.\<close>

definition header_at :: "memory \<Rightarrow> u32 \<Rightarrow> u8 \<Rightarrow> u32 \<Rightarrow> bool" where
  "header_at m h hole n \<longleftrightarrow> h_magic m h = HEAP_MAGIC \<and> h_is_hole m h = hole \<and> h_size m h = n"

definition footer_at :: "memory \<Rightarrow> u32 \<Rightarrow> u32 \<Rightarrow> bool" where
  "footer_at m f h \<longleftrightarrow> f_magic m f = HEAP_MAGIC \<and> f_header m f = h"

definition tagged :: "memory \<Rightarrow> u32 \<Rightarrow> u8 \<Rightarrow> u32 \<Rightarrow> bool" where
  "tagged m h hole n \<longleftrightarrow> header_at m h hole n \<and> footer_at m (h + n - 8) h"

lemmas field_defs = h_magic_def h_is_hole_def h_size_def f_magic_def f_header_def
  set_h_magic_def set_h_is_hole_def set_h_size_def set_f_magic_def set_f_header_def

lemma header_region: "in_region h 4 x \<Longrightarrow> in_region h 12 x" "in_region h 12 (h + 4)"
  "in_region (h + 8) 4 x \<Longrightarrow> in_region h 12 x"
  using in_region_offset [of h 8 4 x 12] by (auto simp: in_region_def)

lemma footer_region: "in_region f 4 x \<Longrightarrow> in_region f 8 x" "in_region (f + 4) 4 x \<Longrightarrow> in_region f 8 x"
  using in_region_offset [of f 4 4 x 8] by (auto simp: in_region_def)

lemma header_at_frame:
  assumes "header_at m h hole n" and "\<And>x. in_region h 12 x \<Longrightarrow> m' x = m x"
  shows "header_at m' h hole n"
proof -
  have "ld32 m' h = ld32 m h" and "ld32 m' (h + 8) = ld32 m (h + 8)" and "m' (h + 4) = m (h + 4)"
    using assms(2) header_region [of h] by (auto intro!: ld32_frame)
  then show ?thesis using assms(1) by (simp add: header_at_def field_defs)
qed

lemma footer_at_frame:
  assumes "footer_at m f h" and "\<And>x. in_region f 8 x \<Longrightarrow> m' x = m x"
  shows "footer_at m' f h"
proof -
  have "ld32 m' f = ld32 m f" and "ld32 m' (f + 4) = ld32 m (f + 4)"
    using assms(2) footer_region [of f] by (auto intro!: ld32_frame)
  then show ?thesis using assms(1) by (simp add: footer_at_def field_defs)
qed

definition put_header :: "u32 \<Rightarrow> u8 \<Rightarrow> u32 \<Rightarrow> memory \<Rightarrow> memory" where
  "put_header h hole n m = set_h_size h n (set_h_is_hole h hole (set_h_magic h HEAP_MAGIC m))"

definition put_footer :: "u32 \<Rightarrow> u32 \<Rightarrow> memory \<Rightarrow> memory" where
  "put_footer f h m = set_f_header f h (set_f_magic f HEAP_MAGIC m)"

lemma put_header_at: "header_at (put_header h hole n m) h hole n"
  by (simp add: header_at_def put_header_def field_defs ld32_st32_other sep_def ld32_upd_other
      st32_byte_other in_region_def)

lemma put_footer_at: "footer_at (put_footer f h m) f h"
  by (simp add: footer_at_def put_footer_def field_defs ld32_st32_other sep_def)

lemma put_header_outside: "\<not> in_region h 12 x \<Longrightarrow> put_header h hole n m x = m x"
  using header_region(1,3) [of h x] header_region(2) [of h]
  by (cases "x = h + 4"; cases "in_region h 4 x"; cases "in_region (h + 8) 4 x")
     (simp_all add: put_header_def field_defs st32_outside)

lemma put_footer_outside: "\<not> in_region f 8 x \<Longrightarrow> put_footer f h m x = m x"
  using footer_region [of f x]
  by (cases "in_region f 4 x"; cases "in_region (f + 4) 4 x") (simp_all add: put_footer_def field_defs st32_outside)

section \<open>Blocks and holes\<close>

lemma footer_offset:
  fixes n h :: u32
  assumes "20 \<le> unat n"
  shows "unat (n - 8) = unat n - 8" and "h + n - 8 = h + of_nat (unat n - 8)"
proof -
  show *: "unat (n - 8) = unat n - 8" using assms by (simp add: unat_sub_lem32)
  have "(of_nat (unat n - 8) :: u32) = n - 8" using unat_of_nat_small [of "unat n - 8"] unat_lt_u32 [of n]
    by (simp only: word_unat_eq_iff *)
  then show "h + n - 8 = h + of_nat (unat n - 8)" by simp
qed

lemma footer_in_block: "20 \<le> unat n \<Longrightarrow> in_region (h + n - 8) 8 x \<Longrightarrow> in_region h (unat n) x"
  unfolding footer_offset(2) by (erule in_region_offset) simp_all

lemma header_in_block: "20 \<le> n \<Longrightarrow> in_region h 12 x \<Longrightarrow> in_region h n x"
  by (simp add: in_region_def)

lemma header_footer_sep:
  assumes "20 \<le> unat n"
  shows "sep (h + n - 8) 8 h 12"
proof -
  have "h - (h + n - 8) = 8 - n" and "h + n - 8 - h = n - 8" by simp_all
  moreover have "unat (8 - n) = 4294967304 - unat n"
    using unat_sub_wrap32 [of 8 n] assms by simp
  moreover have "8 \<le> 4294967304 - unat n" using unat_lt_u32 [of n] by linarith
  ultimately show ?thesis
    using footer_offset(1) [OF assms] assms by (simp add: sep_def)
qed

lemma tagged_put:
  assumes "20 \<le> unat n"
  shows "tagged (put_footer (h + n - 8) h (put_header h hole n m)) h hole n"
proof -
  have "put_footer (h + n - 8) h (put_header h hole n m) x = put_header h hole n m x"
    if "in_region h 12 x" for x
    using that sep_not_in_region [OF header_footer_sep [OF assms]] by (intro put_footer_outside) blast
  then show ?thesis
    using put_header_at put_footer_at header_at_frame unfolding tagged_def by blast
qed

lemma put_tags_outside:
  assumes "20 \<le> unat n" and "\<not> in_region h (unat n) x"
  shows "put_header h hole n m x = m x" and "put_footer (h + n - 8) h m x = m x"
  using assms header_in_block footer_in_block by (blast intro: put_header_outside put_footer_outside)+

lemma tagged_frame:
  assumes "tagged m h hole n" and "\<And>x. in_region h (unat n) x \<Longrightarrow> m' x = m x" and "20 \<le> unat n"
  shows "tagged m' h hole n"
  using assms header_in_block footer_in_block unfolding tagged_def
  by (blast intro: header_at_frame footer_at_frame)

lemma write_block_eq:
  "write_block h sz (sz + 20) m = put_footer (h + (sz + 20) - 8) h (put_header h 0 (sz + 20) m)"
  by (simp add: write_block_def put_header_def put_footer_def Let_def sizeof_header_def algebra_simps)

lemma write_rest_eq:
  "write_rest h n e m =
    (if h + n - 8 < e then put_footer (h + n - 8) h (put_header h 1 n m) else put_header h 1 n m)"
  by (simp add: write_rest_def put_header_def put_footer_def Let_def sizeof_footer_def)

lemma set_fields_commute:
  "set_h_is_hole h b (set_h_magic h v (set_h_size h n m)) = set_h_size h n (set_h_is_hole h b (set_h_magic h v m))"
  "set_h_is_hole h b (set_h_size h n (set_h_magic h v m)) = set_h_size h n (set_h_is_hole h b (set_h_magic h v m))"
  by (auto simp: field_defs st32_def fun_eq_iff)

lemma hole_in_front_eq:
  "hole_in_front h loc m = put_footer (loc - 8) h (put_header h 1 (0x1000 - (h AND 0xFFF) - 12) m)"
  by (simp add: hole_in_front_def put_header_def put_footer_def Let_def sizeof_header_def sizeof_footer_def
      set_fields_commute)

section \<open>The index\<close>

interpretation hole_sizes: key_order "\<lambda>a b. header_t_less_than m a b \<noteq> 0" "h_size m" for m
  by unfold_locales (simp add: header_t_less_than_def)

lemma find_hole_loop_eq:
  "find_hole_loop m index sz pa 0 = of_nat (length (takeWhile (\<lambda>h. \<not> hole_fits m sz pa h) (oa_list m index)))"
  by (rule scan_list_eq) (rule find_hole_loop.simps)

lemma find_header_loop_eq:
  "find_header_loop m index h 0 = of_nat (length (takeWhile (\<lambda>x. x \<noteq> h) (oa_list m index)))"
  by (rule scan_list_eq) (rule find_header_loop.simps)

lemma of_nat_prefix_less:
  "(of_nat (length (takeWhile P (oa_list m index))) :: u32) < oa_size index \<longleftrightarrow> (\<exists>x \<in> set (oa_list m index). \<not> P x)"
  (is "?l \<longleftrightarrow> ?r")
proof -
  let ?k = "length (takeWhile P (oa_list m index))"
  have le: "?k \<le> unat (oa_size index)" using length_takeWhile_le [of P "oa_list m index"] by simp
  then have "unat (of_nat ?k :: u32) = ?k"
    by (intro unat_of_nat_small) (rule le_less_trans [OF _ unat_lt_u32])
  then have "?l \<longleftrightarrow> ?k < length (oa_list m index)" by (simp add: word_less_nat_alt)
  also have "\<dots> \<longleftrightarrow> takeWhile P (oa_list m index) \<noteq> oa_list m index"
  proof
    show "?k < length (oa_list m index) \<Longrightarrow> takeWhile P (oa_list m index) \<noteq> oa_list m index" by force
    show "takeWhile P (oa_list m index) \<noteq> oa_list m index \<Longrightarrow> ?k < length (oa_list m index)"
      using le takeWhile_eq_take [of P "oa_list m index"] by (cases "?k = length (oa_list m index)") simp_all
  qed
  finally show ?thesis by (simp add: takeWhile_eq_all_conv)
qed

lemma find_smallest_hole_eq:
  assumes "index = hp_index (heaps s hp)"
  shows "find_smallest_hole sz pa hp s =
    (let k = length (takeWhile (\<lambda>h. \<not> hole_fits (mem s) sz pa h) (oa_list (mem s) index))
     in if k = length (oa_list (mem s) index) then - 1 else of_nat k)"
proof -
  let ?n = "unat (oa_size index)"
  let ?k = "length (takeWhile (\<lambda>h. \<not> hole_fits (mem s) sz pa h) (oa_list (mem s) index))"
  have "find_hole_loop (mem s) index sz pa 0 = of_nat ?k"
    by (rule find_hole_loop_eq)
  moreover have "?k \<le> ?n"
    using length_takeWhile_le [of _ "oa_list (mem s) index"] by (metis length_oa_list)
  then have "of_nat ?k = oa_size index \<longleftrightarrow> ?k = ?n"
    using unat_of_nat_small [of ?k] unat_lt_u32 [of "oa_size index"]
    by (simp add: word_unat_eq_iff le_less_trans)
  ultimately show ?thesis
    using assms by (simp add: find_smallest_hole_def Let_def)
qed

section \<open>Carving a block out of a hole\<close>

definition grown_index :: "u32 \<Rightarrow> 'a vm_scheme \<Rightarrow> 'a vm_scheme" where
  "grown_index hp s = s\<lparr>heaps := (heaps s)(hp := (heaps s hp)\<lparr>hp_index :=
     (hp_index (heaps s hp))\<lparr>oa_size := oa_size (hp_index (heaps s hp)) + 1\<rparr>\<rparr>)\<rparr>"

lemma grown_index_simps [simp]:
  "mem (grown_index hp s) = mem s" "hp_end_address (heaps (grown_index hp s) hp') = hp_end_address (heaps s hp')"
  "hp_start_address (heaps (grown_index hp s) hp') = hp_start_address (heaps s hp')"
  "hp_index (heaps (grown_index hp s) hp)
     = (hp_index (heaps s hp))\<lparr>oa_size := oa_size (hp_index (heaps s hp)) + 1\<rparr>"
  by (simp_all add: grown_index_def)

lemma index_remove_spec:
  assumes "oa_fits (hp_index (heaps s hp))" and "unat i < unat (oa_size (hp_index (heaps s hp)))"
  shows "\<exists>m. index_remove i hp s = grown_index hp (s\<lparr>mem := m\<rparr>) \<and>
    (\<forall>x. \<not> in_region (oa_array (hp_index (heaps s hp))) (4 * unat (oa_size (hp_index (heaps s hp)))) x
       \<longrightarrow> m x = mem s x)"
proof -
  obtain a' s' where r: "remove_ordered_array i (hp_index (heaps s hp)) s = (a', s')" by fastforce
  define m where "m = mem s'"
  have "s' = s\<lparr>mem := m\<rparr>"
    unfolding m_def by (rule remove_ordered_array_spec(3) [OF assms r])
  then have "index_remove i hp s = grown_index hp (s\<lparr>mem := m\<rparr>)"
    using remove_ordered_array_spec(2) [OF assms r] by (simp add: index_remove_def r grown_index_def)
  then show ?thesis using remove_ordered_array_spec(4) [OF assms r] unfolding m_def by blast
qed

lemma index_insert_spec:
  assumes "oa_less_than (hp_index (heaps s hp)) = Some lt" and "oa_fits (hp_index (heaps s hp))"
  shows "\<exists>m. index_insert h hp s = Inr (grown_index hp (s\<lparr>mem := m\<rparr>)) \<and>
    oa_list m ((hp_index (heaps s hp))\<lparr>oa_size := oa_size (hp_index (heaps s hp)) + 1\<rparr>)
      = takeWhile (\<lambda>x. lt (mem s) x h \<noteq> 0) (oa_list (mem s) (hp_index (heaps s hp))) @ h
        # dropWhile (\<lambda>x. lt (mem s) x h \<noteq> 0) (oa_list (mem s) (hp_index (heaps s hp))) \<and>
    (\<forall>x. \<not> in_region (oa_array (hp_index (heaps s hp))) (4 * Suc (unat (oa_size (hp_index (heaps s hp))))) x
       \<longrightarrow> m x = mem s x)"
  using insert_ordered_array_spec [OF assms, of h s] by (auto simp: index_insert_def grown_index_def)

text \<open>Room in the index for \<open>k\<close> more elements, and the storage they and the old ones take.\<close>

definition index_ok :: "nat \<Rightarrow> u32 \<Rightarrow> 'a vm_scheme \<Rightarrow> bool" where
  "index_ok k hp s \<longleftrightarrow> oa_less_than (hp_index (heaps s hp)) = Some header_t_less_than \<and>
     unat (oa_size (hp_index (heaps s hp))) + k < 1073741824"

definition index_region :: "nat \<Rightarrow> u32 \<Rightarrow> 'a vm_scheme \<Rightarrow> u32 \<Rightarrow> bool" where
  "index_region k hp s x \<longleftrightarrow> in_region (oa_array (hp_index (heaps s hp)))
     (4 * (unat (oa_size (hp_index (heaps s hp))) + k)) x"

lemma write_hole_after:
  assumes "index_ok 1 hp s" and "20 \<le> unat n" and "h + n - 8 < hp_end_address (heaps s hp)"
    and "\<And>x. in_region h (unat n) x \<Longrightarrow> \<not> index_region 1 hp s x"
  shows "\<exists>m. index_insert h hp (s\<lparr>mem := write_rest h n (hp_end_address (heaps s hp)) (mem s)\<rparr>)
      = Inr (grown_index hp (s\<lparr>mem := m\<rparr>)) \<and> tagged m h 1 n \<and>
    (\<forall>x. \<not> in_region h (unat n) x \<longrightarrow> \<not> index_region 1 hp s x \<longrightarrow> m x = mem s x)"
proof -
  let ?w = "write_rest h n (hp_end_address (heaps s hp)) (mem s)"
  let ?i = "hp_index (heaps s hp)"
  have w: "?w = put_footer (h + n - 8) h (put_header h 1 n (mem s))"
    using assms(3) by (simp add: write_rest_eq)
  have "oa_less_than (hp_index (heaps (s\<lparr>mem := ?w\<rparr>) hp)) = Some header_t_less_than"
    and "oa_fits (hp_index (heaps (s\<lparr>mem := ?w\<rparr>) hp))"
    using assms(1) by (simp_all add: index_ok_def oa_fits_def)
  from index_insert_spec [OF this, of h] obtain m where
    ins: "index_insert h hp (s\<lparr>mem := ?w\<rparr>) = Inr (grown_index hp (s\<lparr>mem := ?w\<rparr>\<lparr>mem := m\<rparr>))"
    and out: "\<And>x. \<not> in_region (oa_array (hp_index (heaps (s\<lparr>mem := ?w\<rparr>) hp)))
      (4 * Suc (unat (oa_size (hp_index (heaps (s\<lparr>mem := ?w\<rparr>) hp))))) x \<Longrightarrow> m x = mem (s\<lparr>mem := ?w\<rparr>) x"
    by blast
  have keep: "m x = ?w x" if "\<not> index_region 1 hp s x" for x
    using that out [of x] by (simp add: index_region_def in_region_def)
  have "tagged m h 1 n"
  proof (rule tagged_frame [OF _ _ assms(2)])
    show "tagged ?w h 1 n" unfolding w by (rule tagged_put [OF assms(2)])
    show "m x = ?w x" if "in_region h (unat n) x" for x using assms(4) [OF that] by (rule keep)
  qed
  moreover have "m x = mem s x" if "\<not> in_region h (unat n) x" "\<not> index_region 1 hp s x" for x
    using keep [OF that(2)] put_tags_outside [OF assms(2) that(1)] by (simp add: w)
  moreover have "index_insert h hp (s\<lparr>mem := ?w\<rparr>) = Inr (grown_index hp (s\<lparr>mem := m\<rparr>))"
    using ins by simp
  ultimately show ?thesis by blast
qed

lemma hole_fits_unaligned: "hole_fits m n 0 h \<longleftrightarrow> n \<le> h_size m h"
  by (simp add: hole_fits_def)

text \<open>The size of the block that is taken from a hole of \<open>hs\<close> bytes when \<open>n\<close> are needed.\<close>

definition block_size :: "u32 \<Rightarrow> u32 \<Rightarrow> u32" where
  "block_size hs n = (if hs - n < 20 then hs else n)"

lemma block_size_bounds:
  assumes "n \<le> hs" and "20 \<le> unat n"
  shows "n \<le> block_size hs n" and "block_size hs n \<le> hs" and "20 \<le> unat (block_size hs n)"
    and "unat (hs - block_size hs n) = unat hs - unat (block_size hs n)"
    and "block_size hs n = hs \<or> 20 \<le> unat (hs - block_size hs n)"
  using assms by (auto simp: block_size_def word_le_nat_alt word_less_nat_alt unat_sub_lem32)

lemma alloc_from_hole_unaligned:
  assumes lookup: "unat i < unat (oa_size (hp_index (heaps s hp)))"
    and h: "oa_list (mem s) (hp_index (heaps s hp)) ! unat i = h"
    and bs: "bs = block_size (h_size (mem s) h) (sz + 20)"
  shows "alloc_from_hole sz 0 i hp s =
    (let s1 = index_remove i hp s;
         s2 = s1\<lparr>mem := put_footer (h + bs - 8) h (put_header h 0 bs (mem s1))\<rparr>
     in bind_res (if 0 < h_size (mem s) h - bs
                  then index_insert (h + bs) hp (s2\<lparr>mem := write_rest (h + bs) (h_size (mem s) h - bs)
                         (hp_end_address (heaps s2 hp)) (mem s2)\<rparr>)
                  else Inr s2) (\<lambda>s. Inr (h + 12, s)))"
proof -
  have look: "lookup_ordered_array i (hp_index (heaps s hp)) s = Inr h"
    using lookup h by (simp add: lookup_ordered_array_eq word_less_nat_alt)
  have blk: "write_block h z n = (\<lambda>m. put_footer (h + n - 8) h (put_header h 0 n m))" if "n = z + 20" for z n
    using write_block_eq [of h z] that by (simp add: fun_eq_iff)
  show ?thesis
    by (simp add: alloc_from_hole_def look bs block_size_def sizeof_header_def sizeof_footer_def Let_def
        blk algebra_simps)
qed

section \<open>Allocation from a hole\<close>

lemma region_split:
  assumes "b \<le> hs" and "in_region (h + b) (unat (hs - b)) x"
  shows "in_region h (unat hs) x" and "\<not> in_region h (unat b) x"
proof -
  have le: "unat b \<le> unat hs" using assms(1) by (simp add: word_le_nat_alt)
  obtain j where j: "j < unat (hs - b)" "x = h + b + of_nat j" using assms(2) by (rule in_regionE)
  then have j': "unat b + j < unat hs" using le by (simp add: unat_sub_lem32)
  then have "unat b + j < 4294967296" using unat_lt_u32 [of hs] by linarith
  then have "unat (x - h) = unat b + j" using j(2) by (simp add: unat_add_of_nat)
  then show "in_region h (unat hs) x" and "\<not> in_region h (unat b) x"
    using j' by (simp_all add: in_region_def)
qed

lemma region_prefix: "b \<le> hs \<Longrightarrow> in_region h (unat b) x \<Longrightarrow> in_region h (unat hs) x"
  by (simp add: in_region_def word_le_nat_alt)

lemma index_region_mono: "index_region k hp s x \<Longrightarrow> k \<le> l \<Longrightarrow> index_region l hp s x"
  by (simp add: index_region_def in_region_def)

lemma index_region_grown:
  assumes "index_ok 1 hp s"
  shows "index_region k hp (grown_index hp s) x \<longleftrightarrow> index_region (Suc k) hp s x"
proof -
  have "unat (oa_size (hp_index (heaps s hp)) + 1) = unat (oa_size (hp_index (heaps s hp))) + 1"
    using assms by (simp add: index_ok_def unat_add_lem32)
  then show ?thesis by (simp add: index_region_def)
qed

lemma index_ok_grown:
  assumes "index_ok (Suc k) hp s"
  shows "index_ok k hp (grown_index hp s)"
proof -
  have "unat (oa_size (hp_index (heaps s hp)) + 1) = unat (oa_size (hp_index (heaps s hp))) + 1"
    using assms by (simp add: index_ok_def unat_add_lem32)
  then show ?thesis using assms by (simp add: index_ok_def)
qed

lemma index_mem [simp]:
  "index_ok k hp (s\<lparr>mem := m\<rparr>) = index_ok k hp s" "index_region k hp (s\<lparr>mem := m\<rparr>) x = index_region k hp s x"
  by (simp_all add: index_ok_def index_region_def)

lemma grown_index_mem [simp]: "(grown_index hp s)\<lparr>mem := m\<rparr> = grown_index hp (s\<lparr>mem := m\<rparr>)"
  by (simp add: grown_index_def)

text \<open>The end of a block that lies in the heap, and the hole that is left behind a block.\<close>

lemma footer_below_end:
  assumes "unat h + unat hs \<le> unat (e :: u32)" and "20 \<le> unat hs"
  shows "h + hs - 8 < e"
proof -
  have "unat (h + hs) = unat h + unat hs"
    using assms(1) unat_lt_u32 [of e] by (intro unat_add_lem32) linarith
  then have "unat (h + hs - 8) = unat h + unat hs - 8"
    using assms(2) unat_sub_lem32 [of 8 "h + hs"] by simp
  then show ?thesis using assms by (simp add: word_less_nat_alt)
qed

lemma rest_hole_written:
  assumes ok: "index_ok 1 hp s" and block: "tagged (mem s) h 0 bs" "20 \<le> unat bs" "bs \<le> hs"
    and rest: "20 \<le> unat (hs - bs)"
    and inside: "unat h + unat hs \<le> unat (hp_end_address (heaps s hp))"
    and away: "\<And>x. in_region h (unat hs) x \<Longrightarrow> \<not> index_region 1 hp s x"
  shows "\<exists>m. index_insert (h + bs) hp (s\<lparr>mem := write_rest (h + bs) (hs - bs) (hp_end_address (heaps s hp)) (mem s)\<rparr>)
      = Inr (grown_index hp (s\<lparr>mem := m\<rparr>))
    \<and> tagged m h 0 bs \<and> tagged m (h + bs) 1 (hs - bs)
    \<and> (\<forall>x. \<not> in_region h (unat hs) x \<longrightarrow> \<not> index_region 1 hp s x \<longrightarrow> m x = mem s x)"
proof -
  have "20 \<le> unat hs" using block(2,3) by (simp add: word_le_nat_alt)
  then have "h + bs + (hs - bs) - 8 < hp_end_address (heaps s hp)"
    using footer_below_end [OF inside] by simp
  moreover have "\<not> index_region 1 hp s x" if "in_region (h + bs) (unat (hs - bs)) x" for x
    using away region_split(1) [OF block(3) that] by blast
  ultimately obtain m where ins: "index_insert (h + bs) hp (s\<lparr>mem := write_rest (h + bs) (hs - bs)
        (hp_end_address (heaps s hp)) (mem s)\<rparr>) = Inr (grown_index hp (s\<lparr>mem := m\<rparr>))"
    and t: "tagged m (h + bs) 1 (hs - bs)"
    and m: "\<And>x. \<not> in_region (h + bs) (unat (hs - bs)) x \<Longrightarrow> \<not> index_region 1 hp s x \<Longrightarrow> m x = mem s x"
    using write_hole_after [OF ok rest, of "h + bs"] by blast
  have "tagged m h 0 bs"
  proof (rule tagged_frame [OF block(1) _ block(2)])
    fix x assume x: "in_region h (unat bs) x"
    then have "\<not> index_region 1 hp s x" using away region_prefix [OF block(3)] by blast
    then show "m x = mem s x" using m [of x] x region_split(2) [OF block(3)] by auto
  qed
  moreover have "m x = mem s x" if "\<not> in_region h (unat hs) x" "\<not> index_region 1 hp s x" for x
    using that m [of x] region_split(1) [OF block(3)] by blast
  ultimately show ?thesis using ins t by blast
qed

lemma alloc_from_hole_spec:
  assumes ok: "index_ok 2 hp s" and i: "unat i < unat (oa_size (hp_index (heaps s hp)))"
    and h: "oa_list (mem s) (hp_index (heaps s hp)) ! unat i = h"
    and hs: "h_size (mem s) h = hs" "sz + 20 \<le> hs" "20 \<le> unat (sz + 20)"
    and inside: "unat h + unat hs \<le> unat (hp_end_address (heaps s hp))"
    and away: "\<And>x. in_region h (unat hs) x \<Longrightarrow> \<not> index_region 2 hp s x"
    and bs: "bs = block_size hs (sz + 20)"
  shows "\<exists>t. alloc_from_hole sz 0 i hp s = Inr (h + 12, t) \<and> tagged (mem t) h 0 bs \<and>
    (bs = hs \<or> tagged (mem t) (h + bs) 1 (hs - bs)) \<and>
    (\<forall>x. \<not> in_region h (unat hs) x \<longrightarrow> \<not> index_region 2 hp s x \<longrightarrow> mem t x = mem s x)"
proof -
  note bounds = block_size_bounds [OF hs(2,3), folded bs]
  let ?arr = "index_region 2 hp s"
  have "oa_fits (hp_index (heaps s hp))" using ok by (simp add: index_ok_def oa_fits_def)
  from index_remove_spec [OF this i] obtain m1 where rem: "index_remove i hp s = grown_index hp (s\<lparr>mem := m1\<rparr>)"
    and m1: "\<And>x. \<not> ?arr x \<Longrightarrow> m1 x = mem s x"
    by (auto simp: index_region_def in_region_def)
  define s2 where "s2 = grown_index hp (s\<lparr>mem := put_footer (h + bs - 8) h (put_header h 0 bs m1)\<rparr>)"
  have t2: "tagged (mem s2) h 0 bs" by (simp add: s2_def tagged_put [OF bounds(3)])
  have m2: "mem s2 x = mem s x" if "\<not> in_region h (unat hs) x" "\<not> ?arr x" for x
  proof -
    have "\<not> in_region h (unat bs) x" using that(1) region_prefix [OF bounds(2)] by blast
    then show ?thesis using m1 [OF that(2)] by (simp add: s2_def put_tags_outside [OF bounds(3)])
  qed
  have eq: "alloc_from_hole sz 0 i hp s =
      bind_res (if 0 < hs - bs then index_insert (h + bs) hp (s2\<lparr>mem := write_rest (h + bs) (hs - bs)
          (hp_end_address (heaps s2 hp)) (mem s2)\<rparr>) else Inr s2) (\<lambda>s. Inr (h + 12, s))"
    using alloc_from_hole_unaligned [OF i h bs [folded hs(1)]] by (simp add: rem s2_def hs(1) Let_def)
  show ?thesis
  proof (cases "bs = hs")
    case True
    then show ?thesis using eq t2 m2 by (intro exI [of _ s2]) simp
  next
    case False
    have rest: "20 \<le> unat (hs - bs)" using bounds(5) False by simp
    have arr: "index_region 1 hp s2 = ?arr"
      using ok index_region_grown [of hp "s\<lparr>mem := _\<rparr>" 1] by (auto simp: s2_def index_ok_def numeral_2_eq_2)
    have "index_ok 1 hp s2" using ok by (simp add: s2_def index_ok_grown numeral_2_eq_2)
    from rest_hole_written [OF this t2 bounds(3,2) rest] obtain m where
      "index_insert (h + bs) hp (s2\<lparr>mem := write_rest (h + bs) (hs - bs) (hp_end_address (heaps s2 hp)) (mem s2)\<rparr>)
        = Inr (grown_index hp (s2\<lparr>mem := m\<rparr>))" "tagged m h 0 bs" "tagged m (h + bs) 1 (hs - bs)"
      "\<And>x. \<not> in_region h (unat hs) x \<Longrightarrow> \<not> ?arr x \<Longrightarrow> m x = mem s2 x"
      unfolding arr using inside away by (auto simp: s2_def)
    moreover have "0 < hs - bs" using rest by (simp add: word_less_nat_alt)
    ultimately show ?thesis
      using eq m2 by (intro exI [of _ "grown_index hp (s2\<lparr>mem := m\<rparr>)"]) simp
  qed
qed

section \<open>Shrinking ends\<close>

lemma get_page_lookup: "\<exists>p. get_page km a 0 dir s = Inr (p, s)"
  by (simp add: get_page_def Let_def)

lemma free_frame_mem_only: "free_frame page s = s\<lparr>mem := mem (free_frame page s)\<rparr>"
  by (simp add: free_frame_def clear_frame_def Let_def)

lemma contract_loop_ends:
  assumes "0x1000 \<le> unat new_size" and "unat i < 4096 * n"
  shows "\<exists>m. contract_loop n hp new_size i s = Inr (s\<lparr>mem := m\<rparr>)"
  using assms(2)
proof (induction n arbitrary: i s)
  case (Suc n)
  show ?case
  proof (cases "new_size < i")
    case True
    then have i: "0x1000 \<le> unat i" using assms(1) by (simp add: word_less_nat_alt)
    obtain p where p: "get_page (\<lambda>_ s. Inr ((0, 0), s)) (hp_start_address (heaps s hp) + i) 0
        (kernel_directory s) s = Inr (p, s)"
      using get_page_lookup by blast
    have "unat (i - 0x1000) < 4096 * n" using Suc.prems i by (simp add: unat_sub_lem32)
    from Suc.IH [OF this, of "free_frame p s"] obtain m where
      "contract_loop n hp new_size (i - 0x1000) (free_frame p s) = Inr ((free_frame p s)\<lparr>mem := m\<rparr>)"
      by blast
    moreover have "(free_frame p s)\<lparr>mem := m\<rparr> = s\<lparr>mem := m\<rparr>"
      by (subst free_frame_mem_only) simp
    ultimately show ?thesis using True p by auto
  next
    case False
    then show ?thesis by (intro exI [of _ "mem s"]) simp
  qed
qed simp

lemma contract_size_eq:
  "contract_size n = (if bit n 12 then HEAP_MIN_SIZE else max n HEAP_MIN_SIZE)"
proof -
  have c: "(0x1000 :: u32) = push_bit 12 1" by simp
  have "n AND 0x1000 = push_bit 12 (of_bool (bit n 12))"
    unfolding c by (rule bit_word_eqI) (auto simp del: push_bit_of_1 simp: bit_simps)
  then show ?thesis
    by (cases "bit n 12") (auto simp: contract_size_def HEAP_MIN_SIZE_def Let_def max_def)
qed

lemma contract_ends:
  assumes "new_size < hp_end_address (heaps s hp) - hp_start_address (heaps s hp)"
  shows "\<exists>m. contract new_size hp s = Inr (contract_size new_size,
    s\<lparr>mem := m, heaps := (heaps s)(hp := (heaps s hp)\<lparr>hp_end_address :=
      hp_start_address (heaps s hp) + contract_size new_size\<rparr>)\<rparr>)"
proof -
  let ?i = "hp_end_address (heaps s hp) - hp_start_address (heaps s hp) - 0x1000"
  have "0x1000 \<le> unat (contract_size new_size)"
    by (simp add: contract_size_eq HEAP_MIN_SIZE_def max_def word_le_nat_alt)
  moreover have "unat ?i < 4096 * Suc max_pages"
    by (rule less_trans [OF unat_lt_u32]) (simp add: max_pages_def)
  ultimately obtain m where
    "contract_loop (Suc max_pages) hp (contract_size new_size) ?i s = Inr (s\<lparr>mem := m\<rparr>)"
    using contract_loop_ends by blast
  then show ?thesis
    using assms by (intro exI [of _ m]) (simp add: contract_def Let_def del: contract_loop.simps)
qed

section \<open>Freeing a block\<close>

lemma free_bad_header:
  assumes "p \<noteq> 0" and "h_magic (mem s) (p - 12) \<noteq> HEAP_MAGIC"
  shows "\<exists>t. free p hp s = Inl (Halted t) \<and> \<not> iflag t"
  using assms by (simp add: free_def Let_def sizeof_header_def panic_assert_def)

lemma free_bad_footer:
  assumes "p \<noteq> 0" and "h_magic (mem s) (p - 12) = HEAP_MAGIC"
    and "f_magic (mem s) (p - 12 + h_size (mem s) (p - 12) - 8) \<noteq> HEAP_MAGIC"
  shows "\<exists>t. free p hp s = Inl (Halted t) \<and> \<not> iflag t"
  using assms by (simp add: free_def Let_def sizeof_header_def sizeof_footer_def panic_assert_def)

definition hole_on_left :: "memory \<Rightarrow> u32 \<Rightarrow> bool" where
  "hole_on_left m h \<longleftrightarrow> f_magic m (h - 8) = HEAP_MAGIC \<and> h_is_hole m (f_header m (h - 8)) = 1"

definition hole_on_right :: "memory \<Rightarrow> u32 \<Rightarrow> bool" where
  "hole_on_right m h \<longleftrightarrow> h_magic m h = HEAP_MAGIC \<and> h_is_hole m h \<noteq> 0"

lemma free_tagged:
  assumes "tagged (mem s) (p - 12) b n" and "p \<noteq> 0"
  shows "free p hp s =
    (let (header, m, do_add) = unify_left (p - 12) (p - 12 + n - 8) (set_h_is_hole (p - 12) 1 (mem s))
     in bind_res (unify_right header (p - 12 + n - 8) hp (s\<lparr>mem := m\<rparr>)) (\<lambda>(footer, s).
        bind_res (if footer + 8 = hp_end_address (heaps s hp)
                  then free_contract header (p - 12 + n) hp s else Inr s) (\<lambda>s.
          if do_add then index_insert header hp s else Inr s)))"
proof -
  have hs: "h_size (mem s) (p - 12) = n" and hm: "h_magic (mem s) (p - 12) = HEAP_MAGIC"
    and fm: "f_magic (mem s) (p - 12 + n - 8) = HEAP_MAGIC"
    using assms(1) by (simp_all add: tagged_def header_at_def footer_at_def)
  have e: "p - 12 + n - 8 + 8 = p - 12 + n" by simp
  show ?thesis
    unfolding free_def Let_def sizeof_header_def sizeof_footer_def hs hm fm e
    using assms(2) by (simp split: prod.splits)
qed

section \<open>Freeing without and with neighbours\<close>

text \<open>The memory once the block is marked as a hole.\<close>

definition freed :: "u32 \<Rightarrow> memory \<Rightarrow> memory" where
  "freed h m = set_h_is_hole h 1 m"

lemma freed_outside: "x \<noteq> h + 4 \<Longrightarrow> freed h m x = m x"
  by (simp add: freed_def set_h_is_hole_def)

lemma freed_header: "header_at m h b n \<Longrightarrow> header_at (freed h m) h 1 n"
  by (simp add: header_at_def freed_def field_defs ld32_upd_other sep_def)

lemma freed_tagged:
  assumes "tagged m h b n" and "20 \<le> unat n"
  shows "tagged (freed h m) h 1 n"
proof -
  have "freed h m x = m x" if "in_region (h + n - 8) 8 x" for x
  proof (rule freed_outside)
    have "\<not> in_region h 12 x" 
      using that sep_not_in_region [OF sep_commute [THEN iffD1, OF header_footer_sep [OF assms(2), of h]]] by blast
    then show "x \<noteq> h + 4" using header_region(2) [of h] by blast
  qed
  then show ?thesis
    using assms(1) freed_header footer_at_frame unfolding tagged_def by blast
qed

lemma unify_left_none: "\<not> hole_on_left m h \<Longrightarrow> unify_left h f m = (h, m, True)"
  by (auto simp: unify_left_def hole_on_left_def sizeof_footer_def Let_def)

lemma unify_right_none: "\<not> hole_on_right (mem s) (f + 8) \<Longrightarrow> unify_right h f hp s = Inr (f, s)"
  by (auto simp: unify_right_def hole_on_right_def sizeof_footer_def Let_def)

lemma free_is_insert:
  assumes "tagged (mem s) h b n" and "h + 12 \<noteq> 0" and "m1 = freed h (mem s)"
    and "\<not> hole_on_left m1 h" and "\<not> hole_on_right m1 (h + n)" and "h + n \<noteq> hp_end_address (heaps s hp)"
  shows "free (h + 12) hp s = index_insert h hp (s\<lparr>mem := m1\<rparr>)"
  using free_tagged [OF _ assms(2), of s b n hp] assms
  by (simp add: unify_left_none unify_right_none freed_def [symmetric])

lemma free_plain:
  assumes tag: "tagged (mem s) h b n" "20 \<le> unat n" and p: "h + 12 \<noteq> 0"
    and m1: "m1 = freed h (mem s)"
    and none: "\<not> hole_on_left m1 h" "\<not> hole_on_right m1 (h + n)"
    and inner: "h + n \<noteq> hp_end_address (heaps s hp)"
    and ok: "index_ok 1 hp s" and away: "\<And>x. in_region h (unat n) x \<Longrightarrow> \<not> index_region 1 hp s x"
  shows "\<exists>m. free (h + 12) hp s = Inr (grown_index hp (s\<lparr>mem := m\<rparr>)) \<and> tagged m h 1 n \<and>
    oa_list m (hp_index (heaps (grown_index hp s) hp))
      = takeWhile (\<lambda>x. header_t_less_than m1 x h \<noteq> 0) (oa_list m1 (hp_index (heaps s hp))) @ h
        # dropWhile (\<lambda>x. header_t_less_than m1 x h \<noteq> 0) (oa_list m1 (hp_index (heaps s hp))) \<and>
    (\<forall>x. \<not> in_region h (unat n) x \<longrightarrow> \<not> index_region 1 hp s x \<longrightarrow> m x = mem s x)"
proof -
  let ?i = "hp_index (heaps s hp)"
  have free: "free (h + 12) hp s = index_insert h hp (s\<lparr>mem := m1\<rparr>)"
    by (rule free_is_insert [OF tag(1) p m1 none inner])
  have "oa_less_than (hp_index (heaps (s\<lparr>mem := m1\<rparr>) hp)) = Some header_t_less_than"
    and "oa_fits (hp_index (heaps (s\<lparr>mem := m1\<rparr>) hp))"
    using ok by (simp_all add: index_ok_def oa_fits_def)
  from index_insert_spec [OF this, of h] obtain m where
    ins: "index_insert h hp (s\<lparr>mem := m1\<rparr>) = Inr (grown_index hp (s\<lparr>mem := m1\<rparr>\<lparr>mem := m\<rparr>))"
    and list: "oa_list m (?i\<lparr>oa_size := oa_size ?i + 1\<rparr>) =
        takeWhile (\<lambda>x. header_t_less_than m1 x h \<noteq> 0) (oa_list m1 ?i) @ h
        # dropWhile (\<lambda>x. header_t_less_than m1 x h \<noteq> 0) (oa_list m1 ?i)"
    and out: "\<And>x. \<not> in_region (oa_array ?i) (4 * Suc (unat (oa_size ?i))) x \<Longrightarrow> m x = m1 x"
    by auto
  have keep: "m x = m1 x" if "\<not> index_region 1 hp s x" for x
    using that out [of x] by (simp add: index_region_def)
  have "tagged m h 1 n"
    by (rule tagged_frame [OF freed_tagged [OF tag, folded m1] _ tag(2)]) (use keep away in blast)
  moreover have "m x = mem s x" if "\<not> in_region h (unat n) x" "\<not> index_region 1 hp s x" for x
  proof -
    have "x \<noteq> h + 4"
      using that(1) header_in_block [OF tag(2)] header_region(2) [of h] by blast
    then show ?thesis using keep [OF that(2)] freed_outside by (simp add: m1)
  qed
  moreover have "free (h + 12) hp s = Inr (grown_index hp (s\<lparr>mem := m\<rparr>))" using free ins by simp
  ultimately show ?thesis using list by (intro exI [of _ m]) simp
qed

lemma unify_left_merge:
  assumes tag: "tagged m h b n" "20 \<le> unat n"
    and left: "tagged m g 1 gs" "20 \<le> unat gs" "g + gs = h" "unat gs + unat n < 4294967296"
  shows "\<exists>m'. unify_left h (h + n - 8) m = (g, m', False) \<and> tagged m' g 1 (gs + n) \<and>
    (\<forall>x. in_region g (unat (gs + n)) x \<or> m' x = m x)"
proof -
  let ?f = "h + n - 8"
  have f: "g + (gs + n) - 8 = ?f" by (simp flip: left(3))
  have "unat (gs + n) = unat gs + unat n" using left(4) by (rule unat_add_lem32)
  then have big: "20 \<le> unat (gs + n)" using left(2) by simp
  have fh: "f_magic m (h - 8) = HEAP_MAGIC" "f_header m (h - 8) = g"
    and g: "h_is_hole m g = 1" "h_size m g = gs" "h_magic m g = HEAP_MAGIC" and hn: "h_size m h = n"
    and fm: "f_magic m ?f = HEAP_MAGIC"
    using left(1) tag(1) by (simp_all add: tagged_def header_at_def footer_at_def flip: left(3))
  define m2 where "m2 = set_f_header ?f g m"
  define m3 where "m3 = set_h_size g (h_size m2 g + n) m2"
  have unify: "unify_left h ?f m = (g, m3, False)"
    by (simp add: unify_left_def sizeof_footer_def Let_def fh g hn m2_def m3_def)
  have sep: "sep ?f 8 g 12" using header_footer_sep [OF big, of g] by (simp only: f)
  have m2: "m2 x = m x" if "\<not> in_region ?f 8 x" for x
    using that footer_region(2) [of ?f x] unfolding m2_def set_f_header_def by (blast intro: st32_outside)
  have m3: "m3 x = m2 x" if "\<not> in_region g 12 x" for x
    using that header_region(3) [of g x] unfolding m3_def set_h_size_def by (blast intro: st32_outside)
  have "header_at m g 1 gs" using left(1) by (simp add: tagged_def)
  then have "header_at m2 g 1 gs"
    using m2 sep_not_in_region [OF sep] by (blast intro: header_at_frame)
  then have "header_at m3 g 1 (gs + n)"
    unfolding m3_def header_at_def field_defs by (simp add: ld32_st32_other st32_byte_other sep_def)
  moreover have "footer_at m2 ?f g"
    using fm by (simp add: m2_def footer_at_def field_defs ld32_st32_other sep_def)
  then have "footer_at m3 ?f g"
    using m3 sep_not_in_region [OF sep [unfolded sep_commute [of ?f]]] by (blast intro: footer_at_frame)
  ultimately have "tagged m3 g 1 (gs + n)" unfolding tagged_def f by blast
  moreover have "in_region g (unat (gs + n)) x \<or> m3 x = m x" for x
  proof (cases "in_region g (unat (gs + n)) x")
    case False
    then have "\<not> in_region g 12 x" and "\<not> in_region ?f 8 x"
      using header_in_block [OF big] footer_in_block [OF big, of g] unfolding f by blast+
    then show ?thesis by (simp add: m2 m3)
  qed simp
  ultimately show ?thesis using unify by blast
qed

lemma free_left:
  assumes tag: "tagged (mem s) h b n" "20 \<le> unat n" and p: "h + 12 \<noteq> 0"
    and m1: "m1 = freed h (mem s)"
    and left: "tagged m1 g 1 gs" "20 \<le> unat gs" "g + gs = h" "unat gs + unat n < 4294967296"
    and right: "\<And>m. (\<forall>x. in_region g (unat (gs + n)) x \<or> m x = m1 x) \<Longrightarrow> \<not> hole_on_right m (h + n)"
    and inner: "h + n \<noteq> hp_end_address (heaps s hp)"
  shows "\<exists>m. free (h + 12) hp s = Inr (s\<lparr>mem := m\<rparr>) \<and> tagged m g 1 (gs + n) \<and>
    (\<forall>x. in_region g (unat (gs + n)) x \<or> m x = m1 x)"
proof -
  obtain m where m: "unify_left h (h + n - 8) m1 = (g, m, False)" "tagged m g 1 (gs + n)"
    "\<forall>x. in_region g (unat (gs + n)) x \<or> m x = m1 x"
    using unify_left_merge [OF freed_tagged [OF tag, folded m1] tag(2) left] by blast
  then have "free (h + 12) hp s = Inr (s\<lparr>mem := m\<rparr>)"
    using free_tagged [OF _ p, of s b n hp] tag(1) right inner
    by (simp add: unify_right_none m1 freed_def [symmetric])
  then show ?thesis using m by blast
qed

section \<open>Freeing before a hole\<close>

lemma of_nat_prefix:
  "unat (of_nat (length (takeWhile P (oa_list m index))) :: u32) = length (takeWhile P (oa_list m index))"
proof (rule unat_of_nat_small)
  have "length (takeWhile P (oa_list m index)) \<le> unat (oa_size index)"
    using length_takeWhile_le [of P "oa_list m index"] by simp
  then show "length (takeWhile P (oa_list m index)) < 4294967296" by (rule le_less_trans) simp
qed

lemma header_resized:
  shows "header_at m h b n \<Longrightarrow> header_at (set_h_size h k m) h b k"
    and "\<not> in_region h 12 x \<Longrightarrow> set_h_size h k m x = m x"
  using header_region(3) [of h x]
  by (auto simp: header_at_def field_defs ld32_st32_other st32_byte_other sep_def intro: st32_outside)

lemma index_list_frame:
  assumes "index_ok c hp s" and "\<And>x. index_region 2 hp s x \<Longrightarrow> m x = mem s x"
  shows "oa_list m (hp_index (heaps s hp)) = oa_list (mem s) (hp_index (heaps s hp))"
  by (rule oa_list_frame) (use assms in \<open>auto simp: index_ok_def index_region_def in_region_def\<close>)

lemma unify_right_merge:
  assumes hdr: "header_at (mem s) h 1 n" "20 \<le> unat n"
    and right: "tagged (mem s) (h + n) 1 rs" "20 \<le> unat rs" "unat n + unat rs < 4294967296"
    and listed: "h + n \<in> set (oa_list (mem s) (hp_index (heaps s hp)))"
    and ok: "index_ok 2 hp s" and away: "\<And>x. in_region h (unat (n + rs)) x \<Longrightarrow> \<not> index_region 2 hp s x"
  shows "\<exists>m. unify_right h (h + n - 8) hp s = Inr (h + n + rs - 8, grown_index hp (s\<lparr>mem := m\<rparr>)) \<and>
    header_at m h 1 (n + rs) \<and> footer_at m (h + n + rs - 8) (h + n) \<and>
    (\<forall>x. \<not> in_region h 12 x \<longrightarrow> \<not> index_region 2 hp s x \<longrightarrow> m x = mem s x)"
proof -
  let ?i = "hp_index (heaps s hp)" and ?r = "h + n"
  have sum: "unat (n + rs) = unat n + unat rs" using right(3) by (rule unat_add_lem32)
  then have le: "n \<le> n + rs" by (simp add: word_le_nat_alt)
  define m2 where "m2 = set_h_size h (n + rs) (mem s)"
  have m2: "m2 x = mem s x" if "\<not> in_region h 12 x" for x
    unfolding m2_def by (rule header_resized(2) [OF that])
  have apart: "in_region h (unat (n + rs)) x \<and> \<not> in_region h 12 x" if "in_region ?r (unat rs) x" for x
  proof -
    have "in_region ?r (unat (n + rs - n)) x" using that by simp
    then show ?thesis using region_split [OF le] header_in_block [OF hdr(2)] by blast
  qed
  have r2: "tagged m2 ?r 1 rs"
    by (rule tagged_frame [OF right(1) _ right(2)]) (use apart m2 in blast)
  have "m2 x = mem s x" if "index_region 2 hp s x" for x
    using that away header_in_block [of "unat (n + rs)" h x] hdr(2) sum by (intro m2) auto
  with ok have list2: "oa_list m2 ?i = oa_list (mem s) ?i" by (rule index_list_frame)
  define k where "k = find_header_loop m2 ?i ?r 0"
  have k: "k < oa_size ?i"
    using listed of_nat_prefix_less [of "\<lambda>x. x \<noteq> ?r" m2 ?i] by (auto simp: k_def find_header_loop_eq list2)
  have "oa_fits ?i" using ok by (simp add: index_ok_def oa_fits_def)
  then obtain m where rem: "index_remove k hp (s\<lparr>mem := m2\<rparr>) = grown_index hp (s\<lparr>mem := m\<rparr>)"
    and m: "\<And>x. \<not> index_region 2 hp s x \<Longrightarrow> m x = m2 x"
    using index_remove_spec [of "s\<lparr>mem := m2\<rparr>" hp k] k
    by (auto simp: word_less_nat_alt index_region_def in_region_def)
  have "unify_right h (?r - 8) hp s = Inr (?r + rs - 8, grown_index hp (s\<lparr>mem := m\<rparr>))"
    using hdr(1) right(1) r2 k rem
    by (simp add: unify_right_def sizeof_footer_def Let_def tagged_def header_at_def m2_def [symmetric]
        k_def [symmetric])
  moreover have "header_at m h 1 (n + rs)"
  proof (rule header_at_frame)
    show "header_at m2 h 1 (n + rs)" unfolding m2_def by (rule header_resized(1) [OF hdr(1)])
    show "m x = m2 x" if "in_region h 12 x" for x
      using that away header_in_block [of "unat (n + rs)" h x] hdr(2) sum by (intro m) auto
  qed
  moreover have "footer_at m (?r + rs - 8) ?r"
  proof (rule footer_at_frame)
    show "footer_at m2 (?r + rs - 8) ?r" using r2 by (simp add: tagged_def)
    show "m x = m2 x" if "in_region (?r + rs - 8) 8 x" for x
      using apart [OF footer_in_block [OF right(2) that]] away by (intro m) blast
  qed
  moreover have "m x = mem s x" if "\<not> in_region h 12 x" "\<not> index_region 2 hp s x" for x
    using m [OF that(2)] m2 [OF that(1)] by simp
  ultimately show ?thesis by blast
qed

lemma free_right:
  assumes tag: "tagged (mem s) h b n" "20 \<le> unat n" and p: "h + 12 \<noteq> 0"
    and m1: "m1 = freed h (mem s)" and left: "\<not> hole_on_left m1 h"
    and right: "tagged m1 (h + n) 1 rs" "20 \<le> unat rs" "unat n + unat rs < 4294967296"
    and listed: "h + n \<in> set (oa_list m1 (hp_index (heaps s hp)))"
    and inner: "h + n + rs \<noteq> hp_end_address (heaps s hp)"
    and ok: "index_ok 2 hp s" and away: "\<And>x. in_region h (unat (n + rs)) x \<Longrightarrow> \<not> index_region 2 hp s x"
  shows "\<exists>t. free (h + 12) hp s = Inr t \<and> header_at (mem t) h 1 (n + rs) \<and>
    footer_at (mem t) (h + (n + rs) - 8) (h + n)"
proof -
  let ?s = "s\<lparr>mem := m1\<rparr>"
  have sum: "unat (n + rs) = unat n + unat rs" using right(3) by (rule unat_add_lem32)
  have hdr: "header_at (mem ?s) h 1 n" using freed_tagged [OF tag] by (simp add: m1 tagged_def)
  obtain m where m: "unify_right h (h + n - 8) hp ?s = Inr (h + n + rs - 8, grown_index hp (?s\<lparr>mem := m\<rparr>))"
      "header_at m h 1 (n + rs)" "footer_at m (h + n + rs - 8) (h + n)"
    using unify_right_merge [OF hdr tag(2), of rs hp] right listed ok away by auto
  let ?t = "grown_index hp (s\<lparr>mem := m\<rparr>)"
  have free: "free (h + 12) hp s = index_insert h hp ?t"
    using free_tagged [OF _ p, of s b n hp] tag(1) m(1) inner
    by (simp add: unify_left_none [OF left] m1 [symmetric] freed_def [symmetric])
  have arr: "index_region 1 hp ?t x = index_region 2 hp s x" for x
    using ok index_region_grown [of hp "s\<lparr>mem := m\<rparr>" 1 x] by (simp add: index_ok_def numeral_2_eq_2)
  have ok1: "index_ok 1 hp ?t" using ok by (simp add: index_ok_grown numeral_2_eq_2)
  then have "oa_less_than (hp_index (heaps ?t hp)) = Some header_t_less_than"
    and "oa_fits (hp_index (heaps ?t hp))"
    by (simp_all add: index_ok_def oa_fits_def)
  from index_insert_spec [OF this, of h] obtain m' where
    ins: "index_insert h hp ?t = Inr (grown_index hp (?t\<lparr>mem := m'\<rparr>))"
    and m': "\<And>x. \<not> index_region 1 hp ?t x \<Longrightarrow> m' x = m x"
    by (auto simp: index_region_def)
  have keep: "m' x = m x" if "in_region h (unat (n + rs)) x" for x
    using away [OF that] by (intro m') (simp only: arr not_False_eq_True)
  have big: "20 \<le> unat (n + rs)" using tag(2) sum by simp
  have "header_at m' h 1 (n + rs)"
    by (rule header_at_frame [OF m(2)]) (use keep header_in_block [OF big] in blast)
  moreover have e: "h + n + rs - 8 = h + (n + rs) - 8" by simp
  have "footer_at m' (h + (n + rs) - 8) (h + n)"
    by (rule footer_at_frame [OF m(3) [unfolded e]]) (use keep footer_in_block [OF big] in blast)
  ultimately show ?thesis using free ins by auto
qed

section \<open>The placement allocator and the first hole\<close>

lemma page_mask: "(0xFFFFF000 :: u32) = NOT (mask 12)"
  by (simp add: mask_eq_exp_minus_1)

lemma unat_page_floor: "unat (x AND 0xFFFFF000 :: u32) = unat x - unat x mod 4096"
proof -
  have "x AND 0xFFFFF000 = push_bit 12 (drop_bit 12 x)"
    unfolding page_mask by (rule bit_word_eqI) (auto simp: bit_simps)
  then have "x AND 0xFFFFF000 = x - take_bit 12 x"
    using bits_ident [of 12 x] by (simp add: eq_diff_eq)
  moreover have "unat (take_bit 12 x) = unat x mod 4096"
    by (simp add: unat_mod_distrib take_bit_eq_mod)
  ultimately show ?thesis by (simp add: unat_sub_lem32)
qed

definition placed_at :: "u32 \<Rightarrow> u32 \<Rightarrow> u32" where
  "placed_at align pl = (if align = 1 \<and> pl AND 0xFFFFF000 \<noteq> 0 then (pl AND 0xFFFFF000) + 0x1000 else pl)"

lemma kmalloc_int_placement:
  assumes "kheap s = 0"
  shows "kmalloc_int n sz align want s =
    Inr ((placed_at align (placement_address s), if want then placed_at align (placement_address s) else 0),
         s\<lparr>placement_address := placed_at align (placement_address s) + sz\<rparr>)"
  using assms by (simp add: kmalloc_int_def kmalloc_int_with_def placed_at_def Let_def)

lemma placed_at_bounds:
  assumes "unat pl + 0x1000 < 4294967296"
  shows "unat pl \<le> unat (placed_at align pl)" and "unat (placed_at align pl) \<le> unat pl + 0x1000"
    and "align = 1 \<Longrightarrow> 0x1000 \<le> unat pl \<Longrightarrow> unat (placed_at align pl) mod 4096 = 0"
proof -
  let ?f = "unat pl - unat pl mod 4096"
  have f: "unat (pl AND 0xFFFFF000) = ?f" by (rule unat_page_floor)
  have up: "unat ((pl AND 0xFFFFF000) + 0x1000) = ?f + 0x1000"
    using assms by (subst unat_add_lem32) (simp_all add: f)
  have m: "unat pl mod 4096 < 4096" "?f mod 4096 = 0" by (simp_all add: minus_mod_eq_mult_div)
  show "unat pl \<le> unat (placed_at align pl)" and "unat (placed_at align pl) \<le> unat pl + 0x1000"
    using up m(1) by (auto simp: placed_at_def)
  assume "align = 1" and big: "0x1000 \<le> unat pl"
  have "?f \<noteq> 0" using big m(1) by linarith
  then have "pl AND 0xFFFFF000 \<noteq> 0" using f by (metis unat_0)
  then show "unat (placed_at align pl) mod 4096 = 0"
    using \<open>align = 1\<close> up m(2) mod_add_self2 [of ?f 4096] by (simp only: placed_at_def if_True simp_thms)
qed

lemma aligned_even: "x mod 0x1000 = 0 \<Longrightarrow> (x + 0x80000 :: u32) AND 1 = 0"
proof -
  assume "x mod 0x1000 = 0"
  then have "(0x1000 :: u32) dvd x" by (rule mod_0_imp_dvd)
  moreover have "(0x1000 :: u32) = 2 * 2048" by simp
  ultimately have "even x" by (metis dvd_mult_left)
  then show ?thesis by (simp add: and_one_eq mod_2_eq_odd)
qed

text \<open>The array of a fresh index: the first hole, and zeros.\<close>

lemma fresh_index:
  assumes "0 < k" and "k < 0x20000"
  shows "oa_elem (st32 (put_header (start + 0x80000) 1 n (memset m start 0 0x80000)) start h) start k = 0"
proof -
  let ?m1 = "memset m start 0 0x80000" and ?hole = "start + 0x80000"
  have "oa_elem (st32 (put_header ?hole 1 n ?m1) (start + 4 * of_nat 0) h) start k = oa_elem (put_header ?hole 1 n ?m1) start k"
    using assms by (subst oa_elem_st32) simp_all
  also have "\<dots> = 0" unfolding oa_elem_def
  proof (rule ld32_zero)
    fix x assume "in_region (start + 4 * of_nat k) 4 x"
    then have x: "in_region start 0x80000 x" using in_region_offset [of start "4 * k" 4 x "0x80000"] assms(2) by simp
    then have "\<not> in_region ?hole 12 x"
      using sep_not_in_region [of ?hole 12 start "0x80000" x] by (simp add: sep_def)
    then show "put_header ?hole 1 n ?m1 x = 0" using x by (simp add: put_header_outside memset_eq)
  qed
  finally show ?thesis by simp
qed

lemma create_heap_spec:
  assumes boot: "kheap s = 0" and "start mod 0x1000 = 0" "end_addr mod 0x1000 = 0"
  shows "\<exists>m. create_heap n start end_addr mx sv ro s = Inr (placement_address s,
      s\<lparr>mem := m, placement_address := placement_address s + 32,
        heaps := (heaps s)(placement_address s :=
          \<lparr>hp_index = \<lparr>oa_array = start, oa_size = 1, oa_max_size = HEAP_INDEX_SIZE,
                     oa_less_than = Some header_t_less_than\<rparr>,
           hp_start_address = start + 0x80000, hp_end_address = end_addr, hp_max_address = mx,
           hp_supervisor = sv, hp_readonly = ro\<rparr>)\<rparr>) \<and>
    oa_elem m start 0 = start + 0x80000 \<and> (\<forall>k. 0 < k \<longrightarrow> k < 0x20000 \<longrightarrow> oa_elem m start k = 0) \<and>
    header_at m (start + 0x80000) 1 (end_addr - (start + 0x80000)) \<and>
    (\<forall>x. in_region start (0x80000 + 12) x \<or> m x = mem s x)"
proof -
  define hole where "hole = start + 0x80000"
  define m1 where "m1 = memset (mem s) start 0 0x80000"
  define m2 where "m2 = put_header hole 1 (end_addr - hole) m1"
  let ?m3 = "st32 m2 start hole"
  have elem: "oa_list m2 \<lparr>oa_array = start, oa_size = 0, oa_max_size = HEAP_INDEX_SIZE,
      oa_less_than = Some header_t_less_than\<rparr> = []" by (simp add: oa_list_def)
  have scan: "oa_scan m lt a 0 item 0 = 0" for m lt a item by (subst oa_scan.simps) simp
  have start: "(start + 0x80000) AND 1 = 0" using assms(2) by (rule aligned_even)
  have km: "kmalloc n 32 s = Inr (placement_address s, s\<lparr>placement_address := placement_address s + 32\<rparr>)"
    using kmalloc_int_placement [OF boot] by (simp add: kmalloc_def placed_at_def)
  have "create_heap n start end_addr mx sv ro s = Inr (placement_address s,
      s\<lparr>mem := ?m3, placement_address := placement_address s + 32,
        heaps := (heaps s)(placement_address s :=
          \<lparr>hp_index = \<lparr>oa_array = start, oa_size = 1, oa_max_size = HEAP_INDEX_SIZE,
                     oa_less_than = Some header_t_less_than\<rparr>,
           hp_start_address = start + 0x80000, hp_end_address = end_addr, hp_max_address = mx,
           hp_supervisor = sv, hp_readonly = ro\<rparr>)\<rparr>)"
    using assms(2,3) start
    by (simp add: create_heap_def km sizeof_heap_def place_ordered_array_def HEAP_INDEX_SIZE_def Let_def
        index_insert_def insert_ordered_array_def scan m2_def m1_def hole_def put_header_def set_fields_commute)
  moreover have "oa_elem ?m3 start 0 = hole" by (simp add: oa_elem_def)
  moreover have "\<forall>k. 0 < k \<longrightarrow> k < 0x20000 \<longrightarrow> oa_elem ?m3 start k = 0"
    unfolding m2_def m1_def hole_def using fresh_index by blast
  moreover have away: "sep start 0x80000 hole 12"
    by (simp add: sep_def hole_def)
  have "header_at ?m3 hole 1 (end_addr - hole)"
  proof (rule header_at_frame)
    show "header_at m2 hole 1 (end_addr - hole)" unfolding m2_def by (rule put_header_at)
    fix x assume "in_region hole 12 x"
    then have "\<not> in_region start 0x80000 x" by (rule sep_not_in_region [OF away])
    then show "?m3 x = m2 x" by (intro st32_outside) (simp add: in_region_def)
  qed
  moreover have "in_region start (0x80000 + 12) x \<or> ?m3 x = mem s x" for x
  proof (cases "in_region start (0x80000 + 12) x")
    case False
    then have "\<not> in_region start 4 x" and "\<not> in_region start 0x80000 x" and "\<not> in_region hole 12 x"
      using in_region_offset [of start "0x80000" 12 x "0x80000 + 12"]
      by (auto simp: in_region_def hole_def)
    then show ?thesis by (simp add: st32_outside m2_def put_header_outside m1_def memset_eq)
  qed simp
  ultimately show ?thesis unfolding hole_def by blast
qed

section \<open>Properties\<close>

text \<open>The position of the first hole that fits.\<close>

definition first_fit :: "memory \<Rightarrow> u32 \<Rightarrow> u8 \<Rightarrow> u32 list \<Rightarrow> nat \<Rightarrow> bool" where
  "first_fit m n pa xs k \<longleftrightarrow> k < length xs \<and> hole_fits m n pa (xs ! k) \<and>
     (\<forall>j < k. \<not> hole_fits m n pa (xs ! j))"

lemma first_fit_prefix:
  assumes "first_fit m n pa xs k"
  shows "length (takeWhile (\<lambda>h. \<not> hole_fits m n pa h) xs) = k"
proof -
  have "takeWhile (\<lambda>h. \<not> hole_fits m n pa h) xs = take k xs"
    using assms by (intro takeWhile_eq_take_P_nth) (auto simp: first_fit_def)
  then show ?thesis using assms by (simp add: first_fit_def)
qed

lemma find_smallest_hole_first:
  assumes "first_fit (mem s) n pa (oa_list (mem s) (hp_index (heaps s hp))) k"
    and "unat (oa_size (hp_index (heaps s hp))) < 4294967295"
  shows "find_smallest_hole n pa hp s = of_nat k" and "(of_nat k :: u32) \<noteq> - 1"
    and "unat (of_nat k :: u32) = k"
proof -
  have k: "k < unat (oa_size (hp_index (heaps s hp)))" using assms(1) by (simp add: first_fit_def)
  then show u: "unat (of_nat k :: u32) = k" using assms(2) by (intro unat_of_nat_small) simp
  show "find_smallest_hole n pa hp s = of_nat k"
    using first_fit_prefix [OF assms(1)] k by (simp add: find_smallest_hole_eq [OF refl] Let_def)
  have "unat (- 1 :: u32) = 4294967295" by (simp add: unsigned_minus_1_eq_mask mask_eq_exp_minus_1)
  then show "(of_nat k :: u32) \<noteq> - 1" using u k assms(2) by (metis less_trans nat_less_le)
qed

text \<open>
  C2. Allocation from the first fitting hole: \<open>alloc\<close> returns the address after a header of the
  hole's start; the block carries a header and a footer that points back, is marked as in use, and
  lies inside the hole; what is left of the hole (if there is room for a header and a footer) is a
  well-formed hole right behind it; nothing outside the old hole and the index is written.
\<close>
theorem alloc_carves_hole:
  assumes "index_ok 2 hp s"
    and "first_fit (mem s) (sz + 20) 0 (oa_list (mem s) (hp_index (heaps s hp))) k"
    and "oa_list (mem s) (hp_index (heaps s hp)) ! k = h" and "h_size (mem s) h = hs"
    and "unat sz + 20 < 4294967296" and "unat h + unat hs \<le> unat (hp_end_address (heaps s hp))"
    and "\<forall>x. in_region h (unat hs) x \<longrightarrow> \<not> index_region 2 hp s x"
    and "bs = block_size hs (sz + 20)"
  shows "\<exists>t. alloc (Suc n) sz 0 hp s = Inr (h + 12, t) \<and> tagged (mem t) h 0 bs \<and>
    sz + 20 \<le> bs \<and> bs \<le> hs \<and> (bs = hs \<or> tagged (mem t) (h + bs) 1 (hs - bs)) \<and>
    (\<forall>x. in_region h (unat hs) x \<or> index_region 2 hp s x \<or> mem t x = mem s x)"
proof -
  have small: "unat (oa_size (hp_index (heaps s hp))) < 4294967295" using assms(1) by (simp add: index_ok_def)
  note found = find_smallest_hole_first [OF assms(2) small]
  have k: "k < unat (oa_size (hp_index (heaps s hp)))" and fits: "sz + 20 \<le> hs"
    using assms(2-4) by (auto simp: first_fit_def hole_fits_unaligned)
  have big: "20 \<le> unat (sz + 20)" using assms(5) by (simp add: unat_add_lem32)
  have "alloc (Suc n) sz 0 hp s = alloc_from_hole sz 0 (of_nat k) hp s"
    using found by (simp add: alloc.simps sizeof_header_def sizeof_footer_def Let_def add.assoc)
  moreover have "\<exists>t. alloc_from_hole sz 0 (of_nat k) hp s = Inr (h + 12, t) \<and> tagged (mem t) h 0 bs \<and>
      (bs = hs \<or> tagged (mem t) (h + bs) 1 (hs - bs)) \<and>
      (\<forall>x. \<not> in_region h (unat hs) x \<longrightarrow> \<not> index_region 2 hp s x \<longrightarrow> mem t x = mem s x)"
    using found(3) k assms by (intro alloc_from_hole_spec [OF _ _ _ _ fits big]) auto
  ultimately show ?thesis using block_size_bounds(1,2) [OF fits big] assms(8) by auto
qed

definition heap_state0 :: vm where
  "heap_state0 = vm0\<lparr>mem := put_header 0x20000 1 0x1000 (st32 (\<lambda>_. 0) 0x10000 0x20000),
     heaps := (\<lambda>_. \<lparr>hp_index = \<lparr>oa_array = 0x10000, oa_size = 1, oa_max_size = 16,
         oa_less_than = Some header_t_less_than\<rparr>, hp_start_address = 0x20000,
       hp_end_address = 0x21000, hp_max_address = 0x30000, hp_supervisor = 0, hp_readonly = 0\<rparr>)\<rparr>"

lemma heap_state0_simps:
  "oa_list (mem heap_state0) (hp_index (heaps heap_state0 hp)) = [0x20000]"
  "h_size (mem heap_state0) 0x20000 = 0x1000" "hp_end_address (heaps heap_state0 hp) = 0x21000"
  "index_ok 2 hp heap_state0" "index_region k hp heap_state0 x = in_region 0x10000 (4 * (1 + k)) x"
proof -
  have "put_header 0x20000 1 0x1000 m x = m x" if "in_region 0x10000 4 x" for x m
    using that sep_not_in_region [of "0x20000" 12 "0x10000" 4 x]
    by (intro put_header_outside) (auto simp: sep_def)
  then have "ld32 (mem heap_state0) 0x10000 = ld32 (st32 (\<lambda>_. 0) 0x10000 0x20000) 0x10000"
    unfolding heap_state0_def by (intro ld32_frame) simp
  then show "oa_list (mem heap_state0) (hp_index (heaps heap_state0 hp)) = [0x20000]"
    by (simp add: heap_state0_def oa_list_def oa_elem_def)
  show "h_size (mem heap_state0) 0x20000 = 0x1000"
    using put_header_at by (simp add: heap_state0_def header_at_def)
qed (simp_all add: heap_state0_def index_ok_def index_region_def)

theorem alloc_carves_hole_witness:
  "\<exists>t. alloc 1 100 0 0 heap_state0 = Inr (0x2000C, t) \<and> tagged (mem t) 0x20000 0 120
     \<and> tagged (mem t) 0x20078 1 (0x1000 - 120)"
proof -
  have fit: "first_fit (mem heap_state0) (100 + 20) 0 (oa_list (mem heap_state0) (hp_index (heaps heap_state0 0))) 0"
    by (simp add: first_fit_def heap_state0_simps hole_fits_unaligned)
  have away: "\<forall>x. in_region 0x20000 (unat (0x1000 :: u32)) x \<longrightarrow> \<not> index_region 2 0 heap_state0 x"
    using sep_not_in_region [of "0x10000" 12 "0x20000" "0x1000"] by (simp add: heap_state0_simps sep_def)
  have "oa_list (mem heap_state0) (hp_index (heaps heap_state0 0)) ! 0 = 0x20000"
    and "unat (100 :: u32) + 20 < 4294967296"
    and "unat (0x20000 :: u32) + unat (0x1000 :: u32) \<le> unat (hp_end_address (heaps heap_state0 0))"
    and "120 = block_size 0x1000 (100 + 20)"
    by (simp_all add: heap_state0_simps block_size_def)
  from alloc_carves_hole [OF heap_state0_simps(4) fit this(1) heap_state0_simps(2) this(2,3) away this(4), of 0]
  obtain t where "alloc (Suc 0) 100 0 0 heap_state0 = Inr (0x20000 + 12, t)" "tagged (mem t) 0x20000 0 120"
    "120 = (0x1000 :: u32) \<or> tagged (mem t) (0x20000 + 120) 1 (0x1000 - 120)"
    by blast
  then show ?thesis by simp
qed

section \<open>Properties of freeing and of the search\<close>

text \<open>
  On an index sorted by size, \<open>find_smallest_hole\<close> without alignment is best fit: it returns -1
  exactly when no hole is large enough, and otherwise the position of a hole that is large enough
  and no larger than any other hole that is.
\<close>
theorem find_smallest_hole_best_fit:
  assumes "sorted (map (h_size (mem s)) (oa_list (mem s) (hp_index (heaps s hp))))"
    and "unat (oa_size (hp_index (heaps s hp))) < 4294967295"
  shows "if \<forall>h \<in> set (oa_list (mem s) (hp_index (heaps s hp))). h_size (mem s) h < n
    then find_smallest_hole n 0 hp s = - 1
    else \<exists>k. find_smallest_hole n 0 hp s = of_nat k \<and> k < length (oa_list (mem s) (hp_index (heaps s hp))) \<and>
      n \<le> h_size (mem s) (oa_list (mem s) (hp_index (heaps s hp)) ! k) \<and>
      (\<forall>h \<in> set (oa_list (mem s) (hp_index (heaps s hp))). n \<le> h_size (mem s) h \<longrightarrow>
         h_size (mem s) (oa_list (mem s) (hp_index (heaps s hp)) ! k) \<le> h_size (mem s) h)"
proof -
  let ?xs = "oa_list (mem s) (hp_index (heaps s hp))"
  let ?P = "\<lambda>h. \<not> hole_fits (mem s) n 0 h"
  let ?k = "length (takeWhile ?P ?xs)"
  have find: "find_smallest_hole n 0 hp s = (if ?k = length ?xs then - 1 else of_nat ?k)"
    by (simp only: find_smallest_hole_eq [OF refl] Let_def)
  show ?thesis
  proof (cases "\<forall>h \<in> set ?xs. h_size (mem s) h < n")
    case True
    then have "takeWhile ?P ?xs = ?xs"
      by (simp add: takeWhile_eq_all_conv hole_fits_unaligned not_le)
    then have "?k = length ?xs" by (simp only:)
    then show ?thesis using True find by simp
  next
    case False
    then have "takeWhile ?P ?xs \<noteq> ?xs"
      by (auto simp: takeWhile_eq_all_conv hole_fits_unaligned not_le)
    then have k: "?k < length ?xs"
      using takeWhile_eq_take [of ?P ?xs] length_takeWhile_le [of ?P ?xs]
      by (cases "?k = length ?xs") simp_all
    have fits: "n \<le> h_size (mem s) (?xs ! ?k)"
      using nth_length_takeWhile [OF k] by (simp add: hole_fits_unaligned)
    have "h_size (mem s) (?xs ! ?k) \<le> h_size (mem s) h" if h: "h \<in> set ?xs" "n \<le> h_size (mem s) h" for h
    proof -
      obtain j where j: "j < length ?xs" "?xs ! j = h" using h(1) by (auto simp: in_set_conv_nth)
      have "\<not> j < ?k"
      proof
        assume "j < ?k"
        then have "?P (?xs ! j)"
          using nth_mem [of j "takeWhile ?P ?xs"] takeWhile_nth [of j ?P ?xs] set_takeWhileD by metis
        then show False using h(2) j(2) by (simp add: hole_fits_unaligned)
      qed
      then show ?thesis
        using sorted_nth_mono [OF assms(1), of ?k j] k j by simp
    qed
    then show ?thesis using False find k fits by auto
  qed
qed

theorem find_smallest_hole_best_fit_witness:
  "find_smallest_hole 200 0 0 heap_state0 = 0 \<and> find_smallest_hole 0x2000 0 0 heap_state0 = - 1"
proof -
  have "unat (oa_size (hp_index (heaps heap_state0 0))) < 4294967295" by (simp add: heap_state0_def)
  then show ?thesis
    using find_smallest_hole_best_fit [of heap_state0 0 200] find_smallest_hole_best_fit [of heap_state0 0 "0x2000"]
    by (simp add: heap_state0_simps length_oa_list [symmetric] del: length_oa_list)
qed

text \<open>
  C36. \<open>free\<close> trusts no pointer: null is ignored, and a pointer without the magic number in its header
  or in the footer that the header leads to ends in the halted state with interrupts off.
\<close>
theorem free_rejects_untagged:
  assumes "h + 12 \<noteq> 0"
    and "h_magic (mem s) h \<noteq> HEAP_MAGIC \<or> f_magic (mem s) (h + h_size (mem s) h - 8) \<noteq> HEAP_MAGIC"
  shows "(\<exists>t. free (h + 12) hp s = Inl (Halted t) \<and> \<not> iflag t) \<and> free 0 hp s = Inr s"
proof -
  have "\<exists>t. free (h + 12) hp s = Inl (Halted t) \<and> \<not> iflag t"
    using free_bad_header [OF assms(1), of s hp] free_bad_footer [OF assms(1), of s hp] assms(2) by auto
  then show ?thesis by (simp add: free_def)
qed

theorem free_rejects_untagged_witness: "\<exists>t. free 0x2000C 0 heap_state0 = Inl (Halted t) \<and> \<not> iflag t"
proof -
  have "f_magic (mem heap_state0) 0x20FF8 = 0"
    by (simp add: heap_state0_def put_header_def field_defs ld32_def st32_def)
  then have "f_magic (mem heap_state0) (0x20000 + h_size (mem heap_state0) 0x20000 - 8) \<noteq> HEAP_MAGIC"
    by (simp add: heap_state0_simps HEAP_MAGIC_def)
  then show ?thesis using free_rejects_untagged [of "0x20000" heap_state0 0] by simp
qed

text \<open>
  Freeing a block between blocks in use makes it a hole with the same bounds, enters it into the
  index before the first hole that is not smaller, keeps the index sorted by size, and writes only
  the block's own header and the index.
\<close>
theorem free_enters_hole:
  assumes "tagged (mem s) h b n" and "20 \<le> unat n" and "h + 12 \<noteq> 0" and "m1 = freed h (mem s)"
    and "\<not> hole_on_left m1 h" and "\<not> hole_on_right m1 (h + n)"
    and "h + n \<noteq> hp_end_address (heaps s hp)" and "index_ok 1 hp s"
    and "\<forall>x. in_region h (unat n) x \<longrightarrow> \<not> index_region 1 hp s x"
    and "sorted (map (h_size m1) (oa_list m1 (hp_index (heaps s hp))))"
  shows "\<exists>t. free (h + 12) hp s = Inr t \<and> tagged (mem t) h 1 n \<and>
    mset (oa_list (mem t) (hp_index (heaps t hp))) = add_mset h (mset (oa_list m1 (hp_index (heaps s hp)))) \<and>
    sorted (map (h_size m1) (oa_list (mem t) (hp_index (heaps t hp)))) \<and>
    (\<forall>x. in_region h (unat n) x \<or> index_region 1 hp s x \<or> mem t x = mem s x)"
proof -
  obtain m where "free (h + 12) hp s = Inr (grown_index hp (s\<lparr>mem := m\<rparr>))" and "tagged m h 1 n"
    and "oa_list m (hp_index (heaps (grown_index hp s) hp))
      = takeWhile (\<lambda>x. header_t_less_than m1 x h \<noteq> 0) (oa_list m1 (hp_index (heaps s hp))) @ h
        # dropWhile (\<lambda>x. header_t_less_than m1 x h \<noteq> 0) (oa_list m1 (hp_index (heaps s hp)))"
    and "\<forall>x. \<not> in_region h (unat n) x \<longrightarrow> \<not> index_region 1 hp s x \<longrightarrow> m x = mem s x"
    using free_plain [OF assms(1-8)] assms(9) by blast
  then show ?thesis
    using hole_sizes.insert_sorted [OF assms(10), of h]
      hole_sizes.insert_mset [of m1 h "oa_list m1 (hp_index (heaps s hp))"]
    by (intro exI [of _ "grown_index hp (s\<lparr>mem := m\<rparr>)"]) auto
qed

text \<open>
  Freeing a block behind a hole merges the two: one hole from the start of the left one to the
  end of the block, with a header of the combined size and a footer that points to it; the index
  stays as it is and no memory outside the two changes.
\<close>
lemma free_merges_left:
  assumes "tagged (mem s) h b n" and "20 \<le> unat n" and "h + 12 \<noteq> 0" and "m1 = freed h (mem s)"
    and "tagged m1 g 1 gs" and "20 \<le> unat gs" and "g + gs = h" and "unat gs + unat n + 12 < 4294967296"
    and "\<not> hole_on_right m1 (h + n)"
    and "h + n \<noteq> hp_end_address (heaps s hp)"
  shows "\<exists>m. free (h + 12) hp s = Inr (s\<lparr>mem := m\<rparr>) \<and> tagged m g 1 (gs + n) \<and>
    (\<forall>x. in_region g (unat (gs + n)) x \<or> m x = mem s x)"
proof -
  have sum: "unat gs + unat n < 4294967296" using assms(8) by simp
  have away: "sep g (unat (gs + n)) (g + (gs + n)) 12"
  proof -
    have n: "unat (gs + n) = unat gs + unat n" by (rule unat_add_lem32 [OF sum])
    have "g - (g + (gs + n)) = 0 - (gs + n)" by simp
    moreover have "unat (0 - (gs + n)) = 4294967296 - (unat gs + unat n)"
      using n assms(6) unat_sub_wrap32 [of 0 "gs + n"] by simp
    ultimately show ?thesis using assms(8) by (simp add: sep_def)
  qed
  have none: "\<not> hole_on_right m (h + n)"
    if "\<forall>x. in_region g (unat (gs + n)) x \<or> m x = m1 x" for m
  proof -
    have same: "m x = m1 x" if "in_region (h + n) 12 x" for x
      using that \<open>\<forall>x. _ x \<or> _ x\<close> sep_not_in_region [OF away] by (auto simp: assms(7) [symmetric] add.assoc)
    then have "ld32 m (h + n) = ld32 m1 (h + n)" and "m (h + n + 4) = m1 (h + n + 4)"
      using header_region [of "h + n"] by (auto intro: ld32_frame)
    then show ?thesis using assms(9) by (simp add: hole_on_right_def field_defs)
  qed
  obtain m where m: "free (h + 12) hp s = Inr (s\<lparr>mem := m\<rparr>)" "tagged m g 1 (gs + n)"
    "\<forall>x. in_region g (unat (gs + n)) x \<or> m x = m1 x"
    using free_left [OF assms(1-7) sum _ assms(10)] none by blast
  have "m x = mem s x" if "\<not> in_region g (unat (gs + n)) x" for x
  proof -
    have "x \<noteq> h + 4"
    proof
      assume x: "x = h + 4"
      have le: "gs \<le> gs + n" using sum by (simp add: word_le_nat_alt unat_add_lem32)
      have "in_region (g + gs) (unat (gs + n - gs)) x"
        using assms(2,7) x by (simp add: in_region_def)
      then show False using region_split(1) [OF le] that by blast
    qed
    then show ?thesis using m(3) that freed_outside by (auto simp: assms(4))
  qed
  then show ?thesis using m by blast
qed

text \<open>
  Freeing a block in front of a hole adds the sizes in the header, but the footer at the end of
  the combined hole still points to the old, right-hand header.
\<close>
theorem free_right_stale_footer:
  assumes "tagged (mem s) h b n" and "20 \<le> unat n" and "h + 12 \<noteq> 0" and "m1 = freed h (mem s)"
    and "\<not> hole_on_left m1 h" and "tagged m1 (h + n) 1 rs" and "20 \<le> unat rs"
    and "unat n + unat rs < 4294967296" and "h + n \<in> set (oa_list m1 (hp_index (heaps s hp)))"
    and "h + n + rs \<noteq> hp_end_address (heaps s hp)" and "index_ok 2 hp s"
    and "\<forall>x. in_region h (unat (n + rs)) x \<longrightarrow> \<not> index_region 2 hp s x"
  shows "\<exists>t. free (h + 12) hp s = Inr t \<and> header_at (mem t) h 1 (n + rs) \<and>
    footer_at (mem t) (h + (n + rs) - 8) (h + n) \<and> \<not> tagged (mem t) h 1 (n + rs)"
proof -
  obtain t where t: "free (h + 12) hp s = Inr t" "header_at (mem t) h 1 (n + rs)"
    "footer_at (mem t) (h + (n + rs) - 8) (h + n)"
    using free_right [OF assms(1-11)] assms(12) by blast
  have "h + n \<noteq> h" using assms(2) by auto
  then have "\<not> tagged (mem t) h 1 (n + rs)" using t(3) by (simp add: tagged_def footer_at_def)
  then show ?thesis using t by blast
qed

section \<open>Three neighbours, for concrete instances\<close>

definition put_tags :: "u32 \<Rightarrow> u8 \<Rightarrow> u32 \<Rightarrow> memory \<Rightarrow> memory" where
  "put_tags h b n m = put_footer (h + n - 8) h (put_header h b n m)"

definition three_blocks :: "u8 \<Rightarrow> u8 \<Rightarrow> memory" where
  "three_blocks b c = put_tags 0x200C8 c 100 (put_tags 0x20064 0 100 (put_tags 0x20000 b 100
     (st32 (\<lambda>_. 0) 0x10000 0x200C8)))"

definition heap_state1 :: "u8 \<Rightarrow> u8 \<Rightarrow> vm" where
  "heap_state1 b c = heap_state0\<lparr>mem := three_blocks b c\<rparr>"

lemma put_tags_keeps: "20 \<le> unat n \<Longrightarrow> \<not> in_region h (unat n) x \<Longrightarrow> put_tags h b n m x = m x"
  by (simp add: put_tags_def put_tags_outside)

lemma put_tags_other:
  assumes "20 \<le> unat n" and "sep h (unat n) g (unat k)" and "20 \<le> unat k"
  shows "tagged (put_tags h b n m) g c k \<longleftrightarrow> tagged m g c k"
proof -
  have same: "put_tags h b n m x = m x" if "in_region g (unat k) x" for x
    using assms(1) sep_not_in_region [OF assms(2) that] by (rule put_tags_keeps)
  show ?thesis
  proof
    assume "tagged (put_tags h b n m) g c k"
    then show "tagged m g c k" by (rule tagged_frame [OF _ _ assms(3)]) (simp add: same)
  next
    assume "tagged m g c k"
    then show "tagged (put_tags h b n m) g c k" by (rule tagged_frame [OF _ _ assms(3)]) (simp add: same)
  qed
qed

lemma put_tags_same: "20 \<le> unat n \<Longrightarrow> tagged (put_tags h b n m) h b n"
  unfolding put_tags_def by (rule tagged_put)

lemma freed_other:
  assumes "20 \<le> unat n" and "sep (h + 4) 1 g (unat n)" and "tagged m g c n"
  shows "tagged (freed h m) g c n"
proof (rule tagged_frame [OF assms(3) _ assms(1)])
  fix x assume "in_region g (unat n) x"
  then have "\<not> in_region (h + 4) 1 x" by (rule sep_not_in_region [OF assms(2)])
  then show "freed h m x = m x" by (intro freed_outside) (auto simp: in_region_def)
qed

lemma three_blocks_tagged:
  "tagged (three_blocks b c) 0x20064 0 100" "tagged (freed 0x20064 (three_blocks b c)) 0x20000 b 100"
  "tagged (freed 0x20064 (three_blocks b c)) 0x200C8 c 100"
proof -
  show "tagged (three_blocks b c) 0x20064 0 100"
    by (simp add: three_blocks_def put_tags_same put_tags_other sep_def)
  have "tagged (three_blocks b c) 0x20000 b 100" "tagged (three_blocks b c) 0x200C8 c 100"
    by (simp_all add: three_blocks_def put_tags_same put_tags_other sep_def)
  then show "tagged (freed 0x20064 (three_blocks b c)) 0x20000 b 100"
    "tagged (freed 0x20064 (three_blocks b c)) 0x200C8 c 100"
    by (simp_all add: freed_other sep_def)
qed

lemma three_blocks_index: "ld32 (freed 0x20064 (three_blocks b c)) 0x10000 = 0x200C8"
proof -
  have "freed 0x20064 (three_blocks b c) x = st32 (\<lambda>_. 0) 0x10000 0x200C8 x" if "in_region 0x10000 4 x" for x
  proof -
    have o: "\<not> in_region 0x20000 100 x" "\<not> in_region 0x20064 100 x" "\<not> in_region 0x200C8 100 x"
      "\<not> in_region 0x20068 1 x"
      using that sep_not_in_region [of _ _ "0x10000" 4 x] by (auto simp: sep_def)
    then have "x \<noteq> 0x20068" by (auto simp: in_region_def)
    then show ?thesis
      using o by (simp add: freed_outside three_blocks_def put_tags_keeps)
  qed
  then have "ld32 (freed 0x20064 (three_blocks b c)) 0x10000 = ld32 (st32 (\<lambda>_. 0) 0x10000 0x200C8) 0x10000"
    by (rule ld32_frame)
  then show ?thesis by simp
qed

lemma heap_state1_simps:
  "mem (heap_state1 b c) = three_blocks b c"
  "hp_end_address (heaps (heap_state1 b c) hp) = 0x21000" "index_ok k hp (heap_state1 b c) \<longleftrightarrow> k < 1073741823"
  "index_region k hp (heap_state1 b c) x = in_region 0x10000 (4 * (1 + k)) x"
  "oa_list (freed 0x20064 (three_blocks b c)) (hp_index (heaps (heap_state1 b c) hp)) = [0x200C8]"
  by (auto simp: heap_state1_def heap_state0_def index_ok_def index_region_def oa_list_def oa_elem_def
      three_blocks_index)

lemma left_tags:
  assumes "tagged m 0x20000 b 100" and "tagged m 0x200C8 c 100"
  shows "hole_on_left m 0x20064 \<longleftrightarrow> b = 1" and "hole_on_right m 0x200C8 \<longleftrightarrow> c \<noteq> 0"
  using assms by (auto simp: hole_on_left_def hole_on_right_def tagged_def header_at_def footer_at_def)

lemma heap_state1_away:
  "in_region 0x20064 100 x \<Longrightarrow> \<not> in_region 0x10000 8 x"
  "in_region 0x20064 200 x \<Longrightarrow> \<not> in_region 0x10000 12 x"
  using sep_not_in_region [of "0x10000" 8 "0x20064" 100 x] sep_not_in_region [of "0x10000" 12 "0x20064" 200 x]
  by (simp_all add: sep_def)

theorem free_enters_hole_witness:
  "\<exists>t. free 0x20070 0 (heap_state1 0 0) = Inr t \<and> tagged (mem t) 0x20064 1 100 \<and>
    mset (oa_list (mem t) (hp_index (heaps t 0))) = {#0x20064, 0x200C8#}"
proof -
  note tags = three_blocks_tagged [of 0 0] left_tags [OF three_blocks_tagged(2,3) [of 0 0]]
  have away: "\<forall>x. in_region 0x20064 (unat (100 :: u32)) x \<longrightarrow> \<not> index_region 1 0 (heap_state1 0 0) x"
    using heap_state1_away(1) by (simp add: heap_state1_simps)
  have "\<exists>t. free (0x20064 + 12) 0 (heap_state1 0 0) = Inr t \<and> tagged (mem t) 0x20064 1 100 \<and>
    mset (oa_list (mem t) (hp_index (heaps t 0))) = add_mset 0x20064 (mset (oa_list
      (freed 0x20064 (three_blocks 0 0)) (hp_index (heaps (heap_state1 0 0) 0)))) \<and>
    sorted (map (h_size (freed 0x20064 (three_blocks 0 0))) (oa_list (mem t) (hp_index (heaps t 0)))) \<and>
    (\<forall>x. in_region 0x20064 (unat (100 :: u32)) x \<or> index_region 1 0 (heap_state1 0 0) x \<or>
       mem t x = mem (heap_state1 0 0) x)"
    by (rule free_enters_hole [of "heap_state1 0 0" "0x20064" 0 100])
       (use away tags in \<open>simp_all add: heap_state1_simps\<close>)
  then show ?thesis by (auto simp: heap_state1_simps)
qed

theorem free_right_stale_footer_witness:
  "\<exists>t. free 0x20070 0 (heap_state1 0 1) = Inr t \<and> header_at (mem t) 0x20064 1 200 \<and>
     footer_at (mem t) 0x20124 0x200C8"
proof -
  note tags = three_blocks_tagged [of 0 1] left_tags [OF three_blocks_tagged(2,3) [of 0 1]]
  have away: "\<forall>x. in_region 0x20064 (unat (200 :: u32)) x \<longrightarrow> \<not> index_region 2 0 (heap_state1 0 1) x"
    using heap_state1_away(2) by (simp add: heap_state1_simps)
  show ?thesis
    using free_right_stale_footer [of "heap_state1 0 1" "0x20064" 0 100 "freed 0x20064 (three_blocks 0 1)" 100 0]
      tags away by (auto simp: heap_state1_simps)
qed

section \<open>Properties of placement, creation and contraction\<close>

text \<open>
  C25. Before there is a heap, \<open>kmalloc_int\<close> hands out fresh memory: the block starts at or after the
  placement address, page-aligned on request, its physical address is the address itself, and the
  placement address moves to its end without wrapping, so that later blocks never overlap it;
  memory itself is not touched.
\<close>
theorem placement_gives_fresh_blocks:
  assumes "kheap s = 0" and "unat (placement_address s) + 0x1000 + unat sz < 4294967296"
    and "0x1000 \<le> unat (placement_address s)"
  shows "\<exists>a. kmalloc_int n sz align want s
      = Inr ((a, if want then a else 0), s\<lparr>placement_address := a + sz\<rparr>) \<and>
    unat (placement_address s) \<le> unat a \<and> unat (a + sz) = unat a + unat sz \<and>
    (align = 1 \<longrightarrow> unat a mod 4096 = 0)"
proof -
  let ?a = "placed_at align (placement_address s)"
  have "unat (placement_address s) + 0x1000 < 4294967296" using assms(2) by simp
  note bounds = placed_at_bounds [OF this, of align]
  have "unat (?a + sz) = unat ?a + unat sz"
    using bounds(2) assms(2) by (intro unat_add_lem32) simp
  then show ?thesis
    using bounds(1,3) assms(3) by (intro exI [of _ ?a]) (simp add: kmalloc_int_placement [OF assms(1)])
qed

theorem placement_gives_fresh_blocks_witness:
  "\<exists>a. kmalloc_int 0 100 1 True vm0 = Inr ((a, a), vm0\<lparr>placement_address := a + 100\<rparr>) \<and>
     0x200000 \<le> unat a \<and> unat a mod 4096 = 0"
  using placement_gives_fresh_blocks [of vm0 100 0 1 True] by auto

text \<open>
  \<open>create_heap\<close> on page-aligned bounds gives a heap whose index holds exactly one hole, which has a
  valid header, starts right after the room for the index and reaches to the end of the heap;
  only that index and that header are written.
\<close>
theorem create_heap_one_hole:
  assumes "kheap s = 0" and "start mod 0x1000 = 0" and "end_addr mod 0x1000 = 0"
  shows "\<exists>t. create_heap n start end_addr mx sv ro s = Inr (placement_address s, t) \<and>
    oa_list (mem t) (hp_index (heaps t (placement_address s))) = [start + 0x80000] \<and>
    hp_start_address (heaps t (placement_address s)) = start + 0x80000 \<and>
    hp_end_address (heaps t (placement_address s)) = end_addr \<and>
    hp_max_address (heaps t (placement_address s)) = mx \<and>
    header_at (mem t) (start + 0x80000) 1 (end_addr - (start + 0x80000)) \<and>
    placement_address t = placement_address s + sizeof_heap \<and>
    (\<forall>x. in_region start (0x80000 + 12) x \<or> mem t x = mem s x)"
  using create_heap_spec [OF assms, of n mx sv ro]
  by (force simp: oa_list_def sizeof_heap_def)

theorem create_heap_one_hole_witness:
  "\<exists>t. create_heap 0 0xC0000000 0xC0100000 0xCFFFF000 0 0 vm0 = Inr (0x200000, t) \<and>
    oa_list (mem t) (hp_index (heaps t 0x200000)) = [0xC0080000] \<and>
    header_at (mem t) 0xC0080000 1 0x80000"
proof -
  have "kheap vm0 = 0" "(0xC0000000 :: u32) mod 0x1000 = 0" "(0xC0100000 :: u32) mod 0x1000 = 0" by simp_all
  from create_heap_one_hole [OF this, of 0 "0xCFFFF000" 0 0] show ?thesis by auto
qed

text \<open>
  C35. \<open>contract\<close> always ends: when asked for less than the heap has, its page loop runs out of pages,
  the new end is the start plus the returned size, and that size is at least the minimum. The
  returned size is the requested one only if bit 12 of it is clear; otherwise it is the minimum,
  however much of the heap is in use.
\<close>
theorem contract_terminates:
  assumes "new_size < hp_end_address (heaps s hp) - hp_start_address (heaps s hp)"
  shows "\<exists>t. contract new_size hp s =
      Inr (if bit new_size 12 then HEAP_MIN_SIZE else max new_size HEAP_MIN_SIZE, t) \<and>
    hp_end_address (heaps t hp) = hp_start_address (heaps s hp)
      + (if bit new_size 12 then HEAP_MIN_SIZE else max new_size HEAP_MIN_SIZE)"
  using contract_ends [OF assms] unfolding contract_size_eq by force

theorem contract_terminates_witness:
  "\<exists>t. contract 0x91000 0 (heap_state0\<lparr>heaps := (\<lambda>_. (heaps heap_state0 0)\<lparr>hp_end_address := 0x120000\<rparr>)\<rparr>)
     = Inr (HEAP_MIN_SIZE, t)"
  using contract_terminates [of "0x91000" "heap_state0\<lparr>heaps := (\<lambda>_. (heaps heap_state0 0)\<lparr>hp_end_address := 0x120000\<rparr>)\<rparr>" 0]
  by (auto simp: heap_state0_def bit_simps)

end
