(* ===== verification/Paging.thy ===== *)
theory Paging
  imports Kheap
begin

text \<open>
  The rest of sys/paging.c: switching and cloning page directories, the page fault handler and
  the initialisation of paging. \<open>copy_page_physical\<close> is the routine of sys/process.s; it runs
  with paging off and works on the physical memory \<open>pmem\<close>, which is kept apart from the
  kernel's view \<open>mem\<close>: the frames it writes are fresh ones that no page of the kernel maps.

  The main results: the identity map of the first 4 MB gives every page the frame of the same
  number; cloning a directory whose tables all belong to the kernel shares every table; cloning
  a table skips the entries that have a frame.
\<close>

section \<open>Switching and faulting\<close>

definition switch_page_directory :: "u32 \<Rightarrow> 'a vm_scheme \<Rightarrow> 'a vm_scheme" where
  "switch_page_directory dir s =
     (let s = s\<lparr>current_directory := dir\<rparr>;
          s = s\<lparr>cr3 := ld32 (mem s) (dir_physicalAddr dir)\<rparr>
      in s\<lparr>cr0 := cr0 s OR 0x80000000\<rparr>)"

definition page_fault :: "registers \<Rightarrow> 'a vm_scheme \<Rightarrow> ('a vm_scheme, 'b) result" where
  "page_fault regs s =
     (let faulting_address = cr2 s;
          present = (r_err_code regs AND 0x1 = 0);
          rw = (r_err_code regs AND 0x2 \<noteq> 0);
          us = (r_err_code regs AND 0x4 \<noteq> 0);
          reserved = (r_err_code regs AND 0x8 \<noteq> 0);
          s = monitor_puts (bytes ''Page fault! ( '') s;
          s = (if present then monitor_puts (bytes ''present '') s else s);
          s = (if rw then monitor_puts (bytes ''read-only '') s else s);
          s = (if us then monitor_puts (bytes ''user-mode '') s else s);
          s = (if reserved then monitor_puts (bytes ''reserved '') s else s);
          s = monitor_puts (bytes '') at 0x'') s;
          s = monitor_write_hex faulting_address s;
          s = monitor_puts (bytes '' - EIP: '') s;
          s = monitor_write_hex (r_eip regs) s;
          s = monitor_puts [0x0A] s
      in panic (bytes ''Page fault'') (bytes ''sys/paging.c'') 252 s)"

section \<open>Cloning\<close>

fun copy_words :: "nat \<Rightarrow> u32 \<Rightarrow> u32 \<Rightarrow> memory \<Rightarrow> memory" where
  "copy_words 0 src dest m = m"
| "copy_words (Suc n) src dest m = copy_words n (src + 4) (dest + 4) (st32 m dest (ld32 m src))"

definition copy_page_physical :: "u32 \<Rightarrow> u32 \<Rightarrow> 'a vm_scheme \<Rightarrow> 'a vm_scheme" where
  "copy_page_physical src dest s =
     s\<lparr>pmem := copy_words 1024 src dest (pmem s), cr0 := (cr0 s AND 0x7FFFFFFF) OR 0x80000000\<rparr>"

definition copy_flag :: "nat \<Rightarrow> u32 \<Rightarrow> u32 \<Rightarrow> memory \<Rightarrow> memory" where
  "copy_flag n src dest m = (if bit (ld32 m src) n then st32 m dest (set_page_bit n True (ld32 m dest)) else m)"

definition clone_entry ::
  "u32 \<Rightarrow> u32 \<Rightarrow> nat \<Rightarrow> 'a vm_scheme \<Rightarrow> ('a vm_scheme, 'a vm_scheme) result" where
  "clone_entry src table i s =
     (let from = src + 4 * of_nat i; to = table + 4 * of_nat i in
      if page_frame (ld32 (mem s) from) \<noteq> 0 then Inr s
      else
        bind_res (alloc_frame to 0 0 s) (\<lambda>s.
          let s = s\<lparr>mem := fold (\<lambda>n. copy_flag n from to) [0, 1, 2, 3, 4] (mem s)\<rparr>
          in Inr (copy_page_physical (page_frame (ld32 (mem s) from) * 0x1000)
                    (page_frame (ld32 (mem s) to) * 0x1000) s)))"

definition clone_table ::
  "'a vm_scheme page_allocator \<Rightarrow> u32 \<Rightarrow> 'a vm_scheme \<Rightarrow> ('a vm_scheme, (u32 \<times> u32) \<times> 'a vm_scheme) result" where
  "clone_table km src s =
     bind_res (km sizeof_page_table s) (\<lambda>((table, phys), s).
       let s = s\<lparr>mem := memset (mem s) table 0 sizeof_page_directory\<rparr>
       in bind_res (fold_res (clone_entry src table) [0..<1024] s) (\<lambda>s. Inr ((table, phys), s)))"

definition clone_slot ::
  "'a vm_scheme page_allocator \<Rightarrow> u32 \<Rightarrow> u32 \<Rightarrow> nat \<Rightarrow> 'a vm_scheme \<Rightarrow> ('a vm_scheme, 'a vm_scheme) result" where
  "clone_slot km src dir i s =
     (let table = ld32 (mem s) (dir_table src (of_nat i)) in
      if table = 0 then Inr s
      else if ld32 (mem s) (dir_table (kernel_directory s) (of_nat i)) = table then
        (let s = s\<lparr>mem := st32 (mem s) (dir_table dir (of_nat i)) table\<rparr>
         in Inr (s\<lparr>mem := st32 (mem s) (dir_tablePhysical dir (of_nat i))
                   (ld32 (mem s) (dir_tablePhysical src (of_nat i)))\<rparr>))
      else
        bind_res (clone_table km table s) (\<lambda>((table, phys), s).
          let s = s\<lparr>mem := st32 (mem s) (dir_table dir (of_nat i)) table\<rparr>
          in Inr (s\<lparr>mem := st32 (mem s) (dir_tablePhysical dir (of_nat i)) (phys OR 0x07)\<rparr>)))"

definition clone_directory ::
  "'a vm_scheme page_allocator \<Rightarrow> u32 \<Rightarrow> 'a vm_scheme \<Rightarrow> ('a vm_scheme, u32 \<times> 'a vm_scheme) result" where
  "clone_directory km src s =
     bind_res (km sizeof_page_directory s) (\<lambda>((dir, phys), s).
       let s = s\<lparr>mem := memset (mem s) dir 0 sizeof_page_directory\<rparr>;
           offset = dir_tablePhysical dir 0 - dir;
           s = s\<lparr>mem := st32 (mem s) (dir_physicalAddr dir) (phys + offset)\<rparr>
       in bind_res (fold_res (clone_slot km src dir) [0..<1024] s) (\<lambda>s. Inr (dir, s)))"

section \<open>Initialisation\<close>

definition page_range :: "u32 \<Rightarrow> nat \<Rightarrow> u32 list" where
  "page_range start n = map (\<lambda>k. start + 0x1000 * of_nat k) [0..<n]"

definition make_page :: "'a vm_scheme page_allocator \<Rightarrow> u32 \<Rightarrow> 'a vm_scheme \<Rightarrow> ('a vm_scheme, 'a vm_scheme) result" where
  "make_page km i s = bind_res (get_page km i 1 (kernel_directory s) s) (\<lambda>(_, s). Inr s)"

definition map_page :: "'a vm_scheme page_allocator \<Rightarrow> u32 \<Rightarrow> 'a vm_scheme \<Rightarrow> ('a vm_scheme, 'a vm_scheme) result" where
  "map_page km i s = bind_res (get_page km i 1 (kernel_directory s) s) (\<lambda>(page, s). alloc_frame page 0 0 s)"

text \<open>The first part of \<open>initialise_paging\<close>, up to the registration of the page fault handler.\<close>

definition paging_tables :: "nat \<Rightarrow> 'a vm_scheme \<Rightarrow> ('a vm_scheme, 'a vm_scheme) result" where
  "paging_tables n s =
     (let mem_end_page = 0x1000000;
          s = s\<lparr>nframes := mem_end_page div 0x1000\<rparr>
      in bind_res (kmalloc n (INDEX_FROM_BIT (nframes s)) s) (\<lambda>(a, s).
      let s = s\<lparr>frames := a\<rparr>;
          s = s\<lparr>mem := memset (mem s) (frames s) 0 (INDEX_FROM_BIT (nframes s))\<rparr>
      in bind_res (kmalloc_a n sizeof_page_directory s) (\<lambda>(a, s).
      let s = s\<lparr>kernel_directory := a\<rparr>;
          s = s\<lparr>mem := memset (mem s) (kernel_directory s) 0 sizeof_page_directory\<rparr>;
          s = s\<lparr>mem := st32 (mem s) (dir_physicalAddr (kernel_directory s))
                        (dir_tablePhysical (kernel_directory s) 0)\<rparr>
      in bind_res (fold_res (make_page (kmalloc_ap n)) (page_range KHEAP_START 256) s) (\<lambda>s.
         bind_res (fold_res (map_page (kmalloc_ap n)) (page_range 0 1024) s) (\<lambda>s.
         fold_res (map_page (kmalloc_ap n)) (page_range KHEAP_START 256) s)))))"

definition initialise_paging :: "nat \<Rightarrow> 'a vm_scheme \<Rightarrow> ('a vm_scheme, u8 \<times> 'a vm_scheme) result" where
  "initialise_paging n s =
     bind_res (paging_tables n s) (\<lambda>s.
     let s = register_interrupt_handler 14 Page_fault s;
         s = switch_page_directory (kernel_directory s) s
     in bind_res (create_heap n KHEAP_START (KHEAP_START + KHEAP_INITIAL_SIZE) 0xCFFFF000 0 0 s) (\<lambda>(hp, s).
        let s = s\<lparr>kheap := hp\<rparr>
        in bind_res (clone_directory (kmalloc_ap n) (kernel_directory s) s) (\<lambda>(dir, s).
           let s = s\<lparr>current_directory := dir\<rparr>
           in Inr (0, switch_page_directory (current_directory s) s))))"

section \<open>The identity map\<close>

lemma fold_res_append:
  "fold_res f (xs @ ys) s = bind_res (fold_res f xs s) (fold_res f ys)"
  by (induction xs arbitrary: s) (auto simp: bind_res_def split: sum.splits)

lemma page_range_Suc: "page_range a (Suc n) = page_range a n @ [a + 0x1000 * of_nat n]"
  by (simp add: page_range_def)

lemma page_index:
  assumes "unat a mod 4194304 = 0" and "k < 1024"
  shows "(a + 0x1000 * of_nat k :: u32) div 0x1000 div 1024 = a div 0x1000 div 1024"
    and "(a + 0x1000 * of_nat k :: u32) div 0x1000 mod 1024 = of_nat k"
proof -
  obtain q where q: "unat a = 4194304 * q" using assms(1) by auto
  then have "q < 1024" using unat_lt_u32 [of a] by simp
  then have u: "unat (a + 0x1000 * of_nat k) = 4194304 * q + 4096 * k"
    using q assms(2) unat_add_of_nat [of a "4096 * k"] by simp
  have d: "(4194304 * q + 4096 * k) div 4096 = 1024 * q + k" by simp
  show "(a + 0x1000 * of_nat k :: u32) div 0x1000 div 1024 = a div 0x1000 div 1024"
    using assms(2) by (simp add: word_unat_eq_iff unat_div_distrib u d q)
  show "(a + 0x1000 * of_nat k :: u32) div 0x1000 mod 1024 = of_nat k"
    using assms(2) by (simp add: word_unat_eq_iff unat_div_distrib unat_mod_distrib u d unat_of_nat_small)
qed

lemma map_page_present:
  assumes "ld32 (mem s) (dir_table (kernel_directory s) (a div 0x1000 div 1024)) = table" and "table \<noteq> 0"
    and "unat a mod 4194304 = 0" and "k < 1024"
  shows "map_page km (a + 0x1000 * of_nat k) s = alloc_frame (table + 4 * of_nat k) 0 0 s"
  using get_page_present [of s "kernel_directory s" "a + 0x1000 * of_nat k" table km 1] assms(1,2)
  by (simp add: map_page_def page_index [OF assms(3,4)])

text \<open>What \<open>n\<close> rounds of a loop leave: the first \<open>n\<close> entries hold the frames from \<open>f\<close> on.\<close>

definition frame_entry :: "memory \<Rightarrow> u32 \<Rightarrow> nat \<Rightarrow> nat \<Rightarrow> bool" where
  "frame_entry m table f k \<longleftrightarrow> page_frame (ld32 m (table + 4 * of_nat k)) = of_nat (f + k) \<and>
     bit (ld32 m (table + 4 * of_nat k)) 0 \<and> \<not> bit (ld32 m (table + 4 * of_nat k)) 1 \<and>
     bit (ld32 m (table + 4 * of_nat k)) 2"

definition mapped_upto :: "nat \<Rightarrow> nat \<Rightarrow> u32 \<Rightarrow> 'a vm_scheme \<Rightarrow> memory \<Rightarrow> bool" where
  "mapped_upto n f table s m \<longleftrightarrow>
     (\<forall>k < n. frame_entry m table f k) \<and>
     (\<forall>x. \<not> in_region table (4 * n) x \<longrightarrow> \<not> in_region (frames s) (4 * frame_words s) x \<longrightarrow> m x = mem s x) \<and>
     (\<forall>j < frame_count s. frame_used (s\<lparr>mem := m\<rparr>) j \<longleftrightarrow> (f \<le> j \<and> j < f + n) \<or> frame_used s j)"

text \<open>
  The state before the loop: \<open>N\<close> entries without frames, and the first \<open>N\<close> free frames are those from \<open>f\<close> on.
\<close>

definition mappable :: "nat \<Rightarrow> nat \<Rightarrow> u32 \<Rightarrow> 'a vm_scheme \<Rightarrow> bool" where
  "mappable N f table s \<longleftrightarrow> N \<le> 1024 \<and> frames_ok s \<and> 0 < frame_words s \<and> f + N \<le> frame_count s
     \<and> (\<forall>j < f. frame_used s j) \<and> (\<forall>k < N. \<not> frame_used s (f + k))
     \<and> (\<forall>k < N. page_frame (ld32 (mem s) (table + 4 * of_nat k)) = 0)
     \<and> sep (frames s) (4 * frame_words s) table 4096"

lemma frames_mem [simp]:
  "frame_words (s\<lparr>mem := m\<rparr>) = frame_words s" "frame_count (s\<lparr>mem := m\<rparr>) = frame_count s"
  "frames_ok (s\<lparr>mem := m\<rparr>) = frames_ok s" "page_clear p (s\<lparr>mem := m\<rparr>) = page_clear p s"
  by (simp_all add: frame_words_def frame_count_def frames_ok_def page_clear_def)

lemma find_first_from:
  assumes "\<And>j. j < c \<Longrightarrow> P j \<longleftrightarrow> n \<le> j \<and> Q j" and "n < c" and "Q n"
  shows "find P [0..<c] = Some n"
proof -
  have "find P [0..<c] = Some ([0..<c] ! n)"
    unfolding find_Some_iff using assms by (intro exI [of _ n]) auto
  then show ?thesis using assms(2) by simp
qed

lemma entry_region: "k < 1024 \<Longrightarrow> in_region (table + 4 * of_nat k) 4 x \<Longrightarrow> k < n \<Longrightarrow> n \<le> 1024 \<Longrightarrow>
    in_region table (4 * n) x"
  using in_region_offset [of table "4 * k" 4 x "4 * n"] by simp

lemma entry_outside:
  assumes "k < 1024" and "n \<le> k" and "in_region (table + 4 * of_nat k) 4 x"
  shows "\<not> in_region table (4 * n) x"
proof -
  obtain i where i: "i < 4" "x = table + 4 * of_nat k + of_nat i" using assms(3) by (rule in_regionE)
  then have "x - table = of_nat (4 * k + i)" by simp
  moreover have "4 * k + i < 4294967296" using i(1) assms(1) by simp
  ultimately have "unat (x - table) = 4 * k + i" by (simp only: unat_of_nat_small)
  then show ?thesis using assms(2) by (simp add: in_region_def)
qed

lemma frame_entry_frame:
  assumes "frame_entry m table f k" and "\<And>x. in_region (table + 4 * of_nat k) 4 x \<Longrightarrow> m' x = m x"
  shows "frame_entry m' table f k"
proof -
  have "ld32 m' (table + 4 * of_nat k) = ld32 m (table + 4 * of_nat k)" by (rule ld32_frame) (rule assms(2))
  then show ?thesis using assms(1) by (simp add: frame_entry_def)
qed

lemma sep_sub:
  assumes "sep a n b k" and "d + l \<le> k" and "0 < l" and "0 < n"
  shows "sep a n (b + of_nat d) l"
proof -
  have ab: "n \<le> unat (b - a)" "k \<le> unat (a - b)" using assms(1) by (simp_all add: sep_def)
  then have d: "d < 4294967296" using assms(2,3) unat_lt_u32 [of "a - b"] by linarith
  have sum: "unat (b - a) = 4294967296 - unat (a - b)"
    using ab assms(4) unat_sub_wrap32 [of 0 "a - b"] assms(2,3) by simp
  have "unat (b - a + of_nat d) = unat (b - a) + d"
    using sum ab assms(2,3) unat_lt_u32 [of "a - b"] by (intro unat_add_of_nat) linarith
  moreover have "unat (a - b - of_nat d) = unat (a - b) - d"
    using ab assms(2) d by (simp add: unat_sub_lem32 unat_of_nat_small)
  ultimately show ?thesis using ab assms(2) by (simp add: sep_def algebra_simps)
qed

text \<open>The entry of round \<open>n\<close> is still empty, and the next free frame is \<open>f + n\<close>.\<close>

lemma mapped_next:
  assumes inv: "mapped_upto n f table s m" and able: "mappable N f table s" and n: "n < N"
  shows "page_frame (ld32 m (table + 4 * of_nat n)) = 0"
    and "find (\<lambda>k. \<not> frame_used (s\<lparr>mem := m\<rparr>) k) [0..<frame_count s] = Some (f + n)"
    and "page_clear (table + 4 * of_nat n) (s\<lparr>mem := m\<rparr>)"
proof -
  let ?F = "in_region (frames s) (4 * frame_words s)"
  have n': "n < 1024" using able n by (simp add: mappable_def)
  have away: "sep (frames s) (4 * frame_words s) table 4096" using able by (simp add: mappable_def)
  have "\<not> ?F x" if "in_region (table + 4 * of_nat n) 4 x" for x
    using sep_not_in_region [OF away] entry_region [OF n' that n'] by simp
  then have "m x = mem s x" if "in_region (table + 4 * of_nat n) 4 x" for x
    using inv that entry_outside [OF n' order_refl that] by (simp add: mapped_upto_def)
  then have "ld32 m (table + 4 * of_nat n) = ld32 (mem s) (table + 4 * of_nat n)" by (rule ld32_frame)
  then show "page_frame (ld32 m (table + 4 * of_nat n)) = 0" using able n by (simp add: mappable_def)
  have "\<not> frame_used (s\<lparr>mem := m\<rparr>) j \<longleftrightarrow> f + n \<le> j \<and> \<not> frame_used s j" if "j < frame_count s" for j
    using inv able that unfolding mapped_upto_def mappable_def by (meson leI not_le)
  moreover have "f + n < frame_count s" "\<not> frame_used s (f + n)" using able n by (simp_all add: mappable_def)
  ultimately show "find (\<lambda>k. \<not> frame_used (s\<lparr>mem := m\<rparr>) k) [0..<frame_count s] = Some (f + n)"
    by (intro find_first_from [where Q = "\<lambda>j. \<not> frame_used s j"])
  show "page_clear (table + 4 * of_nat n) (s\<lparr>mem := m\<rparr>)"
    using sep_sub [OF away, of "4 * n" 4] n' able by (simp add: page_clear_def mappable_def)
qed

lemma mapped_step:
  assumes inv: "mapped_upto n f table s m" and able: "mappable N f table s" and n: "n < N"
  shows "\<exists>m'. alloc_frame (table + 4 * of_nat n) 0 0 (s\<lparr>mem := m\<rparr>) = Inr (s\<lparr>mem := m'\<rparr>) \<and>
    mapped_upto (Suc n) f table s m'"
proof -
  let ?p = "table + 4 * of_nat n" and ?F = "in_region (frames s) (4 * frame_words s)" and ?s = "s\<lparr>mem := m\<rparr>"
  have n': "n < 1024" and ok: "frames_ok ?s" and away: "sep (frames s) (4 * frame_words s) table 4096"
    using able n by (simp_all add: mappable_def)
  from alloc_frame_new [of ?s ?p "f + n" 0 0] mapped_next [OF inv able n] ok obtain t where
    t: "alloc_frame ?p 0 0 ?s = Inr t" "page_frame (ld32 (mem t) ?p) = of_nat (f + n)"
      "bit (ld32 (mem t) ?p) 0" "\<not> bit (ld32 (mem t) ?p) 1" "bit (ld32 (mem t) ?p) 2"
    and used: "\<forall>j < frame_count s. frame_used t j \<longleftrightarrow> j = f + n \<or> frame_used ?s j"
    and keep: "\<forall>x. \<not> in_region ?p 4 x \<longrightarrow> \<not> ?F x \<longrightarrow> mem t x = m x"
    and upd: "t = ?s\<lparr>mem := mem t\<rparr>"
    by auto
  define m' where "m' = mem t"
  have t': "t = s\<lparr>mem := m'\<rparr>" using upd by (simp add: m'_def)
  have "frame_entry m' table f k" if "k < Suc n" for k
  proof (cases "k = n")
    case True
    then show ?thesis using t by (simp add: frame_entry_def m'_def)
  next
    case False
    then have k: "k < n" using that by simp
    then have "frame_entry m table f k" using inv by (simp add: mapped_upto_def)
    then show ?thesis
    proof (rule frame_entry_frame)
      fix x assume x: "in_region (table + 4 * of_nat k) 4 x"
      have "in_region table (4 * n) x" using entry_region [OF _ x k] k n' by simp
      then have "\<not> in_region ?p 4 x" and "in_region table 4096 x"
        using entry_outside [OF n' order_refl] n' by (auto simp: in_region_def)
      then show "m' x = m x" using keep sep_not_in_region [OF away] by (auto simp: m'_def)
    qed
  qed
  moreover have "m' x = mem s x" if "\<not> in_region table (4 * Suc n) x" "\<not> ?F x" for x
  proof -
    have "\<not> in_region ?p 4 x" using that(1) entry_region [OF n', of table x "Suc n"] n' by auto
    moreover have "\<not> in_region table (4 * n) x" using that(1) by (simp add: in_region_def)
    ultimately show ?thesis using keep inv that(2) by (simp add: m'_def mapped_upto_def)
  qed
  moreover have "frame_used (s\<lparr>mem := m'\<rparr>) j \<longleftrightarrow> (f \<le> j \<and> j < f + Suc n) \<or> frame_used s j"
    if "j < frame_count s" for j
    using used inv that unfolding t' mapped_upto_def by auto
  ultimately show ?thesis using t(1) unfolding t' mapped_upto_def by blast
qed

section \<open>The loops of the initialisation and of cloning\<close>

lemma map_pages_loop:
  assumes slot: "ld32 (mem s) (dir_table (kernel_directory s) (a div 0x1000 div 1024)) = table" "table \<noteq> 0"
    and a: "unat a mod 4194304 = 0" and able: "mappable N f table s"
    and away: "sep (frames s) (4 * frame_words s) (dir_table (kernel_directory s) (a div 0x1000 div 1024)) 4"
      "sep table 4096 (dir_table (kernel_directory s) (a div 0x1000 div 1024)) 4"
    and "n \<le> N"
  shows "\<exists>m. fold_res (map_page km) (page_range a n) s = Inr (s\<lparr>mem := m\<rparr>) \<and> mapped_upto n f table s m"
  using assms(7)
proof (induction n)
  case 0
  show ?case by (intro exI [of _ "mem s"]) (auto simp: page_range_def mapped_upto_def)
next
  case (Suc n)
  then obtain m where m: "fold_res (map_page km) (page_range a n) s = Inr (s\<lparr>mem := m\<rparr>)"
    and inv: "mapped_upto n f table s m" by auto
  let ?d = "dir_table (kernel_directory s) (a div 0x1000 div 1024)"
  have n: "n < N" "n < 1024" using Suc.prems able by (auto simp: mappable_def)
  have "ld32 m ?d = ld32 (mem s) ?d"
  proof (rule ld32_frame)
    fix x assume x: "in_region ?d 4 x"
    have "\<not> in_region table 4096 x" and g: "\<not> in_region (frames s) (4 * frame_words s) x"
      using sep_not_in_region [OF away(2) x] sep_not_in_region [OF away(1) x] by blast+
    then have "\<not> in_region table (4 * n) x" using n by (simp add: in_region_def)
    then show "m x = mem s x" using inv g by (simp add: mapped_upto_def)
  qed
  then have "map_page km (a + 0x1000 * of_nat n) (s\<lparr>mem := m\<rparr>) = alloc_frame (table + 4 * of_nat n) 0 0 (s\<lparr>mem := m\<rparr>)"
    using slot n by (intro map_page_present [OF _ _ a]) simp_all
  then show ?case
    using mapped_step [OF inv able n(1)] by (auto simp: page_range_Suc fold_res_append m)
qed

lemma dir_elems:
  "ld32 m (dir_table dir (of_nat i)) = oa_elem m dir i"
  "ld32 m (dir_tablePhysical dir (of_nat i)) = oa_elem m dir (1024 + i)"
  "ld32 m (dir_physicalAddr dir) = oa_elem m dir 2048"
  by (simp_all add: dir_table_def dir_tablePhysical_def dir_physicalAddr_def oa_elem_def algebra_simps)

lemma dir_writes:
  "st32 m (dir_table dir (of_nat i)) v = st32 m (dir + 4 * of_nat i) v"
  "st32 m (dir_tablePhysical dir (of_nat i)) v = st32 m (dir + 4 * of_nat (1024 + i)) v"
  "st32 m (dir_physicalAddr dir) v = st32 m (dir + 4 * of_nat 2048) v"
  by (simp_all add: dir_table_def dir_tablePhysical_def dir_physicalAddr_def algebra_simps)

text \<open>What \<open>n\<close> rounds leave of the clone at \<open>dir\<close> of a directory that shares all its tables.\<close>

definition cloned_upto :: "nat \<Rightarrow> u32 \<Rightarrow> u32 \<Rightarrow> u32 \<Rightarrow> memory \<Rightarrow> memory \<Rightarrow> bool" where
  "cloned_upto n src dir pa m0 m \<longleftrightarrow>
     (\<forall>i < 1024. oa_elem m dir i = (if i < n then oa_elem m0 src i else 0)) \<and>
     (\<forall>i < 1024. oa_elem m dir (1024 + i) =
        (if i < n \<and> oa_elem m0 src i \<noteq> 0 then oa_elem m0 src (1024 + i) else 0)) \<and>
     oa_elem m dir 2048 = pa \<and> (\<forall>x. in_region dir 8196 x \<or> m x = m0 x)"

lemma elem_outside_dir:
  assumes "sep dir 8196 src 8196" and "\<forall>x. in_region dir 8196 x \<or> m x = m0 x" and "i < 2049"
  shows "oa_elem m src i = oa_elem m0 src i"
proof (rule oa_elem_frame)
  fix x assume "in_region src (4 * 2049) x"
  then have "\<not> in_region dir 8196 x" using sep_not_in_region [OF assms(1)] by simp
  then show "m x = m0 x" using assms(2) by blast
qed (use assms(3) in simp_all)

lemma dir_write_outside:
  "i < 2049 \<Longrightarrow> \<not> in_region dir 8196 x \<Longrightarrow> st32 m (dir + 4 * of_nat i) v x = m x"
  by (rule st32_elem_outside [of _ 2049]) simp_all

lemma clone_slot_shared:
  assumes inv: "cloned_upto n src dir pa m0 m" and n: "n < 1024"
    and share: "oa_elem m0 src n = 0 \<or> oa_elem m0 (kernel_directory s) n = oa_elem m0 src n"
    and away: "sep dir 8196 src 8196" "sep dir 8196 (kernel_directory s) 8196"
  shows "\<exists>m'. clone_slot km src dir n (s\<lparr>mem := m\<rparr>) = Inr (s\<lparr>mem := m'\<rparr>) \<and> cloned_upto (Suc n) src dir pa m0 m'"
proof -
  have out: "\<forall>x. in_region dir 8196 x \<or> m x = m0 x" using inv by (simp add: cloned_upto_def)
  have src: "oa_elem m src n = oa_elem m0 src n" "oa_elem m (kernel_directory s) n = oa_elem m0 (kernel_directory s) n"
    using elem_outside_dir [OF away(1) out, of n] elem_outside_dir [OF away(2) out, of n] n by simp_all
  show ?thesis
  proof (cases "oa_elem m0 src n = 0")
    case True
    then have "cloned_upto (Suc n) src dir pa m0 m" using inv n by (auto simp: cloned_upto_def less_Suc_eq)
    then show ?thesis using True by (intro exI [of _ m]) (simp add: clone_slot_def dir_elems src Let_def)
  next
    case False
    let ?m1 = "st32 m (dir + 4 * of_nat n) (oa_elem m0 src n)"
    let ?m2 = "st32 ?m1 (dir + 4 * of_nat (1024 + n)) (oa_elem m0 src (1024 + n))"
    have n2: "n < 2049" "1024 + n < 2049" using n by simp_all
    have out1: "in_region dir 8196 x \<or> ?m1 x = m0 x" for x
      using out dir_write_outside [OF n2(1), of dir x m "oa_elem m0 src n"] by metis
    have out2: "in_region dir 8196 x \<or> ?m2 x = m0 x" for x
      using out1 [of x] dir_write_outside [OF n2(2), of dir x ?m1 "oa_elem m0 src (1024 + n)"] by metis
    have "oa_elem ?m1 src (1024 + n) = oa_elem m0 src (1024 + n)"
      using out1 n by (intro elem_outside_dir [OF away(1)]) auto
    then have step: "clone_slot km src dir n (s\<lparr>mem := m\<rparr>) = Inr (s\<lparr>mem := ?m2\<rparr>)"
      using False share by (simp add: clone_slot_def dir_elems dir_writes src Let_def)
    have e: "oa_elem ?m2 dir k = (if k = 1024 + n then oa_elem m0 src (1024 + n)
        else if k = n then oa_elem m0 src n else oa_elem m dir k)" if "k < 2049" for k
      using that n oa_elem_st32 [of "1024 + n" k ?m1 dir] oa_elem_st32 [of n k m dir] by auto
    have inv1: "oa_elem m dir i = (if i < n then oa_elem m0 src i else 0)"
        "oa_elem m dir (1024 + i) = (if i < n \<and> oa_elem m0 src i \<noteq> 0 then oa_elem m0 src (1024 + i) else 0)"
        "oa_elem m dir 2048 = pa" if "i < 1024" for i
      using inv that by (simp_all add: cloned_upto_def)
    have "oa_elem ?m2 dir i = (if i < Suc n then oa_elem m0 src i else 0)" if "i < 1024" for i
      using that e [of i] inv1(1) [OF that] by (simp add: less_Suc_eq)
    moreover have "oa_elem ?m2 dir (1024 + i)
        = (if i < Suc n \<and> oa_elem m0 src i \<noteq> 0 then oa_elem m0 src (1024 + i) else 0)" if "i < 1024" for i
      using that n False e [of "1024 + i"] inv1(2) [OF that] by (simp add: less_Suc_eq)
    moreover have "oa_elem ?m2 dir 2048 = pa" using n e [of 2048] inv1(3) [OF n] by simp
    ultimately have "cloned_upto (Suc n) src dir pa m0 ?m2"
      using out2 unfolding cloned_upto_def by blast
    then show ?thesis using step by blast
  qed
qed

lemma clone_loop_shared:
  assumes "cloned_upto 0 src dir pa (mem s) m"
    and "\<forall>i < 1024. oa_elem (mem s) src i = 0 \<or> oa_elem (mem s) (kernel_directory s) i = oa_elem (mem s) src i"
    and "sep dir 8196 src 8196" "sep dir 8196 (kernel_directory s) 8196" and "n \<le> 1024"
  shows "\<exists>m'. fold_res (clone_slot km src dir) [0..<n] (s\<lparr>mem := m\<rparr>) = Inr (s\<lparr>mem := m'\<rparr>) \<and>
    cloned_upto n src dir pa (mem s) m'"
  using assms(5)
proof (induction n)
  case 0
  then show ?case using assms(1) by auto
next
  case (Suc n)
  then obtain m' where m': "fold_res (clone_slot km src dir) [0..<n] (s\<lparr>mem := m\<rparr>) = Inr (s\<lparr>mem := m'\<rparr>)"
    "cloned_upto n src dir pa (mem s) m'" by auto
  have "\<exists>m''. clone_slot km src dir n (s\<lparr>mem := m'\<rparr>) = Inr (s\<lparr>mem := m''\<rparr>) \<and>
      cloned_upto (Suc n) src dir pa (mem s) m''"
    using Suc.prems assms(2-4) by (intro clone_slot_shared [OF m'(2)]) auto
  then show ?case using m'(1) by (auto simp: fold_res_append)
qed

lemma memset_dir_zero:
  assumes "i < 2049"
  shows "oa_elem (memset m dir 0 8196) dir i = 0"
proof -
  have "ld32 (memset m dir 0 8196) (dir + 4 * of_nat i) = 0"
  proof (rule ld32_zero)
    fix x assume "in_region (dir + 4 * of_nat i) 4 x"
    then have "in_region dir 8196 x"
      using in_region_offset [of dir "4 * i" 4 x 8196] assms by simp
    then show "memset m dir 0 8196 x = 0" by (simp add: memset_eq)
  qed
  then show ?thesis by (simp add: oa_elem_def)
qed

lemma clone_directory_shared:
  assumes km: "km 8196 s0 = Inr ((dir, phys), s)"
    and share: "\<forall>i < 1024. oa_elem (mem s) src i = 0 \<or> oa_elem (mem s) (kernel_directory s) i = oa_elem (mem s) src i"
    and away: "sep dir 8196 src 8196" "sep dir 8196 (kernel_directory s) 8196"
  shows "\<exists>m. clone_directory km src s0 = Inr (dir, s\<lparr>mem := m\<rparr>) \<and>
    cloned_upto 1024 src dir (phys + 4096) (mem s) m"
proof -
  let ?m1 = "memset (mem s) dir 0 8196"
  let ?m2 = "st32 ?m1 (dir + 4 * of_nat 2048) (phys + 4096)"
  have "in_region dir 8196 x \<or> ?m2 x = mem s x" for x
    using dir_write_outside [of 2048 dir x] by (cases "in_region dir 8196 x") (simp_all add: memset_eq)
  then have "cloned_upto 0 src dir (phys + 4096) (mem s) ?m2"
    unfolding cloned_upto_def by (simp add: oa_elem_st32 memset_dir_zero del: of_nat_numeral)
  from clone_loop_shared [OF this share away order_refl, of km]
  show ?thesis
    by (auto simp: clone_directory_def km sizeof_page_directory_def Let_def dir_writes dir_tablePhysical_def
        simp del: of_nat_numeral)
qed

section \<open>Cloning a table\<close>

lemma copy_flag_outside: "\<not> in_region to 4 x \<Longrightarrow> copy_flag n from to m x = m x"
  by (simp add: copy_flag_def st32_outside)

lemma copy_flag_keeps: "bit (ld32 m to) 0 \<Longrightarrow> bit (ld32 (copy_flag n from to m) to) 0"
  by (auto simp: copy_flag_def set_page_bit_def bit_simps)

lemma copy_flags:
  assumes "m' = fold (\<lambda>n. copy_flag n from to) ns m"
  shows "\<not> in_region to 4 x \<Longrightarrow> m' x = m x" and "bit (ld32 m to) 0 \<Longrightarrow> bit (ld32 m' to) 0"
  unfolding assms by (induction ns arbitrary: m) (simp_all add: copy_flag_outside copy_flag_keeps)

text \<open>One entry: a source entry with a frame is skipped, the others get a new frame and are present.\<close>

lemma clone_entry_result:
  assumes run: "clone_entry src table i s = Inr t" and ok: "frames_ok s" and clear: "page_clear (table + 4 * of_nat i) s"
    and new: "ld32 (mem s) (table + 4 * of_nat i) = 0"
  shows "frames t = frames s" and "nframes t = nframes s"
    and "\<And>x. \<not> in_region (table + 4 * of_nat i) 4 x \<Longrightarrow> \<not> in_region (frames s) (4 * frame_words s) x \<Longrightarrow> mem t x = mem s x"
    and "page_frame (ld32 (mem s) (src + 4 * of_nat i)) \<noteq> 0 \<Longrightarrow> t = s"
    and "page_frame (ld32 (mem s) (src + 4 * of_nat i)) = 0 \<Longrightarrow> bit (ld32 (mem t) (table + 4 * of_nat i)) 0"
proof -
  let ?to = "table + 4 * of_nat i" and ?from = "src + 4 * of_nat i"
  have "frames t = frames s \<and> nframes t = nframes s
    \<and> (\<forall>x. \<not> in_region ?to 4 x \<longrightarrow> \<not> in_region (frames s) (4 * frame_words s) x \<longrightarrow> mem t x = mem s x)
    \<and> (page_frame (ld32 (mem s) ?from) \<noteq> 0 \<longrightarrow> t = s)
    \<and> (page_frame (ld32 (mem s) ?from) = 0 \<longrightarrow> bit (ld32 (mem t) ?to) 0)"
  proof (cases "page_frame (ld32 (mem s) ?from) = 0")
    case True
    then obtain u where a: "alloc_frame ?to 0 0 s = Inr u"
      and t: "mem t = fold (\<lambda>n. copy_flag n ?from ?to) [0, 1, 2, 3, 4] (mem u)" "frames t = frames u" "nframes t = nframes u"
      using run by (auto simp: clone_entry_def copy_page_physical_def Let_def bind_res_eq_Inr)
    have z: "page_frame (ld32 (mem s) ?to) = 0" by (simp add: new page_frame_def)
    obtain k where "find (\<lambda>k. \<not> frame_used s k) [0..<frame_count s] = Some k"
      using a alloc_frame_full [OF z ok, of 0 0] by (cases "find (\<lambda>k. \<not> frame_used s k) [0..<frame_count s]") (auto simp: find_None_iff)
    from alloc_frame_new [OF z ok clear this, of 0 0] a
    have u: "bit (ld32 (mem u) ?to) 0" "u = s\<lparr>mem := mem u\<rparr>"
      "\<And>x. \<not> in_region ?to 4 x \<Longrightarrow> \<not> in_region (frames s) (4 * frame_words s) x \<Longrightarrow> mem u x = mem s x" by auto
    have "frames u = frames s" "nframes u = nframes s" by (subst u(2), simp)+
    then show ?thesis using True t(2,3) copy_flags [OF t(1)] u(1,3) by auto
  qed (use run in \<open>simp add: clone_entry_def\<close>)
  then show "frames t = frames s" "nframes t = nframes s"
    and "\<And>x. \<not> in_region ?to 4 x \<Longrightarrow> \<not> in_region (frames s) (4 * frame_words s) x \<Longrightarrow> mem t x = mem s x"
    and "page_frame (ld32 (mem s) ?from) \<noteq> 0 \<Longrightarrow> t = s"
    and "page_frame (ld32 (mem s) ?from) = 0 \<Longrightarrow> bit (ld32 (mem t) ?to) 0" by blast+
qed

definition entries_upto :: "nat \<Rightarrow> u32 \<Rightarrow> u32 \<Rightarrow> 'a vm_scheme \<Rightarrow> 'a vm_scheme \<Rightarrow> bool" where
  "entries_upto n src table s t \<longleftrightarrow> frames t = frames s \<and> nframes t = nframes s
     \<and> (\<forall>x. \<not> in_region table 4096 x \<longrightarrow> \<not> in_region (frames s) (4 * frame_words s) x \<longrightarrow> mem t x = mem s x)
     \<and> (\<forall>i < 1024. if i < n \<and> page_frame (oa_elem (mem s) src i) = 0 then bit (oa_elem (mem t) table i) 0
          else oa_elem (mem t) table i = 0)"

lemma entries_step:
  assumes inv: "entries_upto n src table s u" and n: "n < 1024" and run: "clone_entry src table n u = Inr t" and ok: "frames_ok s" "0 < frame_words s"
    and away: "sep (frames s) (4 * frame_words s) table 4096" "sep (frames s) (4 * frame_words s) src 4096" "sep table 4096 src 4096"
  shows "entries_upto (Suc n) src table s t"
proof -
  have u: "frames u = frames s" "nframes u = nframes s" "frame_words u = frame_words s"
    and out: "\<And>x. \<not> in_region table 4096 x \<Longrightarrow> \<not> in_region (frames s) (4 * frame_words s) x \<Longrightarrow> mem u x = mem s x"
    and el: "\<And>i. i < 1024 \<Longrightarrow> if i < n \<and> page_frame (oa_elem (mem s) src i) = 0 then bit (oa_elem (mem u) table i) 0
          else oa_elem (mem u) table i = 0"
    using inv by (auto simp: entries_upto_def frame_words_def)
  let ?to = "table + 4 * of_nat n"
  have src: "oa_elem (mem u) src n = oa_elem (mem s) src n"
    using sep_not_in_region [OF away(2)] sep_not_in_region [OF away(3)] n by (intro oa_elem_frame [of src 1024] out) auto
  have to: "in_region ?to 4 x \<Longrightarrow> in_region table 4096 x" for x
    using in_region_offset [of table "4 * n" 4 x 4096] n by simp
  have clear: "page_clear (table + 4 * of_nat i) u" if "i < 1024" for i
    using sep_sub [OF away(1), of "4 * i" 4] that ok(2) by (simp add: page_clear_def u)
  have new: "ld32 (mem u) ?to = 0" using el [OF n] by (simp add: oa_elem_def)
  have ok': "frames_ok u" using ok(1) u(3) by (simp add: frames_ok_def)
  note step = clone_entry_result [OF run ok' clear [OF n] new]
  have other: "oa_elem (mem t) table i = oa_elem (mem u) table i" if "i < 1024" "i \<noteq> n" for i
    unfolding oa_elem_def
  proof (rule ld32_frame, rule step(3))
    fix x assume x: "in_region (table + 4 * of_nat i) 4 x"
    show "\<not> in_region ?to 4 x"
      using sep_not_in_region [OF sep_index [of n i 4 table]] x that n by simp
    show "\<not> in_region (frames u) (4 * frame_words u) x"
      using sep_not_in_region [OF clear [OF that(1), unfolded page_clear_def]] x by simp
  qed
  have "if i < Suc n \<and> page_frame (oa_elem (mem s) src i) = 0 then bit (oa_elem (mem t) table i) 0
      else oa_elem (mem t) table i = 0" if "i < 1024" for i
  proof (cases "i = n")
    case True
    then show ?thesis using step(4,5) src new by (auto simp: oa_elem_def)
  next
    case False
    then have "i < Suc n \<longleftrightarrow> i < n" by auto
    then show ?thesis using el [OF that] other [OF that False] by simp
  qed
  moreover have "mem t x = mem s x" if "\<not> in_region table 4096 x" "\<not> in_region (frames s) (4 * frame_words s) x" for x
    using step(3) [of x] to [of x] out that by (auto simp: u)
  ultimately show ?thesis using step(1,2) u(1,2) by (simp add: entries_upto_def)
qed

lemma clone_entries:
  assumes run: "fold_res (clone_entry src table) [0..<n] s = Inr t" and "n \<le> 1024" and ok: "frames_ok s" "0 < frame_words s"
    and away: "sep (frames s) (4 * frame_words s) table 4096" "sep (frames s) (4 * frame_words s) src 4096" "sep table 4096 src 4096"
    and blank: "\<And>i. i < 1024 \<Longrightarrow> oa_elem (mem s) table i = 0"
  shows "entries_upto n src table s t"
  using run assms(2)
proof (induction n arbitrary: t)
  case 0
  then show ?case using blank by (simp add: entries_upto_def)
next
  case (Suc n)
  then obtain u where "fold_res (clone_entry src table) [0..<n] s = Inr u" "clone_entry src table n u = Inr t"
    by (auto simp: fold_res_append bind_res_eq_Inr)
  then show ?case using entries_step [OF Suc.IH _ _ ok away] Suc.prems(2) by simp
qed

section \<open>Properties\<close>

lemma fold_res_id: "(\<And>x. x \<in> set xs \<Longrightarrow> f x s = Inr s) \<Longrightarrow> fold_res f xs s = Inr s"
  by (induction xs) auto

lemma terminal_iflag [simp]: "terminal_of (s\<lparr>iflag := b\<rparr>) = terminal_of s"
  by (simp add: terminal_of_def)

definition page_fault_text :: "u32 \<Rightarrow> u32 \<Rightarrow> u32 \<Rightarrow> u8 list" where
  "page_fault_text err addr eip = bytes ''Page fault! ( ''
     @ (if err AND 0x1 = 0 then bytes ''present '' else []) @ (if err AND 0x2 \<noteq> 0 then bytes ''read-only '' else [])
     @ (if err AND 0x4 \<noteq> 0 then bytes ''user-mode '' else []) @ (if err AND 0x8 \<noteq> 0 then bytes ''reserved '' else [])
     @ bytes '') at 0x'' @ bytes ''0x'' @ hexadecimal (unat addr) @ bytes '' - EIP: '' @ bytes ''0x''
     @ hexadecimal (unat eip) @ [0x0A]"

lemma page_fault_puts:
  "page_fault regs s = panic (bytes ''Page fault'') (bytes ''sys/paging.c'') 252
     (monitor_puts (page_fault_text (r_err_code regs) (cr2 s) (r_eip regs)) s)"
  by (simp add: page_fault_def page_fault_text_def monitor_write_hex_hexadecimal Let_def)

text \<open>
  A page fault is fatal and reported: the handler never returns, interrupts are off in the halted state, and the screen shows the words for
  bits 0 to 3 of the error code, the faulting address (with 0x twice) and the instruction pointer, followed by the panic message. The
  word \<^verbatim>\<open>present\<close> comes exactly when bit 0 is clear, that is when the page was \<^emph>\<open>not\<close> present, and bit 4, the
  instruction fetch, is not reported.
\<close>
theorem page_fault_reports_and_halts:
  assumes "cursor_ok s"
  shows "\<exists>t. page_fault regs s = Inl (Halted t) \<and> \<not> iflag t \<and> cursor_ok t \<and>
    terminal_of t = fold term_put (page_fault_text (r_err_code regs) (cr2 s) (r_eip regs)
      @ bytes ''PANIC('' @ bytes ''Page fault'' @ bytes '') at '' @ bytes ''sys/paging.c'' @ bytes '':''
      @ decimal 252 @ [0x0A] @ bytes ''Computer halting now!'' @ [0x0A]) (terminal_of s)"
proof -
  let ?a = "page_fault_text (r_err_code regs) (cr2 s) (r_eip regs)"
  let ?b = "bytes ''PANIC('' @ bytes ''Page fault'' @ bytes '') at '' @ bytes ''sys/paging.c'' @ bytes '':''
      @ decimal (unat (252 :: u32)) @ [0x0A] @ bytes ''Computer halting now!'' @ [0x0A]"
  let ?s = "(monitor_puts ?a s)\<lparr>iflag := False\<rparr>"
  have ok: "cursor_ok ?s" using monitor_puts_ok [OF assms] by simp
  have "page_fault regs s = Inl (Halted (monitor_puts ?b ?s))"
    unfolding page_fault_puts panic_def by (subst panic_report_puts) simp_all
  moreover have "terminal_of (monitor_puts ?b ?s) = fold term_put ?b (fold term_put ?a (terminal_of s))"
    using vga.puts_view [OF ok, of ?b] vga.puts_view [OF assms, of ?a] by (simp add: monitor_puts_def)
  ultimately show ?thesis
    using monitor_puts_ok [OF ok, of ?b] by (intro exI [of _ "monitor_puts ?b ?s"]) simp
qed

theorem page_fault_reports_and_halts_witness:
  "\<exists>t. page_fault (regs0\<lparr>r_err_code := 6, r_eip := 0x1234\<rparr>) vm0 = Inl (Halted t) \<and> \<not> iflag t"
  using page_fault_reports_and_halts [of vm0 "regs0\<lparr>r_err_code := 6, r_eip := 0x1234\<rparr>"]
  by (auto simp: cursor_ok_def)

text \<open>
  The identity map: when the first 1024 frames are free, mapping the pages below 4 MB one after
  the other gives page \<open>k\<close> frame \<open>k\<close>, present, readable for user mode and not writeable, and takes
  exactly those 1024 frames.
\<close>
theorem low_memory_identity_mapped:
  assumes "ld32 (mem s) (dir_table (kernel_directory s) 0) = table" and "table \<noteq> 0"
    and "frames_ok s" and "1024 \<le> frame_count s" and "\<forall>k < 1024. \<not> frame_used s k"
    and "\<forall>k < 1024. page_frame (ld32 (mem s) (table + 4 * of_nat k)) = 0"
    and "sep (frames s) (4 * frame_words s) table 4096"
    and "sep (frames s) (4 * frame_words s) (dir_table (kernel_directory s) 0) 4"
    and "sep table 4096 (dir_table (kernel_directory s) 0) 4"
  shows "\<exists>m. fold_res (map_page km) (page_range 0 1024) s = Inr (s\<lparr>mem := m\<rparr>) \<and>
    (\<forall>k < 1024. page_frame (ld32 m (table + 4 * of_nat k)) = of_nat k \<and>
       bit (ld32 m (table + 4 * of_nat k)) 0 \<and> \<not> bit (ld32 m (table + 4 * of_nat k)) 1 \<and>
       bit (ld32 m (table + 4 * of_nat k)) 2) \<and>
    (\<forall>j < frame_count s. frame_used (s\<lparr>mem := m\<rparr>) j \<longleftrightarrow> j < 1024 \<or> frame_used s j)"
proof -
  have "mappable 1024 0 table s" using assms by (simp add: mappable_def frame_count_def)
  from map_pages_loop [of s 0 table 1024 0 1024 km, OF _ _ _ this] assms(1,2,8,9)
  show ?thesis unfolding mapped_upto_def frame_entry_def by auto
qed

theorem low_memory_identity_mapped_witness:
  "\<exists>m. fold_res (map_page (\<lambda>_ s. Inr ((0, 0), s))) (page_range 0 1024)
      (vm0\<lparr>nframes := 4096, mem := st32 (\<lambda>_. 0) 0x3000 0x6000\<rparr>)
    = Inr (vm0\<lparr>nframes := 4096, mem := m\<rparr>) \<and> page_frame (ld32 m (0x6000 + 4 * of_nat 5)) = of_nat 5"
proof -
  let ?s = "vm0\<lparr>nframes := 4096, mem := st32 (\<lambda>_. 0) 0x3000 0x6000\<rparr>"
  have z: "ld32 (st32 (\<lambda>_. 0) 0x3000 0x6000) a = 0" if "sep 0x3000 4 a 4" for a
    using that by (simp add: ld32_st32_other)
  have words: "frame_words ?s = 128" by (simp add: frame_words_def INDEX_FROM_BIT_def)
  have bits: "\<not> frame_used ?s k" if "k < 1024" for k
  proof -
    have "sep 0x2000 4096 (0x3000 :: u32) 4" by (simp add: sep_def)
    then have "sep 0x3000 4 (0x2000 + of_nat (4 * (k div 32))) 4"
      using that sep_sub [of "0x3000" 4 "0x2000" 4096 "4 * (k div 32)" 4] by (simp add: sep_commute)
    then show ?thesis by (simp add: frame_used_def frames_word_def z)
  qed
  have entries: "page_frame (ld32 (mem ?s) (0x6000 + 4 * of_nat k)) = 0" if "k < 1024" for k
  proof -
    have "sep 0x3000 4 (0x6000 :: u32) 4096" by (simp add: sep_def)
    then have "sep 0x3000 4 (0x6000 + of_nat (4 * k)) 4"
      using that sep_sub [of "0x3000" 4 "0x6000" 4096 "4 * k" 4] by simp
    then show ?thesis by (simp add: z page_frame_def)
  qed
  have "\<exists>m. fold_res (map_page (\<lambda>_ s. Inr ((0, 0), s))) (page_range 0 1024) ?s = Inr (?s\<lparr>mem := m\<rparr>) \<and>
    (\<forall>k < 1024. page_frame (ld32 m (0x6000 + 4 * of_nat k)) = of_nat k \<and>
       bit (ld32 m (0x6000 + 4 * of_nat k)) 0 \<and> \<not> bit (ld32 m (0x6000 + 4 * of_nat k)) 1 \<and>
       bit (ld32 m (0x6000 + 4 * of_nat k)) 2) \<and>
    (\<forall>j < frame_count ?s. frame_used (?s\<lparr>mem := m\<rparr>) j \<longleftrightarrow> j < 1024 \<or> frame_used ?s j)"
    by (rule low_memory_identity_mapped)
       (use bits entries words in \<open>simp_all add: frames_ok_def frame_count_def dir_table_def sep_def\<close>)
  then obtain m where a: "fold_res (map_page (\<lambda>_ s. Inr ((0, 0), s))) (page_range 0 1024) ?s = Inr (?s\<lparr>mem := m\<rparr>)"
    and b: "\<forall>k < 1024. page_frame (ld32 m (0x6000 + 4 * of_nat k)) = of_nat k" by blast
  have "page_frame (ld32 m (0x6000 + 4 * of_nat 5)) = of_nat 5" by (rule b [rule_format]) simp
  then show ?thesis using a by (intro exI [of _ m]) simp
qed

text \<open>
  C18. Cloning a directory whose tables are all kernel tables (the one the kernel clones when paging
  starts) shares every table: the clone has the same tables and the same physical entries, its
  physical address is that of its own second array, and nothing outside the new directory changes.
\<close>
theorem clone_shares_kernel_tables:
  assumes "km 8196 s0 = Inr ((dir, phys), s)"
    and "\<forall>i < 1024. ld32 (mem s) (dir_table src (of_nat i)) = 0 \<or>
      ld32 (mem s) (dir_table (kernel_directory s) (of_nat i)) = ld32 (mem s) (dir_table src (of_nat i))"
    and "sep dir 8196 src 8196" and "sep dir 8196 (kernel_directory s) 8196"
  shows "\<exists>m. clone_directory km src s0 = Inr (dir, s\<lparr>mem := m\<rparr>) \<and>
    (\<forall>i < 1024. ld32 m (dir_table dir (of_nat i)) = ld32 (mem s) (dir_table src (of_nat i)) \<and>
       (ld32 m (dir_table dir (of_nat i)) = 0 \<or>
        ld32 m (dir_tablePhysical dir (of_nat i)) = ld32 (mem s) (dir_tablePhysical src (of_nat i)))) \<and>
    ld32 m (dir_physicalAddr dir) = phys + 4096 \<and> (\<forall>x. in_region dir 8196 x \<or> m x = mem s x)"
proof -
  obtain m where m: "clone_directory km src s0 = Inr (dir, s\<lparr>mem := m\<rparr>)"
    "cloned_upto 1024 src dir (phys + 4096) (mem s) m"
    using clone_directory_shared [of km s0 dir phys s src] assms unfolding dir_elems by blast
  then show ?thesis unfolding cloned_upto_def dir_elems by (intro exI [of _ m]) auto
qed

theorem clone_shares_kernel_tables_witness:
  "\<exists>m. clone_directory (\<lambda>_ s. Inr ((0x8000, 0x8000), s)) 0x3000 vm0 = Inr (0x8000, vm0\<lparr>mem := m\<rparr>) \<and>
     ld32 m (dir_physicalAddr 0x8000) = 0x9000"
  using clone_shares_kernel_tables [of "\<lambda>_ s. Inr ((0x8000, 0x8000), s)" vm0 "0x8000" "0x8000" vm0 "0x3000"]
  by (auto simp: sep_def)

text \<open>
  \<open>clone_table\<close> has its condition the wrong way round and clears too much: of a table whose
  entries all have frames nothing is copied, the new table is blank; and it clears the 8196 bytes
  of a page directory, more than twice the page table it has allocated.
\<close>
theorem clone_table_of_mapped_is_blank:
  assumes "km 4096 s0 = Inr ((table, phys), s)" and "sep table 8196 src 4096"
    and "\<forall>i < 1024. page_frame (ld32 (mem s) (src + 4 * of_nat i)) \<noteq> 0"
  shows "clone_table km src s0 = Inr ((table, phys),
    s\<lparr>mem := (\<lambda>x. if in_region table 8196 x then 0 else mem s x)\<rparr>)"
proof -
  let ?m = "\<lambda>x. if in_region table 8196 x then 0 else mem s x"
  have "clone_entry src table i (s\<lparr>mem := ?m\<rparr>) = Inr (s\<lparr>mem := ?m\<rparr>)" if "i < 1024" for i
  proof -
    have "oa_elem ?m src i = oa_elem (mem s) src i"
    proof (rule oa_elem_frame)
      fix x assume "in_region src (4 * 1024) x"
      then have "\<not> in_region table 8196 x" using sep_not_in_region [OF assms(2)] by simp
      then show "?m x = mem s x" by simp
    qed (use that in simp_all)
    then show ?thesis using assms(3) that by (simp add: clone_entry_def Let_def oa_elem_def)
  qed
  then have "fold_res (clone_entry src table) [0..<1024] (s\<lparr>mem := ?m\<rparr>) = Inr (s\<lparr>mem := ?m\<rparr>)"
    by (intro fold_res_id) simp
  then show ?thesis
    using assms(1)
    by (simp add: clone_table_def sizeof_page_table_def sizeof_page_directory_def memset_eq Let_def)
qed

theorem clone_table_of_mapped_is_blank_witness:
  "clone_table (\<lambda>_ s. Inr ((0x8000, 0x8000), s)) 0x4000 (vm0\<lparr>mem := (\<lambda>_. 0x11)\<rparr>)
     = Inr ((0x8000, 0x8000), vm0\<lparr>mem := (\<lambda>x. if in_region 0x8000 8196 x then 0 else 0x11)\<rparr>)"
proof -
  have "ld32 (\<lambda>_. 0x11) a = 0x11111111" for a by (simp add: ld32_def)
  then show ?thesis
    using clone_table_of_mapped_is_blank [of "\<lambda>_ s. Inr ((0x8000, 0x8000), s)" "vm0\<lparr>mem := (\<lambda>_. 0x11)\<rparr>"
      "0x8000" "0x8000" "vm0\<lparr>mem := (\<lambda>_. 0x11)\<rparr>" "0x4000"]
    by (simp add: sep_def page_frame_def cong: if_cong)
qed

text \<open>
  C33. A clone of a page table maps exactly the pages that the original does not: where \<open>clone_table\<close> returns, every entry of the source with a frame
  has become a blank entry, not present, in the clone, and every entry without one has become a present entry. (The condition is the
  wrong way round: such a page should have been copied.) Of the rest of the memory only the bitset of frames and the
  8196 bytes that are cleared behind the new table's start have changed.
\<close>
theorem clone_table_drops_mapped_pages:
  assumes "km 4096 s0 = Inr ((table, phys), s)" and "clone_table km src s0 = Inr ((table', phys'), t)" and "frames_ok s"
    and "0 < frame_words s" and "sep table 8196 src 4096" and "sep table 8196 (frames s) (4 * frame_words s)" and "sep (frames s) (4 * frame_words s) src 4096"
  shows "table' = table \<and> phys' = phys
    \<and> (\<forall>i < 1024. if page_frame (ld32 (mem s) (src + 4 * of_nat i)) \<noteq> 0 then ld32 (mem t) (table + 4 * of_nat i) = 0
         else bit (ld32 (mem t) (table + 4 * of_nat i)) 0)
    \<and> (\<forall>x. in_region table 8196 x \<or> in_region (frames s) (4 * frame_words s) x \<or> mem t x = mem s x)"
proof -
  let ?s = "s\<lparr>mem := memset (mem s) table 0 8196\<rparr>"
  have run: "fold_res (clone_entry src table) [0..<1024] ?s = Inr t" and eq: "table' = table" "phys' = phys"
    using assms(1,2) by (auto simp: clone_table_def sizeof_page_table_def sizeof_page_directory_def Let_def bind_res_eq_Inr)
  have w: "frame_words ?s = frame_words s" by (simp add: frame_words_def)
  have "sep table 4096 b n" if "sep table 8196 b n" for b and n :: nat using that by (simp add: sep_def)
  then have away: "sep table 4096 src 4096" "sep (frames s) (4 * frame_words s) table 4096"
    using assms(5,6) sep_commute by blast+
  have e: "entries_upto 1024 src table ?s t"
    by (rule clone_entries [OF run]) (use assms(3,4,7) away memset_dir_zero [of _ "mem s" table] in \<open>simp_all add: w frames_ok_def\<close>)
  have src: "oa_elem (mem ?s) src i = oa_elem (mem s) src i" if "i < 1024" for i
    using that sep_not_in_region [OF assms(5)] by (intro oa_elem_frame [of src 1024]) (auto simp: memset_eq)
  have "mem t x = mem s x" if x: "\<not> in_region table 8196 x" "\<not> in_region (frames s) (4 * frame_words s) x" for x
  proof -
    have "\<not> in_region table 4096 x" using x(1) in_region_mono [of table 4096 x 8196] by auto
    then have "mem t x = memset (mem s) table 0 8196 x" using e x(2) by (simp add: entries_upto_def w)
    then show ?thesis using x(1) by (simp add: memset_eq)
  qed
  then have "\<forall>x. in_region table 8196 x \<or> in_region (frames s) (4 * frame_words s) x \<or> mem t x = mem s x" by blast
  moreover have "if page_frame (ld32 (mem s) (src + 4 * of_nat i)) \<noteq> 0 then ld32 (mem t) (table + 4 * of_nat i) = 0
         else bit (ld32 (mem t) (table + 4 * of_nat i)) 0" if "i < 1024" for i
  proof -
    have "if i < 1024 \<and> page_frame (oa_elem (mem ?s) src i) = 0 then bit (oa_elem (mem t) table i) 0 else oa_elem (mem t) table i = 0"
      using e that unfolding entries_upto_def by blast
    then show ?thesis unfolding src [OF that] using that by (simp add: oa_elem_def split: if_splits)
  qed
  ultimately show ?thesis using eq by blast
qed

theorem clone_table_drops_mapped_pages_witness:
  "\<exists>t. clone_table (\<lambda>_ s. Inr ((0x8000, 0x8000), s)) 0x4000 (vm0\<lparr>mem := (\<lambda>_. 0x11)\<rparr>) = Inr ((0x8000, 0x8000), t)
     \<and> page_frame (ld32 (\<lambda>_. 0x11) 0x400C) = 0x11111 \<and> ld32 (mem t) 0x800C = 0"
proof -
  let ?km = "\<lambda>_ s. Inr ((0x8000, 0x8000), s) :: (vm, (u32 \<times> u32) \<times> vm) result" and ?s = "vm0\<lparr>mem := (\<lambda>_. 0x11)\<rparr> :: vm"
  have v: "ld32 (\<lambda>_. 0x11) a = 0x11111111" for a by (simp add: ld32_def)
  have "\<forall>i < 1024. page_frame (ld32 (mem ?s) (0x4000 + 4 * of_nat i)) \<noteq> 0" by (simp add: v page_frame_def)
  then obtain t where t: "clone_table ?km 0x4000 ?s = Inr ((0x8000, 0x8000), t)"
    using clone_table_of_mapped_is_blank [of ?km ?s "0x8000" "0x8000" ?s "0x4000"] by (auto simp: sep_def)
  have sep: "sep 0x8000 8196 (0x4000 :: u32) 4096" by (simp add: sep_def)
  have fr: "frames_ok ?s" "0 < frame_words ?s" "sep 0x8000 8196 (frames ?s) (4 * frame_words ?s)" "sep (frames ?s) (4 * frame_words ?s) 0x4000 4096"
    by (simp_all add: frames_ok_def frame_words_def vm0_frames sep_def INDEX_FROM_BIT_def)
  from clone_table_drops_mapped_pages [OF refl t fr(1,2) sep fr(3,4)]
  have "\<forall>i < 1024. if page_frame (ld32 (mem ?s) (0x4000 + 4 * of_nat i)) \<noteq> 0 then ld32 (mem t) (0x8000 + 4 * of_nat i) = 0
         else bit (ld32 (mem t) (0x8000 + 4 * of_nat i)) 0" by blast
  from this [rule_format, of 3] have "ld32 (mem t) 0x800C = 0" by (simp add: v page_frame_def)
  then show ?thesis using t by (intro exI [of _ t]) (simp add: v page_frame_def)
qed

end
