(* ===== verification/Heap_Blocks.thy ===== *)
theory Heap_Blocks
  imports Kheap
begin

text \<open>
  Sequences of calls of the heap of sys/kheap.c. The heap is a chain of chunks from its start to its end (\<open>chain\<close>),
  the index is the multiset of the holes among them, with null pointers that removals leave behind
  (\<open>index_holds\<close>); \<open>heap_inv\<close> joins the two. \<open>create_heap\<close> establishes it, \<open>alloc\<close> and the release of a block between two
  blocks in use keep it, and so blocks in use (\<open>live\<close>) never overlap and keep their contents.

  Releasing next to a hole is not covered by the invariant: the merge on the right leaves a footer
  that points to the wrong header, and the one on the left leaves the index unsorted.
\<close>

section \<open>The order of the index\<close>

text \<open>
  Removing an element leaves null pointers in the index. A null pointer counts with the size that
  memory holds at address 8; \<open>f\<close> is the size and \<open>f 0\<close> the one of the null pointer. Holes stay
  sorted when it is either below every size or above every size.
\<close>

definition index_sorted :: "(u32 \<Rightarrow> u32) \<Rightarrow> u32 list \<Rightarrow> bool" where
  "index_sorted f xs \<longleftrightarrow> sorted (map f (if f 0 < 20 then filter (\<lambda>x. x \<noteq> 0) xs else xs))"

lemma filter_takeWhile_pass:
  assumes "\<And>x. \<not> Q x \<Longrightarrow> P x"
  shows "filter Q (takeWhile P xs) = takeWhile P (filter Q xs)"
    and "filter Q (dropWhile P xs) = dropWhile P (filter Q xs)"
  using assms by (induction xs) auto

lemma sorted_insert_pos:
  assumes "sorted (map f xs)"
  shows "sorted (map f (takeWhile (\<lambda>x. f x < f h) xs @ h # dropWhile (\<lambda>x. f x < f h) xs))"
  using assms by (induction xs) (auto simp: order.strict_implies_order dest: set_takeWhileD set_dropWhileD)

lemma mset_insert_pos: "mset (takeWhile P xs @ h # dropWhile P xs) = add_mset h (mset xs)"
  by (induction xs) simp_all

lemma index_sorted_insert:
  assumes "index_sorted f xs" and "20 \<le> f h" and "h \<noteq> 0"
  shows "index_sorted f (takeWhile (\<lambda>x. f x < f h) xs @ h # dropWhile (\<lambda>x. f x < f h) xs)"
proof (cases "f 0 < 20")
  case True
  then have "\<not> x \<noteq> 0 \<Longrightarrow> f x < f h" for x using assms(2) by auto
  from filter_takeWhile_pass [of "\<lambda>x. x \<noteq> 0" "\<lambda>x. f x < f h", OF this] show ?thesis
    using assms sorted_insert_pos [of f "filter (\<lambda>x. x \<noteq> 0) xs" h] True by (simp add: index_sorted_def)
next
  case False
  then show ?thesis using assms sorted_insert_pos [of f xs h] by (simp add: index_sorted_def)
qed

lemma sorted_without:
  assumes "sorted (map f (filter Q xs))"
  shows "sorted (map f (filter Q (take k xs @ drop (Suc k) xs)))"
proof (cases "k < length xs")
  case True
  then have "filter Q xs = filter Q (take k xs) @ filter Q (xs ! k # drop (Suc k) xs)"
    by (metis filter_append id_take_nth_drop)
  then show ?thesis using assms by (auto simp: sorted_append split: if_splits)
qed (use assms in simp)

lemma index_sorted_remove:
  assumes "index_sorted f xs" and "f 0 < 20 \<or> (\<forall>x \<in> set xs. f x \<le> f 0)"
  shows "index_sorted f (take k xs @ drop (Suc k) xs @ replicate 2 0)"
proof (cases "f 0 < 20")
  case True
  then show ?thesis
    using assms sorted_without [of f "\<lambda>x. x \<noteq> 0" xs k] by (simp add: index_sorted_def numeral_2_eq_2)
next
  case False
  then have "sorted (map f (take k xs @ drop (Suc k) xs))" and "\<forall>x \<in> set (take k xs @ drop (Suc k) xs). f x \<le> f 0"
    using assms sorted_without [of f "\<lambda>x. True" xs k] by (auto simp: index_sorted_def dest: in_set_takeD in_set_dropD)
  then have "sorted (map f ((take k xs @ drop (Suc k) xs) @ [0, 0]))"
    unfolding map_append sorted_append by auto
  then show ?thesis using False by (simp add: index_sorted_def numeral_2_eq_2)
qed

text \<open>The first entry that fits is a hole, and a smallest one of those that fit.\<close>

lemma first_fit_best:
  assumes sorted: "index_sorted f xs" and k: "k < length xs" "n \<le> f (xs ! k)" "\<And>j. j < k \<Longrightarrow> f (xs ! j) < n"
    and n: "20 \<le> n" and h: "h \<in> set xs" "h \<noteq> 0" "n \<le> f h" and null: "f 0 < 20 \<or> f h < f 0"
  shows "xs ! k \<noteq> 0 \<and> f (xs ! k) \<le> f h"
proof -
  obtain j where j: "j < length xs" "xs ! j = h" using h(1) by (meson in_set_conv_nth)
  then have "k \<le> j" using k(3) [of j] h(3) by force
  show ?thesis
  proof (cases "f 0 < 20")
    case True
    then have x: "xs ! k \<noteq> 0" using k(2) n by auto
    have "filter (\<lambda>x. x \<noteq> 0) (drop k xs) = xs ! k # filter (\<lambda>x. x \<noteq> 0) (drop (Suc k) xs)"
      using x k(1) Cons_nth_drop_Suc [OF k(1), symmetric] by simp
    moreover have "drop k xs ! (j - k) = h" "j - k < length (drop k xs)" using j \<open>k \<le> j\<close> by simp_all
    then have "h \<in> set (filter (\<lambda>x. x \<noteq> 0) (drop k xs))" using h(2) nth_mem [of "j - k" "drop k xs"] by simp
    moreover have "sorted (map f (filter (\<lambda>x. x \<noteq> 0) (take k xs) @ filter (\<lambda>x. x \<noteq> 0) (drop k xs)))"
      using sorted True by (simp add: index_sorted_def flip: filter_append)
    ultimately show ?thesis using x by (auto simp: sorted_append)
  next
    case False
    then have "sorted (map f xs)" using sorted by (simp add: index_sorted_def)
    then have "f (xs ! k) \<le> f (xs ! j)"
      using sorted_nth_mono [of "map f xs" k j] \<open>k \<le> j\<close> j(1) by simp
    then show ?thesis using null False j(2) by auto
  qed
qed

section \<open>The index as a multiset of holes\<close>

text \<open>
  The index array ends where the heap starts. Its entries are the holes \<open>X\<close> and null pointers; the
  entries behind its size are null.
\<close>

definition outside_index :: "u32 \<Rightarrow> 'a vm_scheme \<Rightarrow> u32 \<Rightarrow> bool" where
  "outside_index hp s x \<longleftrightarrow>
     unat x < unat (oa_array (hp_index (heaps s hp))) \<or> unat (hp_start_address (heaps s hp)) \<le> unat x"

definition index_holds :: "u32 multiset \<Rightarrow> u32 \<Rightarrow> 'a vm_scheme \<Rightarrow> bool" where
  "index_holds X hp s \<longleftrightarrow>
     (let i = hp_index (heaps s hp); start = hp_start_address (heaps s hp) in
        oa_less_than i = Some header_t_less_than \<and> oa_size i \<le> oa_max_size i
      \<and> 12 \<le> unat (oa_array i) \<and> unat (oa_array i) + 4 * unat (oa_max_size i) = unat start
      \<and> filter_mset (\<lambda>x. x \<noteq> 0) (mset (oa_list (mem s) i)) = X
      \<and> (\<forall>x \<in># X. unat start \<le> unat x \<and> unat x + 12 \<le> 4294967296)
      \<and> (\<forall>k. unat (oa_size i) \<le> k \<longrightarrow> k < unat (oa_max_size i) \<longrightarrow> oa_elem (mem s) (oa_array i) k = 0)
      \<and> index_sorted (h_size (mem s)) (oa_list (mem s) i))"

lemma index_holdsD:
  assumes "index_holds X hp s"
  shows "oa_less_than (hp_index (heaps s hp)) = Some header_t_less_than"
    and "unat (oa_size (hp_index (heaps s hp))) \<le> unat (oa_max_size (hp_index (heaps s hp)))"
    and "unat (oa_max_size (hp_index (heaps s hp))) < 1073741824"
    and "k \<le> unat (oa_max_size (hp_index (heaps s hp))) \<Longrightarrow> outside_index hp s x \<Longrightarrow>
      \<not> in_region (oa_array (hp_index (heaps s hp))) (4 * k) x"
proof -
  let ?i = "hp_index (heaps s hp)"
  have a: "unat (oa_array ?i) + 4 * unat (oa_max_size ?i) = unat (hp_start_address (heaps s hp))"
    using assms by (simp add: index_holds_def Let_def)
  show "oa_less_than ?i = Some header_t_less_than" "unat (oa_size ?i) \<le> unat (oa_max_size ?i)"
    using assms by (simp_all add: index_holds_def Let_def word_le_nat_alt)
  show "unat (oa_max_size ?i) < 1073741824" using a unat_lt_u32 [of "hp_start_address (heaps s hp)"] by linarith
  show "\<not> in_region (oa_array ?i) (4 * k) x" if "k \<le> unat (oa_max_size ?i)" "outside_index hp s x"
  proof -
    have "unat (oa_array ?i) + 4 * k \<le> unat (hp_start_address (heaps s hp))" using a that(1) by linarith
    then show ?thesis
      using that(2) in_region_interval [of "oa_array ?i" "4 * k" x] unat_lt_u32 [of "hp_start_address (heaps s hp)"]
      by (auto simp: outside_index_def)
  qed
qed

text \<open>Headers of holes and the null pointer's lie outside the index.\<close>

lemma header_outside:
  assumes "index_holds X hp s" and "unat (hp_start_address (heaps s hp)) \<le> unat x \<and> unat x + 12 \<le> 4294967296 \<or> x = 0"
    and "\<And>y. outside_index hp s y \<Longrightarrow> m y = mem s y"
  shows "h_size m x = h_size (mem s) x"
  unfolding h_size_def
proof (rule ld32_frame, rule assms(3))
  fix y assume y: "in_region (x + 8) 4 y"
  let ?i = "hp_index (heaps s hp)" and ?b = "unat (hp_start_address (heaps s hp))"
  have a: "12 \<le> unat (oa_array ?i)" using assms(1) by (simp add: index_holds_def Let_def)
  show "outside_index hp s y"
  proof (cases "x = 0")
    case True
    then show ?thesis using y a in_region_interval [of 8 4 y] by (simp add: outside_index_def)
  next
    case False
    then have x: "?b \<le> unat x" "unat x + 12 \<le> 4294967296" using assms(2) by auto
    then have "unat (x + 8) = unat x + 8" using unat_add_lem32 [of x 8] by simp
    then show ?thesis using y x in_region_interval [of "x + 8" 4 y] by (simp add: outside_index_def)
  qed
qed

lemma index_sorted_cong:
  assumes "index_sorted f xs" and "f 0 = g 0" and "\<And>x. x \<in> set xs \<Longrightarrow> f x = g x"
  shows "index_sorted g xs"
proof -
  have "map f (if f 0 < 20 then filter (\<lambda>x. x \<noteq> 0) xs else xs) = map g (if g 0 < 20 then filter (\<lambda>x. x \<noteq> 0) xs else xs)"
    using assms(2,3) by auto
  then show ?thesis using assms(1) by (simp add: index_sorted_def)
qed

lemma index_entries:
  assumes "index_holds X hp s" and "x \<in> set (oa_list (mem s) (hp_index (heaps s hp)))"
  shows "x \<in># X \<or> x = 0"
  using assms by (auto simp: index_holds_def Let_def)

lemma index_members:
  assumes "index_holds X hp s" and "x \<in># X"
  shows "x \<in> set (oa_list (mem s) (hp_index (heaps s hp)))" and "x \<noteq> 0"
proof -
  have "X = filter_mset (\<lambda>x. x \<noteq> 0) (mset (oa_list (mem s) (hp_index (heaps s hp))))"
    using assms(1) by (simp add: index_holds_def Let_def)
  then show "x \<in> set (oa_list (mem s) (hp_index (heaps s hp)))" and "x \<noteq> 0" using assms(2) by auto
qed

text \<open>
  An update of the array that leaves the null entries behind it: what is to be shown about the
  new list.
\<close>

lemma index_holds_update:
  assumes X: "index_holds X hp s" and room: "oa_size (hp_index (heaps s hp)) < oa_max_size (hp_index (heaps s hp))"
    and out: "\<And>x. \<not> in_region (oa_array (hp_index (heaps s hp))) (4 * Suc (unat (oa_size (hp_index (heaps s hp))))) x \<Longrightarrow>
        m x = mem s x"
    and L: "oa_list m ((hp_index (heaps s hp))\<lparr>oa_size := oa_size (hp_index (heaps s hp)) + 1\<rparr>) = ys"
    and Y: "filter_mset (\<lambda>x. x \<noteq> 0) (mset ys) = Y" "index_sorted (h_size (mem s)) ys"
    and new: "\<And>x. x \<in># Y \<Longrightarrow> x \<in># X \<or> unat (hp_start_address (heaps s hp)) \<le> unat x \<and> unat x + 12 \<le> 4294967296"
  shows "index_holds Y hp (grown_index hp (s\<lparr>mem := m\<rparr>))"
    and "\<And>x. outside_index hp s x \<Longrightarrow> m x = mem s x"
proof -
  let ?i = "hp_index (heaps s hp)" and ?b = "hp_start_address (heaps s hp)"
  let ?j = "?i\<lparr>oa_size := oa_size ?i + 1\<rparr>"
  have n: "unat (oa_size ?i) < unat (oa_max_size ?i)" using room by (simp add: word_less_nat_alt)
  then have size: "unat (oa_size ?i + 1) = Suc (unat (oa_size ?i))"
    using index_holdsD(3) [OF X] unat_add_lem32 [of "oa_size ?i" 1] by simp
  show keep: "m x = mem s x" if "outside_index hp s x" for x
    using out [of x] index_holdsD(4) [OF X _ that, of "Suc (unat (oa_size ?i))"] n by simp
  have "oa_elem m (oa_array ?i) k = 0" if "Suc (unat (oa_size ?i)) \<le> k" "k < unat (oa_max_size ?i)" for k
  proof -
    have "oa_elem m (oa_array ?i) k = oa_elem (mem s) (oa_array ?i) k" unfolding oa_elem_def
    proof (rule ld32_frame, rule out)
      fix x assume x: "in_region (oa_array ?i + 4 * of_nat k) 4 x"
      then obtain r where r: "r < 4" "x = oa_array ?i + 4 * of_nat k + of_nat r" by (rule in_regionE)
      then have "x - oa_array ?i = of_nat (4 * k + r)" by simp
      moreover have "4 * k + r < 4294967296" using r(1) that(2) index_holdsD(3) [OF X] by linarith
      ultimately have "unat (x - oa_array ?i) = 4 * k + r" by (simp only: unat_of_nat_small)
      then show "\<not> in_region (oa_array ?i) (4 * Suc (unat (oa_size ?i))) x" using that(1) by (simp add: in_region_def)
    qed
    then show ?thesis using X that by (simp add: index_holds_def Let_def)
  qed
  moreover have bounds: "unat ?b \<le> unat x \<and> unat x + 12 \<le> 4294967296" if "x \<in># Y" for x
    using new [OF that] X by (auto simp: index_holds_def Let_def)
  moreover have "index_sorted (h_size m) ys"
  proof (rule index_sorted_cong [OF Y(2)])
    show "h_size (mem s) 0 = h_size m 0" using header_outside [OF X, of 0 m] keep by simp
    fix x assume "x \<in> set ys"
    then have "x \<in># Y \<or> x = 0" using Y(1) by auto
    then show "h_size (mem s) x = h_size m x"
      using header_outside [OF X, of x m] keep bounds by auto
  qed
  moreover have "oa_size ?i + 1 \<le> oa_max_size ?i" using n size by (simp add: word_le_nat_alt)
  ultimately show "index_holds Y hp (grown_index hp (s\<lparr>mem := m\<rparr>))"
    using X Y(1) L size by (simp add: index_holds_def Let_def)
qed

lemma index_insert_holds:
  assumes X: "index_holds X hp s" and room: "oa_size (hp_index (heaps s hp)) < oa_max_size (hp_index (heaps s hp))"
    and h: "unat (hp_start_address (heaps s hp)) \<le> unat h" "unat h + 12 \<le> 4294967296" "20 \<le> h_size (mem s) h"
  shows "\<exists>m. index_insert h hp s = Inr (grown_index hp (s\<lparr>mem := m\<rparr>))
    \<and> index_holds (add_mset h X) hp (grown_index hp (s\<lparr>mem := m\<rparr>))
    \<and> (\<forall>x. outside_index hp s x \<longrightarrow> m x = mem s x)"
proof -
  let ?i = "hp_index (heaps s hp)" and ?f = "h_size (mem s)"
  let ?xs = "oa_list (mem s) ?i"
  let ?ys = "takeWhile (\<lambda>x. ?f x < ?f h) ?xs @ h # dropWhile (\<lambda>x. ?f x < ?f h) ?xs"
  have n: "unat (oa_size ?i) < unat (oa_max_size ?i)" using room by (simp add: word_less_nat_alt)
  then have "oa_fits ?i" using index_holdsD(3) [OF X] by (simp add: oa_fits_def)
  from index_insert_spec [OF index_holdsD(1) [OF X] this, of h] obtain m where
    ins: "index_insert h hp s = Inr (grown_index hp (s\<lparr>mem := m\<rparr>))"
    and list: "oa_list m (?i\<lparr>oa_size := oa_size ?i + 1\<rparr>) = ?ys"
    and out: "\<And>x. \<not> in_region (oa_array ?i) (4 * Suc (unat (oa_size ?i))) x \<Longrightarrow> m x = mem s x"
    by (auto simp: header_t_less_than_def)
  have h0: "h \<noteq> 0" using h(1) X by (auto simp: index_holds_def Let_def)
  have "mset ?ys = add_mset h (mset ?xs)" by (rule mset_insert_pos)
  then have Y: "filter_mset (\<lambda>x. x \<noteq> 0) (mset ?ys) = add_mset h X"
    using X h0 by (simp add: index_holds_def Let_def)
  have sorted: "index_sorted ?f ?ys"
    using X h0 h(3) by (intro index_sorted_insert) (simp_all add: index_holds_def Let_def)
  show ?thesis
    using ins index_holds_update [OF X room out list Y sorted] h by auto
qed

lemma index_remove_list:
  assumes "oa_fits (hp_index (heaps s hp))" and "unat i < unat (oa_size (hp_index (heaps s hp)))"
  shows "\<exists>m. index_remove i hp s = grown_index hp (s\<lparr>mem := m\<rparr>)
    \<and> oa_list m ((hp_index (heaps s hp))\<lparr>oa_size := oa_size (hp_index (heaps s hp)) + 1\<rparr>)
      = take (unat i) (oa_list (mem s) (hp_index (heaps s hp))) @ drop (Suc (unat i)) (oa_list (mem s) (hp_index (heaps s hp)))
        @ replicate 2 (oa_elem (mem s) (oa_array (hp_index (heaps s hp))) (unat (oa_size (hp_index (heaps s hp)))))
    \<and> (\<forall>x. \<not> in_region (oa_array (hp_index (heaps s hp))) (4 * unat (oa_size (hp_index (heaps s hp)))) x
       \<longrightarrow> m x = mem s x)"
proof -
  obtain a' s' where r: "remove_ordered_array i (hp_index (heaps s hp)) s = (a', s')" by fastforce
  define m where "m = mem s'"
  have "s' = s\<lparr>mem := m\<rparr>" unfolding m_def by (rule remove_ordered_array_spec(3) [OF assms r])
  then have "index_remove i hp s = grown_index hp (s\<lparr>mem := m\<rparr>)"
    using remove_ordered_array_spec(2) [OF assms r] by (simp add: index_remove_def r grown_index_def)
  then show ?thesis
    using remove_ordered_array_spec(1,4) [OF assms r] unfolding m_def remove_ordered_array_spec(2) [OF assms r] by blast
qed

lemma index_remove_holds:
  assumes X: "index_holds X hp s" and room: "oa_size (hp_index (heaps s hp)) < oa_max_size (hp_index (heaps s hp))"
    and k: "unat k < unat (oa_size (hp_index (heaps s hp)))" "oa_list (mem s) (hp_index (heaps s hp)) ! unat k = h" "h \<noteq> 0"
    and null: "h_size (mem s) 0 < 20 \<or> (\<forall>x \<in># X. h_size (mem s) x \<le> h_size (mem s) 0)"
  shows "\<exists>m. index_remove k hp s = grown_index hp (s\<lparr>mem := m\<rparr>)
    \<and> index_holds (X - {#h#}) hp (grown_index hp (s\<lparr>mem := m\<rparr>))
    \<and> (\<forall>x. outside_index hp s x \<longrightarrow> m x = mem s x)"
proof -
  let ?i = "hp_index (heaps s hp)" and ?f = "h_size (mem s)"
  let ?xs = "oa_list (mem s) ?i"
  let ?ys = "take (unat k) ?xs @ drop (Suc (unat k)) ?xs @ replicate 2 0"
  have n: "unat (oa_size ?i) < unat (oa_max_size ?i)" using room by (simp add: word_less_nat_alt)
  then have "oa_fits ?i" using index_holdsD(3) [OF X] by (simp add: oa_fits_def)
  moreover have "oa_elem (mem s) (oa_array ?i) (unat (oa_size ?i)) = 0" using X n by (simp add: index_holds_def Let_def)
  ultimately obtain m where rem: "index_remove k hp s = grown_index hp (s\<lparr>mem := m\<rparr>)"
    and list: "oa_list m (?i\<lparr>oa_size := oa_size ?i + 1\<rparr>) = ?ys"
    and out: "\<forall>x. \<not> in_region (oa_array ?i) (4 * unat (oa_size ?i)) x \<longrightarrow> m x = mem s x"
    using index_remove_list [of s hp k] k(1) by auto
  have out': "m x = mem s x" if "\<not> in_region (oa_array ?i) (4 * Suc (unat (oa_size ?i))) x" for x
    using out that by (simp add: in_region_def)
  have "mset ?xs = add_mset h (mset (take (unat k) ?xs @ drop (Suc (unat k)) ?xs))"
    using k(1,2) id_take_nth_drop [of "unat k" ?xs] by (metis length_oa_list mset.simps(2) mset_append union_mset_add_mset_right)
  then have Y: "filter_mset (\<lambda>x. x \<noteq> 0) (mset ?ys) = X - {#h#}"
    using X k(3) by (auto simp: index_holds_def Let_def numeral_2_eq_2)
  have "index_sorted ?f ?ys"
    using X index_entries [OF X] null by (intro index_sorted_remove) (auto simp: index_holds_def Let_def)
  from index_holds_update [OF X room out' list Y this] show ?thesis
    using rem by (auto dest: in_diffD)
qed

section \<open>The heap as a chain of chunks\<close>

text \<open>
  A chunk is its size and its flag \<open>is_hole\<close>. Chunks follow each other without gaps; each has a
  header and a footer that points back, except that a hole at the end \<open>e\<close> of the heap may lack the
  footer (the one that \<open>create_heap\<close> makes does).
\<close>

type_synonym chunk = "u32 \<times> u8"

definition chunk_at :: "memory \<Rightarrow> u32 \<Rightarrow> u32 \<Rightarrow> chunk \<Rightarrow> bool" where
  "chunk_at m e a c \<longleftrightarrow> header_at m a (snd c) (fst c) \<and> (snd c = 0 \<or> snd c = 1)
     \<and> (footer_at m (a + fst c - 8) a \<or> snd c = 1 \<and> a + fst c = e)
     \<and> 20 \<le> unat (fst c) \<and> unat a + unat (fst c) \<le> unat e"

primrec chain :: "memory \<Rightarrow> u32 \<Rightarrow> u32 \<Rightarrow> chunk list \<Rightarrow> u32 \<Rightarrow> bool" where
  "chain m e a [] z \<longleftrightarrow> a = z"
| "chain m e a (c # cs) z \<longleftrightarrow> chunk_at m e a c \<and> chain m e (a + fst c) cs z"

primrec hole_addrs :: "u32 \<Rightarrow> chunk list \<Rightarrow> u32 multiset" where
  "hole_addrs a [] = {#}"
| "hole_addrs a (c # cs) = (if snd c = 1 then {#a#} else {#}) + hole_addrs (a + fst c) cs"

lemma chunk_end: "chunk_at m e a c \<Longrightarrow> unat (a + fst c) = unat a + unat (fst c)"
  unfolding chunk_at_def using unat_lt_u32 [of e] by (intro unat_add_lem32) linarith

lemma chunk_tagged: "chunk_at m e a (n, 0) \<Longrightarrow> tagged m a 0 n"
  by (simp add: chunk_at_def tagged_def)

lemma chunk_region: "chunk_at m e a c \<Longrightarrow> in_region a (unat (fst c)) x \<longleftrightarrow> unat a \<le> unat x \<and> unat x < unat a + unat (fst c)"
  unfolding chunk_at_def using unat_lt_u32 [of e] by (intro in_region_interval) linarith

lemma chunk_at_frame:
  assumes "chunk_at m e a c" and "\<And>x. in_region a (unat (fst c)) x \<Longrightarrow> m' x = m x"
  shows "chunk_at m' e a c"
proof -
  have n: "20 \<le> unat (fst c)" using assms(1) by (simp add: chunk_at_def)
  have "header_at m a b n \<Longrightarrow> header_at m' a b n" for b n
    using assms(2) header_in_block [OF n] by (blast intro: header_at_frame)
  moreover have "footer_at m (a + fst c - 8) a \<Longrightarrow> footer_at m' (a + fst c - 8) a"
    using assms(2) footer_in_block [OF n] by (blast intro: footer_at_frame)
  ultimately show ?thesis using assms(1) by (auto simp: chunk_at_def)
qed

lemma chain_append: "chain m e a (us @ vs) z \<longleftrightarrow> (\<exists>y. chain m e a us y \<and> chain m e y vs z)"
  by (induction us arbitrary: a) auto

lemma chain_unique: "chain m e a cs y \<Longrightarrow> chain m' e' a cs z \<Longrightarrow> y = z"
  by (induction cs arbitrary: a) auto

lemma chain_bounds:
  "chain m e a cs z \<Longrightarrow> unat a \<le> unat e \<Longrightarrow> unat a \<le> unat z \<and> unat z \<le> unat e"
proof (induction cs arbitrary: a)
  case (Cons c cs)
  then have c: "chunk_at m e a c" and rest: "chain m e (a + fst c) cs z" by simp_all
  have "unat (a + fst c) \<le> unat e" using chunk_end [OF c] c by (simp add: chunk_at_def)
  from Cons.IH [OF rest this] show ?case using chunk_end [OF c] by simp
qed simp

lemma chain_frame:
  "chain m e a cs z \<Longrightarrow> unat a \<le> unat e \<Longrightarrow> (\<And>x. unat a \<le> unat x \<Longrightarrow> unat x < unat z \<Longrightarrow> m' x = m x) \<Longrightarrow>
     chain m' e a cs z"
proof (induction cs arbitrary: a)
  case (Cons c cs)
  then have c: "chunk_at m e a c" and rest: "chain m e (a + fst c) cs z" by simp_all
  have e: "unat (a + fst c) \<le> unat e" using chunk_end [OF c] c by (simp add: chunk_at_def)
  note b = chain_bounds [OF rest e] chunk_end [OF c]
  have "chunk_at m' e a c" using c by (rule chunk_at_frame) (use Cons.prems(3) chunk_region [OF c] b in auto)
  moreover have "chain m' e (a + fst c) cs z" using rest e by (rule Cons.IH) (use Cons.prems(3) b in auto)
  ultimately show ?case by simp
qed simp

lemma hole_addrs_append: "chain m e a us y \<Longrightarrow> hole_addrs a (us @ vs) = hole_addrs a us + hole_addrs y vs"
  by (induction us arbitrary: a) auto

lemma hole_addrs_split:
  "chain m e a cs z \<Longrightarrow> x \<in># hole_addrs a cs \<Longrightarrow>
     \<exists>us n vs. cs = us @ (n, 1) # vs \<and> chain m e a us x \<and> chunk_at m e x (n, 1) \<and> chain m e (x + n) vs z"
proof (induction cs arbitrary: a)
  case (Cons c cs)
  then have c: "chunk_at m e a c" and rest: "chain m e (a + fst c) cs z" by simp_all
  show ?case
  proof (cases "snd c = 1 \<and> x = a")
    case True
    then show ?thesis using c rest by (intro exI [of _ "[]"] exI [of _ "fst c"] exI [of _ cs]) (cases c, simp)
  next
    case False
    then have "x \<in># hole_addrs (a + fst c) cs" using Cons.prems(2) by (auto split: if_splits)
    from Cons.IH [OF rest this] obtain us n vs where "cs = us @ (n, 1) # vs" "chain m e (a + fst c) us x"
      "chunk_at m e x (n, 1)" "chain m e (x + n) vs z" by blast
    then show ?thesis using c by (intro exI [of _ "c # us"] exI [of _ n] exI [of _ vs]) simp
  qed
qed simp

lemma hole_addrs_bounds:
  assumes "chain m e a cs z" and "unat a \<le> unat e" and "x \<in># hole_addrs a cs"
  shows "unat a \<le> unat x \<and> unat x + unat (h_size m x) \<le> unat z \<and> 20 \<le> unat (h_size m x)"
proof -
  obtain us n vs where x: "chain m e a us x" "chunk_at m e x (n, 1)" "chain m e (x + n) vs z"
    using hole_addrs_split [OF assms(1,3)] by blast
  have n: "unat (x + n) = unat x + unat n" "unat x + unat n \<le> unat e" "20 \<le> unat n" "h_size m x = n"
    using chunk_end [OF x(2)] x(2) by (simp_all add: chunk_at_def header_at_def)
  then show ?thesis using chain_bounds [OF x(1) assms(2)] chain_bounds [OF x(3)] by simp
qed

section \<open>The invariant\<close>

definition null_size_ok :: "u32 \<Rightarrow> 'a vm_scheme \<Rightarrow> bool" where
  "null_size_ok hp s \<longleftrightarrow> h_size (mem s) 0 < 20
     \<or> hp_end_address (heaps s hp) - hp_start_address (heaps s hp) < h_size (mem s) 0"

definition heap_inv :: "chunk list \<Rightarrow> u32 \<Rightarrow> 'a vm_scheme \<Rightarrow> bool" where
  "heap_inv cs hp s \<longleftrightarrow> hp_start_address (heaps s hp) \<le> hp_end_address (heaps s hp)
     \<and> index_holds (hole_addrs (hp_start_address (heaps s hp)) cs) hp s
     \<and> chain (mem s) (hp_end_address (heaps s hp)) (hp_start_address (heaps s hp)) cs (hp_end_address (heaps s hp))
     \<and> null_size_ok hp s"

lemma heap_invD:
  assumes "heap_inv cs hp s" and "start = hp_start_address (heaps s hp)" and "fin = hp_end_address (heaps s hp)"
  shows "unat start \<le> unat fin" and "index_holds (hole_addrs start cs) hp s" and "chain (mem s) fin start cs fin"
    and "null_size_ok hp s"
  using assms by (simp_all add: heap_inv_def word_le_nat_alt)

text \<open>Holes are smaller than a null pointer that counts at all.\<close>

lemma hole_below_null:
  assumes "heap_inv cs hp s" and "x \<in># hole_addrs (hp_start_address (heaps s hp)) cs"
  shows "h_size (mem s) 0 < 20 \<or> h_size (mem s) x < h_size (mem s) 0"
proof -
  let ?b = "hp_start_address (heaps s hp)" and ?e = "hp_end_address (heaps s hp)"
  note D = heap_invD [OF assms(1) refl refl]
  have "unat ?b \<le> unat x" "unat x + unat (h_size (mem s) x) \<le> unat ?e"
    using hole_addrs_bounds [OF D(3,1) assms(2)] by simp_all
  then have "unat (h_size (mem s) x) \<le> unat (?e - ?b)" using unat_sub_lem32 [OF D(1)] by linarith
  then show ?thesis using D(4) by (auto simp: null_size_ok_def word_less_nat_alt)
qed

text \<open>Writes behind the index, and such that no hole's header is touched.\<close>

lemma index_array_frame:
  assumes X: "index_holds X hp s" and same: "\<And>x. unat x < unat (hp_start_address (heaps s hp)) \<Longrightarrow> m x = mem s x"
  shows "\<And>k. k < unat (oa_max_size (hp_index (heaps s hp))) \<Longrightarrow>
      oa_elem m (oa_array (hp_index (heaps s hp))) k = oa_elem (mem s) (oa_array (hp_index (heaps s hp))) k"
    and "oa_list m (hp_index (heaps s hp)) = oa_list (mem s) (hp_index (heaps s hp))"
proof -
  let ?i = "hp_index (heaps s hp)" and ?b = "hp_start_address (heaps s hp)"
  have I: "unat (oa_array ?i) + 4 * unat (oa_max_size ?i) = unat ?b" using X by (simp add: index_holds_def Let_def)
  show elem: "oa_elem m (oa_array ?i) k = oa_elem (mem s) (oa_array ?i) k" if "k < unat (oa_max_size ?i)" for k
  proof (rule oa_elem_frame [OF _ that])
    show "unat (oa_max_size ?i) \<le> 1073741824" using index_holdsD(3) [OF X] by simp
    show "m x = mem s x" if "in_region (oa_array ?i) (4 * unat (oa_max_size ?i)) x" for x
      using that I in_region_interval [of "oa_array ?i" "4 * unat (oa_max_size ?i)" x] unat_lt_u32 [of ?b]
      by (intro same) simp
  qed
  then show "oa_list m ?i = oa_list (mem s) ?i"
    using index_holdsD(2) [OF X] by (auto simp: oa_list_def)
qed

lemma hole_sizes_frame:
  assumes X: "index_holds X hp s" and reg: "\<And>x. \<not> in_region a n x \<Longrightarrow> m x = mem s x"
    and a: "unat (hp_start_address (heaps s hp)) \<le> unat a" "unat a + n \<le> 4294967296"
    and x: "x \<in># X \<and> (unat x + 12 \<le> unat a \<or> unat a + n \<le> unat x) \<or> x = 0"
  shows "h_size m x = h_size (mem s) x"
  unfolding h_size_def
proof (rule ld32_frame, rule reg)
  fix y assume y: "in_region (x + 8) 4 y"
  have I: "12 \<le> unat (oa_array (hp_index (heaps s hp)))"
    "unat (oa_array (hp_index (heaps s hp))) + 4 * unat (oa_max_size (hp_index (heaps s hp))) = unat (hp_start_address (heaps s hp))"
    "x \<in># X \<Longrightarrow> unat x + 12 \<le> 4294967296"
    using X by (simp_all add: index_holds_def Let_def)
  have "unat x + 12 \<le> 4294967296" using x I(3) by auto
  then have "unat (x + 8) = unat x + 8" using unat_add_lem32 [of x 8] by simp
  then have "unat x + 8 \<le> unat y" "unat y < unat x + 12"
    using y in_region_interval [of "x + 8" 4 y] \<open>unat x + 12 \<le> _\<close> by simp_all
  then show "\<not> in_region a n y" using x I(1,2) a in_region_interval [OF a(2), of y] by auto
qed

lemma index_holds_frame:
  assumes X: "index_holds X hp s" and reg: "\<And>x. \<not> in_region a n x \<Longrightarrow> m x = mem s x"
    and a: "unat (hp_start_address (heaps s hp)) \<le> unat a" "unat a + n \<le> 4294967296"
    and apart: "\<And>x. x \<in># X \<Longrightarrow> unat x + 12 \<le> unat a \<or> unat a + n \<le> unat x"
  shows "index_holds X hp (s\<lparr>mem := m\<rparr>)"
proof -
  let ?i = "hp_index (heaps s hp)" and ?b = "hp_start_address (heaps s hp)"
  have "m x = mem s x" if "unat x < unat ?b" for x
    using that a(1) in_region_interval [OF a(2), of x] by (intro reg) simp
  note array = index_array_frame [OF X this]
  have size: "h_size m x = h_size (mem s) x" if "x \<in># X \<or> x = 0" for x
    using that apart by (intro hole_sizes_frame [OF X reg a]) auto
  have "index_sorted (h_size m) (oa_list (mem s) ?i)"
  proof (rule index_sorted_cong)
    show "index_sorted (h_size (mem s)) (oa_list (mem s) ?i)" using X by (simp add: index_holds_def Let_def)
  qed (use size index_entries [OF X] in auto)
  then show ?thesis using X array by (simp add: index_holds_def Let_def)
qed

section \<open>Allocation keeps the invariant\<close>

text \<open>What is left of the state: the memory, and the size of one index that has grown.\<close>

definition index_grown :: "nat \<Rightarrow> u32 \<Rightarrow> 'a vm_scheme \<Rightarrow> 'a vm_scheme \<Rightarrow> bool" where
  "index_grown j hp s t \<longleftrightarrow> (\<exists>m. t = s\<lparr>mem := m, heaps := (heaps s)(hp := (heaps s hp)
     \<lparr>hp_index := (hp_index (heaps s hp))\<lparr>oa_size := oa_size (hp_index (heaps s hp)) + of_nat j\<rparr>\<rparr>)\<rparr>)"

lemma index_grown_fields:
  assumes "index_grown j hp s t"
  shows "hp_start_address (heaps t hp) = hp_start_address (heaps s hp)"
    and "hp_end_address (heaps t hp) = hp_end_address (heaps s hp)"
    and "oa_array (hp_index (heaps t hp)) = oa_array (hp_index (heaps s hp))"
    and "oa_max_size (hp_index (heaps t hp)) = oa_max_size (hp_index (heaps s hp))"
    and "oa_size (hp_index (heaps t hp)) = oa_size (hp_index (heaps s hp)) + of_nat j"
    and "kheap t = kheap s"
  using assms by (auto simp: index_grown_def)

lemma index_grown_once: "index_grown 1 hp s (grown_index hp (s\<lparr>mem := m\<rparr>))"
  by (auto simp: index_grown_def grown_index_def)

lemma index_grown_twice: "index_grown 2 hp s (grown_index hp (grown_index hp (s\<lparr>mem := m\<rparr>)))"
  by (auto simp: index_grown_def grown_index_def add.assoc)

lemma rest_hole_entered:
  assumes Y: "index_holds Y hp s" and room: "oa_size (hp_index (heaps s hp)) < oa_max_size (hp_index (heaps s hp))"
    and n: "20 \<le> unat n" and inside: "unat (hp_start_address (heaps s hp)) \<le> unat h" "unat h + unat n \<le> unat (hp_end_address (heaps s hp))"
    and apart: "\<And>x. x \<in># Y \<Longrightarrow> unat x + 12 \<le> unat h \<or> unat h + unat n \<le> unat x"
  shows "\<exists>m. index_insert h hp (s\<lparr>mem := write_rest h n (hp_end_address (heaps s hp)) (mem s)\<rparr>) = Inr (grown_index hp (s\<lparr>mem := m\<rparr>))
    \<and> index_holds (add_mset h Y) hp (grown_index hp (s\<lparr>mem := m\<rparr>))"
proof -
  define w where "w = write_rest h n (hp_end_address (heaps s hp)) (mem s)"
  have w: "w = put_footer (h + n - 8) h (put_header h 1 n (mem s))"
    using footer_below_end [OF inside(2) n] by (simp add: w_def write_rest_eq)
  have lt: "unat h + unat n \<le> 4294967296" using inside(2) unat_lt_u32 [of "hp_end_address (heaps s hp)"] by linarith
  have "w x = mem s x" if "\<not> in_region h (unat n) x" for x
    using that by (simp add: w put_tags_outside [OF n])
  then have Yw: "index_holds Y hp (s\<lparr>mem := w\<rparr>)"
    by (rule index_holds_frame [OF Y _ inside(1) lt]) (use apart in auto)
  have "h_size w h = n" using tagged_put [OF n, of h 1 "mem s"] by (simp add: w tagged_def header_at_def)
  then show ?thesis
    using index_insert_holds [OF Yw, of h] room n inside lt by (auto simp: word_le_nat_alt w_def)
qed

lemma alloc_index:
  assumes X: "index_holds X hp s" and room: "unat (oa_size (hp_index (heaps s hp))) + 2 \<le> unat (oa_max_size (hp_index (heaps s hp)))"
    and null: "h_size (mem s) 0 < 20 \<or> (\<forall>x \<in># X. h_size (mem s) x \<le> h_size (mem s) 0)"
    and k: "unat k < unat (oa_size (hp_index (heaps s hp)))" "oa_list (mem s) (hp_index (heaps s hp)) ! unat k = a"
    and hs: "h_size (mem s) a = hs" "sz + 20 \<le> hs" "20 \<le> unat (sz + 20)"
    and inside: "unat (hp_start_address (heaps s hp)) \<le> unat a" "unat a + unat hs \<le> unat (hp_end_address (heaps s hp))"
    and apart: "\<And>x. x \<in># X - {#a#} \<Longrightarrow> unat x + 12 \<le> unat a \<or> unat a + unat hs \<le> unat x"
    and bs: "bs = block_size hs (sz + 20)"
  shows "\<exists>j t. alloc_from_hole sz 0 k hp s = Inr (a + 12, t) \<and> index_grown j hp s t \<and> j \<le> 2
    \<and> index_holds (X - {#a#} + (if bs = hs then {#} else {#a + bs#})) hp t"
proof -
  let ?i = "hp_index (heaps s hp)"
  note bounds = block_size_bounds [OF hs(2,3), folded bs]
  have lt: "unat a + unat hs \<le> 4294967296" using inside(2) unat_lt_u32 [of "hp_end_address (heaps s hp)"] by linarith
  have r: "oa_size ?i < oa_max_size ?i" using room by (simp add: word_less_nat_alt)
  have a0: "a \<noteq> 0" using inside(1) X by (auto simp: index_holds_def Let_def)
  obtain m1 where rem: "index_remove k hp s = grown_index hp (s\<lparr>mem := m1\<rparr>)"
    and X1: "index_holds (X - {#a#}) hp (grown_index hp (s\<lparr>mem := m1\<rparr>))"
    using index_remove_holds [OF X r k a0 null] by blast
  define m2 where "m2 = put_footer (a + bs - 8) a (put_header a 0 bs m1)"
  define s2 where "s2 = grown_index hp (s\<lparr>mem := m2\<rparr>)"
  have "m2 x = m1 x" if "\<not> in_region a (unat hs) x" for x
  proof -
    have "\<not> in_region a (unat bs) x" using that region_prefix [OF bounds(2)] by blast
    then show ?thesis by (simp add: m2_def put_tags_outside [OF bounds(3)])
  qed
  then have X2: "index_holds (X - {#a#}) hp s2"
    using index_holds_frame [OF X1, of a "unat hs" m2] inside(1) lt apart by (simp add: s2_def)
  have eq: "alloc_from_hole sz 0 k hp s =
      bind_res (if 0 < hs - bs then index_insert (a + bs) hp (s2\<lparr>mem := write_rest (a + bs) (hs - bs)
          (hp_end_address (heaps s2 hp)) (mem s2)\<rparr>) else Inr s2) (\<lambda>s. Inr (a + 12, s))"
    using alloc_from_hole_unaligned [OF k bs [folded hs(1)]] by (simp add: rem s2_def m2_def hs(1) Let_def)
  show ?thesis
  proof (cases "bs = hs")
    case True
    then show ?thesis using eq X2 index_grown_once [of hp s m2] by (intro exI [of _ 1] exI [of _ s2]) (simp add: s2_def)
  next
    case False
    then have rest: "20 \<le> unat (hs - bs)" and le: "unat bs \<le> unat hs" using bounds by (simp_all add: word_le_nat_alt)
    have u: "unat (a + bs) = unat a + unat bs" using lt le unat_add_lem32 [of a bs] rest bounds(4) by simp
    have "oa_size (hp_index (heaps s2 hp)) < oa_max_size (hp_index (heaps s2 hp))"
      using room unat_add_lem32 [of "oa_size ?i" 1] index_holdsD(3) [OF X] by (simp add: s2_def word_less_nat_alt)
    moreover have "unat x + 12 \<le> unat (a + bs) \<or> unat (a + bs) + unat (hs - bs) \<le> unat x" if "x \<in># X - {#a#}" for x
      using apart [OF that] u le bounds(4) by linarith
    moreover have "unat (hp_start_address (heaps s2 hp)) \<le> unat (a + bs)"
      "unat (a + bs) + unat (hs - bs) \<le> unat (hp_end_address (heaps s2 hp))"
      using inside u le bounds(4) by (simp_all add: s2_def)
    ultimately obtain m where
      "index_insert (a + bs) hp (s2\<lparr>mem := write_rest (a + bs) (hs - bs) (hp_end_address (heaps s2 hp)) (mem s2)\<rparr>)
        = Inr (grown_index hp (s2\<lparr>mem := m\<rparr>))" "index_holds (add_mset (a + bs) (X - {#a#})) hp (grown_index hp (s2\<lparr>mem := m\<rparr>))"
      using rest_hole_entered [OF X2 _ rest, of "a + bs"] by blast
    moreover have "0 < hs - bs" using rest by (simp add: word_less_nat_alt)
    ultimately show ?thesis
      using eq False index_grown_twice [of hp s m] by (intro exI [of _ 2] exI [of _ "grown_index hp (s2\<lparr>mem := m\<rparr>)"]) (simp add: s2_def)
  qed
qed

text \<open>The chunks that take the place of a hole of \<open>hs\<close> bytes when \<open>n\<close> are needed.\<close>

definition carve :: "u32 \<Rightarrow> u32 \<Rightarrow> chunk list" where
  "carve hs n = (block_size hs n, 0) # (if block_size hs n = hs then [] else [(hs - block_size hs n, 1)])"

lemma tagged_chunk:
  "tagged m a b n \<Longrightarrow> b = 0 \<or> b = 1 \<Longrightarrow> 20 \<le> unat n \<Longrightarrow> unat a + unat n \<le> unat e \<Longrightarrow> chunk_at m e a (n, b)"
  by (simp add: chunk_at_def tagged_def)

lemma chain_carve:
  assumes hole: "chunk_at m e a (hs, 1)" and n: "n \<le> hs" "20 \<le> unat n" and bs: "bs = block_size hs n"
    and new: "tagged m' a 0 bs" "bs = hs \<or> tagged m' (a + bs) 1 (hs - bs)"
  shows "chain m' e a (carve hs n) (a + hs)"
    and "hole_addrs a (carve hs n) = (if bs = hs then {#} else {#a + bs#})"
proof -
  note bounds = block_size_bounds [OF n, folded bs]
  have e: "unat a + unat hs \<le> unat e" using hole by (simp add: chunk_at_def)
  have le: "unat bs \<le> unat hs" using bounds(2) by (simp add: word_le_nat_alt)
  have "chunk_at m' e a (bs, 0)" using new(1) bounds(3) e le by (intro tagged_chunk) simp_all
  moreover have "chunk_at m' e (a + bs) (hs - bs, 1)" if "bs \<noteq> hs"
  proof (rule tagged_chunk)
    show "tagged m' (a + bs) 1 (hs - bs)" "20 \<le> unat (hs - bs)" using new(2) bounds(5) that by simp_all
    have "unat (a + bs) = unat a + unat bs" using e le unat_lt_u32 [of e] by (intro unat_add_lem32) linarith
    then show "unat (a + bs) + unat (hs - bs) \<le> unat e" using e le bounds(4) by simp
  qed simp
  ultimately show "chain m' e a (carve hs n) (a + hs)" by (simp add: carve_def bs [symmetric])
  show "hole_addrs a (carve hs n) = (if bs = hs then {#} else {#a + bs#})" by (simp add: carve_def bs [symmetric])
qed

text \<open>A chain with one chunk replaced by others of the same extent, in a memory that differs only there.\<close>

lemma chain_replace:
  assumes old: "chain m e b us a" "chunk_at m e a c" "chain m e (a + fst c) vs e" and b: "unat b \<le> unat e"
    and new: "chain m' e a ds (a + fst c)"
    and same: "\<And>x. unat b \<le> unat x \<Longrightarrow> \<not> in_region a (unat (fst c)) x \<Longrightarrow> m' x = m x"
  shows "chain m' e b (us @ ds @ vs) e"
    and "hole_addrs b (us @ ds @ vs) = hole_addrs b us + hole_addrs a ds + hole_addrs (a + fst c) vs"
proof -
  note ub = chain_bounds [OF old(1) b] chunk_end [OF old(2)] chunk_region [OF old(2)]
  have le: "unat (a + fst c) \<le> unat e" using old(2) ub(2) by (simp add: chunk_at_def)
  have us: "chain m' e b us a" using old(1) b by (rule chain_frame) (use ub same in auto)
  moreover have "chain m' e (a + fst c) vs e" using old(3) le by (rule chain_frame) (use ub same in auto)
  ultimately show "chain m' e b (us @ ds @ vs) e" using new by (auto simp: chain_append)
  show "hole_addrs b (us @ ds @ vs) = hole_addrs b us + hole_addrs a ds + hole_addrs (a + fst c) vs"
    using hole_addrs_append [OF us, of "ds @ vs"] hole_addrs_append [OF new, of vs] by (simp add: add.assoc)
qed

text \<open>The hole that \<open>alloc\<close> takes: a smallest one that is large enough.\<close>

definition best_fit :: "chunk list \<Rightarrow> u32 \<Rightarrow> u32 \<Rightarrow> bool" where
  "best_fit cs n hs \<longleftrightarrow> n \<le> hs \<and> (\<forall>c \<in> set cs. snd c = 1 \<longrightarrow> n \<le> fst c \<longrightarrow> hs \<le> fst c)"

lemma hole_in_chain:
  assumes "chain m e a cs z" and "c \<in> set cs" and "snd c = 1"
  shows "\<exists>x. x \<in># hole_addrs a cs \<and> h_size m x = fst c"
proof -
  obtain us vs where cs: "cs = us @ c # vs" using assms(2) by (meson split_list)
  then obtain y where y: "chain m e a us y" "chunk_at m e y c" using assms(1) by (auto simp: chain_append)
  have "y \<in># hole_addrs a cs" using hole_addrs_append [OF y(1), of "c # vs"] assms(3) by (simp add: cs)
  then show ?thesis using y(2) by (auto simp: chunk_at_def header_at_def)
qed

lemma first_fit_hole:
  assumes inv: "heap_inv cs hp s" and n: "20 \<le> n" and c: "(m, 1) \<in> set cs" "n \<le> m"
  shows "\<exists>k us hs vs a. first_fit (mem s) n 0 (oa_list (mem s) (hp_index (heaps s hp))) k
    \<and> oa_list (mem s) (hp_index (heaps s hp)) ! k = a \<and> cs = us @ (hs, 1) # vs \<and> best_fit cs n hs
    \<and> chain (mem s) (hp_end_address (heaps s hp)) (hp_start_address (heaps s hp)) us a
    \<and> chunk_at (mem s) (hp_end_address (heaps s hp)) a (hs, 1)
    \<and> chain (mem s) (hp_end_address (heaps s hp)) (a + hs) vs (hp_end_address (heaps s hp))"
proof -
  let ?L = "oa_list (mem s) (hp_index (heaps s hp))" and ?f = "h_size (mem s)"
  let ?b = "hp_start_address (heaps s hp)" and ?e = "hp_end_address (heaps s hp)"
  let ?X = "hole_addrs ?b cs"
  note D = heap_invD [OF inv refl refl]
  note L = index_members [OF D(2)]
  define k where "k = length (takeWhile (\<lambda>x. \<not> n \<le> ?f x) ?L)"
  obtain h where h: "h \<in># ?X" "n \<le> ?f h" using hole_in_chain [OF D(3) c(1)] c(2) by auto
  have k: "k < length ?L" "n \<le> ?f (?L ! k)"
    using L(1) [OF h(1)] h(2) nth_length_takeWhile [of "\<lambda>x. \<not> n \<le> ?f x" ?L]
      takeWhile_eq_all_conv [of "\<lambda>x. \<not> n \<le> ?f x" ?L] length_takeWhile_le [of "\<lambda>x. \<not> n \<le> ?f x" ?L]
      takeWhile_eq_take [of "\<lambda>x. \<not> n \<le> ?f x" ?L] unfolding k_def by (metis le_neq_implies_less take_all_iff order_refl)+
  have less: "\<not> n \<le> ?f (?L ! j)" if "j < k" for j
    using that nth_mem [of j "takeWhile (\<lambda>x. \<not> n \<le> ?f x) ?L"] takeWhile_nth [of j "\<lambda>x. \<not> n \<le> ?f x" ?L]
    by (auto simp: k_def dest: set_takeWhileD)
  have best: "?L ! k \<noteq> 0 \<and> ?f (?L ! k) \<le> ?f x" if "x \<in># ?X" "n \<le> ?f x" for x
    using D(2) k less n L [OF that(1)] that(2) hole_below_null [OF inv that(1)]
    by (intro first_fit_best [where n = n]) (auto simp: index_holds_def Let_def not_le)
  then have "?L ! k \<in># ?X" using index_entries [OF D(2) nth_mem [OF k(1)]] h by blast
  from hole_addrs_split [OF D(3) this] obtain us hs vs where
    split: "cs = us @ (hs, 1) # vs" "chain (mem s) ?e ?b us (?L ! k)" "chunk_at (mem s) ?e (?L ! k) (hs, 1)"
      "chain (mem s) ?e (?L ! k + hs) vs ?e" by blast
  then have hs: "?f (?L ! k) = hs" by (simp add: chunk_at_def header_at_def)
  have "best_fit cs n hs"
    unfolding best_fit_def using k(2) hs best hole_in_chain [OF D(3)] by metis
  moreover have "first_fit (mem s) n 0 ?L k"
    using k less by (simp add: first_fit_def hole_fits_unaligned)
  ultimately show ?thesis using split by blast
qed

text \<open>One chunk of the heap, and its replacement by others in its place.\<close>

lemma heap_inv_split:
  assumes "heap_inv (us @ c # vs) hp s"
    and "chain (mem s) (hp_end_address (heaps s hp)) (hp_start_address (heaps s hp)) us a"
  shows "chunk_at (mem s) (hp_end_address (heaps s hp)) a c"
    and "chain (mem s) (hp_end_address (heaps s hp)) (a + fst c) vs (hp_end_address (heaps s hp))"
proof -
  let ?b = "hp_start_address (heaps s hp)" and ?e = "hp_end_address (heaps s hp)"
  obtain y where "chain (mem s) ?e ?b us y" "chunk_at (mem s) ?e y c" "chain (mem s) ?e (y + fst c) vs ?e"
    using heap_invD(3) [OF assms(1) refl refl] by (auto simp: chain_append)
  moreover have "y = a" using chain_unique [OF calculation(1) assms(2)] .
  ultimately show "chunk_at (mem s) ?e a c" "chain (mem s) ?e (a + fst c) vs ?e" by simp_all
qed

lemma heap_inv_replace:
  assumes inv: "heap_inv cs hp s" and cs: "cs = us @ c # vs" and g: "index_grown j hp s t"
    and us: "chain (mem s) (hp_end_address (heaps s hp)) (hp_start_address (heaps s hp)) us a"
    and idx: "index_holds (hole_addrs (hp_start_address (heaps s hp)) us + hole_addrs a ds + hole_addrs (a + fst c) vs) hp t"
    and ds: "chain (mem t) (hp_end_address (heaps s hp)) a ds (a + fst c)"
    and same: "\<And>x. outside_index hp s x \<Longrightarrow> \<not> in_region a (unat (fst c)) x \<Longrightarrow> mem t x = mem s x"
  shows "heap_inv (us @ ds @ vs) hp t"
proof -
  let ?b = "hp_start_address (heaps s hp)" and ?e = "hp_end_address (heaps s hp)"
  note D = heap_invD [OF inv refl refl]
  note c = heap_inv_split [OF inv [unfolded cs] us]
  have same': "mem t x = mem s x" if "unat ?b \<le> unat x" "\<not> in_region a (unat (fst c)) x" for x
    using that by (intro same) (simp_all add: outside_index_def)
  note r = chain_replace [OF us c D(1) ds same']
  have "mem t x = mem s x" if "in_region (0 + 8) 4 x" for x
  proof (rule same)
    have x: "unat x < 12" using that in_region_interval [of 8 4 x] by simp
    have arr: "12 \<le> unat (oa_array (hp_index (heaps s hp)))" "12 \<le> unat ?b"
      using D(2) by (auto simp: index_holds_def Let_def)
    then show "outside_index hp s x" using x by (simp add: outside_index_def)
    have "unat ?b \<le> unat a" using chain_bounds [OF us D(1)] by simp
    then show "\<not> in_region a (unat (fst c)) x" using x arr(2) chunk_region [OF c(1), of x] by simp
  qed
  then have "h_size (mem t) 0 = h_size (mem s) 0" unfolding h_size_def by (intro ld32_frame) simp
  then have "null_size_ok hp t" using D(4) by (simp add: null_size_ok_def index_grown_fields [OF g])
  then show ?thesis
    using inv r idx by (simp add: heap_inv_def index_grown_fields [OF g])
qed

lemma other_holes_apart:
  assumes "chain m e b us a" and "chunk_at m e a (hs, f)" and "chain m e (a + hs) vs z" and "unat b \<le> unat e"
    and "x \<in># hole_addrs b us + hole_addrs (a + hs) vs"
  shows "unat x + 12 \<le> unat a \<or> unat a + unat hs \<le> unat x"
proof -
  have "unat (a + hs) = unat a + unat hs" "unat (a + hs) \<le> unat e"
    using chunk_end [OF assms(2)] assms(2) by (simp_all add: chunk_at_def)
  then show ?thesis
    using assms(5) hole_addrs_bounds [OF assms(1,4), of x] hole_addrs_bounds [OF assms(3), of x] by fastforce
qed

text \<open>The bytes of a header and a footer.\<close>

definition tag_byte :: "u32 \<Rightarrow> u32 \<Rightarrow> u32 \<Rightarrow> bool" where
  "tag_byte h n x \<longleftrightarrow> in_region h 12 x \<or> in_region (h + n - 8) 8 x"

lemma alloc_from_hole_payload:
  assumes ok: "index_ok 2 hp s" and i: "unat i < unat (oa_size (hp_index (heaps s hp)))"
    and h: "oa_list (mem s) (hp_index (heaps s hp)) ! unat i = h" and hs: "h_size (mem s) h = hs"
    and bs: "bs = block_size hs (sz + 20)" and run: "alloc_from_hole sz 0 i hp s = Inr (p, t)"
    and x: "\<not> index_region 2 hp s x" "\<not> tag_byte h bs x" "bs \<noteq> hs \<Longrightarrow> \<not> tag_byte (h + bs) (hs - bs) x"
  shows "mem t x = mem s x"
proof -
  have "oa_fits (hp_index (heaps s hp))" using ok by (simp add: index_ok_def oa_fits_def)
  from index_remove_spec [OF this i] obtain m1 where rem: "index_remove i hp s = grown_index hp (s\<lparr>mem := m1\<rparr>)"
    and m1: "\<And>x. \<not> index_region 2 hp s x \<Longrightarrow> m1 x = mem s x"
    by (auto simp: index_region_def in_region_def)
  define m2 where "m2 = put_footer (h + bs - 8) h (put_header h 0 bs m1)"
  define s2 where "s2 = grown_index hp (s\<lparr>mem := m2\<rparr>)"
  have m2: "m2 x = mem s x" using x(1,2) m1 by (simp add: m2_def tag_byte_def put_footer_outside put_header_outside)
  let ?w = "write_rest (h + bs) (hs - bs) (hp_end_address (heaps s2 hp)) (mem s2)"
  have eq: "alloc_from_hole sz 0 i hp s =
      bind_res (if 0 < hs - bs then index_insert (h + bs) hp (s2\<lparr>mem := ?w\<rparr>) else Inr s2) (\<lambda>s. Inr (h + 12, s))"
    using alloc_from_hole_unaligned [OF i h bs [folded hs]] by (simp add: rem s2_def m2_def hs Let_def)
  show ?thesis
  proof (cases "0 < hs - bs")
    case False
    then show ?thesis using eq run m2 by (simp add: s2_def)
  next
    case True
    then have "bs \<noteq> hs" by auto
    then have w: "?w x = mem s x"
      using x(3) m2 by (simp add: write_rest_eq tag_byte_def put_footer_outside put_header_outside s2_def add.assoc)
    have arr: "index_region 1 hp (s2\<lparr>mem := ?w\<rparr>) = index_region 2 hp s"
      using ok index_region_grown [of hp "s\<lparr>mem := _\<rparr>" 1] by (auto simp: s2_def index_ok_def numeral_2_eq_2 index_region_def)
    have "index_ok 1 hp s2" using ok by (simp add: s2_def index_ok_grown numeral_2_eq_2)
    then obtain lt where lt: "oa_less_than (hp_index (heaps (s2\<lparr>mem := ?w\<rparr>) hp)) = Some lt" "oa_fits (hp_index (heaps (s2\<lparr>mem := ?w\<rparr>) hp))"
      by (auto simp: index_ok_def oa_fits_def)
    obtain m where "index_insert (h + bs) hp (s2\<lparr>mem := ?w\<rparr>) = Inr (grown_index hp (s2\<lparr>mem := ?w, mem := m\<rparr>))"
      "\<not> index_region 1 hp (s2\<lparr>mem := ?w\<rparr>) x \<longrightarrow> m x = ?w x"
      using index_insert_spec [OF lt, of "h + bs"] by (auto simp: index_region_def)
    then show ?thesis using eq run True w x(1) unfolding arr by auto
  qed
qed

text \<open>The tags that the allocation of \<open>n\<close> bytes from a hole of \<open>hs\<close> bytes writes: those of the block and of the rest.\<close>

definition carve_tag :: "u32 \<Rightarrow> u32 \<Rightarrow> u32 \<Rightarrow> u32 \<Rightarrow> bool" where
  "carve_tag a hs n x \<longleftrightarrow> tag_byte a (block_size hs n) x
     \<or> block_size hs n \<noteq> hs \<and> tag_byte (a + block_size hs n) (hs - block_size hs n) x"

lemma alloc_from_hole_inv:
  assumes inv: "heap_inv cs hp s" and cs: "cs = us @ (hs, 1) # vs"
    and us: "chain (mem s) (hp_end_address (heaps s hp)) (hp_start_address (heaps s hp)) us a"
    and hole: "chunk_at (mem s) (hp_end_address (heaps s hp)) a (hs, 1)"
    and vs: "chain (mem s) (hp_end_address (heaps s hp)) (a + hs) vs (hp_end_address (heaps s hp))"
    and k: "unat k < unat (oa_size (hp_index (heaps s hp)))" "oa_list (mem s) (hp_index (heaps s hp)) ! unat k = a"
    and sz: "sz + 20 \<le> hs" "20 \<le> unat (sz + 20)"
    and room: "unat (oa_size (hp_index (heaps s hp))) + 2 \<le> unat (oa_max_size (hp_index (heaps s hp)))"
  shows "\<exists>j t. alloc_from_hole sz 0 k hp s = Inr (a + 12, t) \<and> index_grown j hp s t \<and> j \<le> 2
    \<and> heap_inv (us @ carve hs (sz + 20) @ vs) hp t
    \<and> (\<forall>x. outside_index hp s x \<longrightarrow> \<not> in_region a (unat hs) x \<longrightarrow> mem t x = mem s x)
    \<and> (\<forall>x. outside_index hp s x \<longrightarrow> \<not> carve_tag a hs (sz + 20) x \<longrightarrow> mem t x = mem s x)"
proof -
  let ?i = "hp_index (heaps s hp)" and ?b = "hp_start_address (heaps s hp)" and ?e = "hp_end_address (heaps s hp)"
  let ?X = "hole_addrs ?b cs"
  note D = heap_invD [OF inv refl refl]
  have hs: "h_size (mem s) a = hs" using hole by (simp add: chunk_at_def header_at_def)
  have in_e: "unat a + unat hs \<le> unat ?e" using hole by (simp add: chunk_at_def)
  have X: "?X - {#a#} = hole_addrs ?b us + hole_addrs (a + hs) vs"
    unfolding cs using hole_addrs_append [OF us, of "(hs, 1) # vs"] by simp
  have ub: "unat ?b \<le> unat a" using chain_bounds [OF us D(1)] by simp
  have null: "h_size (mem s) 0 < 20 \<or> (\<forall>x \<in># ?X. h_size (mem s) x \<le> h_size (mem s) 0)"
    using hole_below_null [OF inv] by force
  define bs where "bs = block_size hs (sz + 20)"
  obtain j t where t: "alloc_from_hole sz 0 k hp s = Inr (a + 12, t)" "index_grown j hp s t" "j \<le> 2"
    and idx: "index_holds (?X - {#a#} + (if bs = hs then {#} else {#a + bs#})) hp t"
    using alloc_index [OF D(2) room null k hs sz ub in_e other_holes_apart [OF us hole vs D(1)] bs_def] unfolding X by blast
  have away: "\<not> index_region 2 hp s x" if "outside_index hp s x" for x
    using index_holdsD(4) [OF D(2) room that] by (simp add: index_region_def)
  have out: "outside_index hp s x" if "in_region a (unat hs) x" for x
    using that chunk_region [OF hole, of x] ub by (simp add: outside_index_def)
  have "index_ok 2 hp s"
    using room index_holdsD(1,3) [OF D(2)] by (simp add: index_ok_def)
  note spec = alloc_from_hole_spec [OF this k hs sz in_e _ bs_def]
  have tag: "tagged (mem t) a 0 bs" "bs = hs \<or> tagged (mem t) (a + bs) 1 (hs - bs)"
    using spec t(1) away out by auto
  have same: "mem t x = mem s x" if "outside_index hp s x" "\<not> in_region a (unat hs) x" for x
    using spec t(1) away out that by auto
  have "mem t x = mem s x" if "outside_index hp s x" "\<not> carve_tag a hs (sz + 20) x" for x
    using alloc_from_hole_payload [OF \<open>index_ok 2 hp s\<close> k hs bs_def t(1), of x] away that
    by (auto simp: carve_tag_def bs_def [symmetric])
  moreover have "heap_inv (us @ carve hs (sz + 20) @ vs) hp t"
  proof (rule heap_inv_replace [OF inv cs t(2) us])
    show "chain (mem t) ?e a (carve hs (sz + 20)) (a + fst (hs, 1))"
      using chain_carve(1) [OF hole sz bs_def tag] by simp
    show "index_holds (hole_addrs ?b us + hole_addrs a (carve hs (sz + 20)) + hole_addrs (a + fst (hs, 1)) vs) hp t"
      using idx unfolding X chain_carve(2) [OF hole sz bs_def tag] by (simp add: ac_simps split: if_splits)
  qed (use same in auto)
  ultimately show ?thesis using t same by blast
qed

lemma alloc_heap_inv:
  assumes inv: "heap_inv cs hp s" and sz: "unat sz + 20 < 4294967296" and fits: "(m, 1) \<in> set cs" "sz + 20 \<le> m"
    and room: "unat (oa_size (hp_index (heaps s hp))) + 2 \<le> unat (oa_max_size (hp_index (heaps s hp)))"
  shows "\<exists>us hs vs a j t. cs = us @ (hs, 1) # vs \<and> best_fit cs (sz + 20) hs
    \<and> chain (mem s) (hp_end_address (heaps s hp)) (hp_start_address (heaps s hp)) us a
    \<and> alloc (Suc n) sz 0 hp s = Inr (a + 12, t) \<and> index_grown j hp s t \<and> j \<le> 2
    \<and> heap_inv (us @ carve hs (sz + 20) @ vs) hp t
    \<and> (\<forall>x. outside_index hp s x \<longrightarrow> \<not> in_region a (unat hs) x \<longrightarrow> mem t x = mem s x)
    \<and> (\<forall>x. outside_index hp s x \<longrightarrow> \<not> carve_tag a hs (sz + 20) x \<longrightarrow> mem t x = mem s x)"
proof -
  let ?i = "hp_index (heaps s hp)" and ?n = "sz + 20"
  note D = heap_invD [OF inv refl refl]
  have big: "20 \<le> unat ?n" using sz by (simp add: unat_add_lem32)
  then have "20 \<le> ?n" by (simp add: word_le_nat_alt)
  from first_fit_hole [OF inv this fits] obtain k us hs vs a where
    k: "first_fit (mem s) ?n 0 (oa_list (mem s) ?i) k" "oa_list (mem s) ?i ! k = a"
    and cs: "cs = us @ (hs, 1) # vs" and best: "best_fit cs ?n hs"
    and us: "chain (mem s) (hp_end_address (heaps s hp)) (hp_start_address (heaps s hp)) us a"
    and hole: "chunk_at (mem s) (hp_end_address (heaps s hp)) a (hs, 1)"
    and vs: "chain (mem s) (hp_end_address (heaps s hp)) (a + hs) vs (hp_end_address (heaps s hp))"
    by blast
  have "unat (oa_size ?i) < 4294967295" using room index_holdsD(3) [OF D(2)] by linarith
  note found = find_smallest_hole_first [OF k(1) this]
  have run: "alloc (Suc n) sz 0 hp s = alloc_from_hole sz 0 (of_nat k) hp s"
    using found by (simp add: alloc.simps sizeof_header_def sizeof_footer_def Let_def add.assoc)
  have k': "unat (of_nat k :: u32) < unat (oa_size ?i)" "oa_list (mem s) ?i ! unat (of_nat k :: u32) = a"
    using k found(3) by (simp_all add: first_fit_def)
  have "?n \<le> hs" using best by (simp add: best_fit_def)
  from alloc_from_hole_inv [OF inv cs us hole vs k' this big room] show ?thesis
    unfolding run using cs best us by blast
qed

section \<open>Releasing between blocks in use keeps the invariant\<close>

text \<open>No hole next to the block, and the block is not the last one.\<close>

definition no_holes_around :: "chunk list \<Rightarrow> chunk list \<Rightarrow> bool" where
  "no_holes_around us vs \<longleftrightarrow> (us = [] \<or> snd (last us) = 0) \<and> vs \<noteq> [] \<and> snd (hd vs) = 0"

lemma no_hole_on_left:
  assumes X: "index_holds X hp s" and room: "unat (oa_size (hp_index (heaps s hp))) + 2 \<le> unat (oa_max_size (hp_index (heaps s hp)))"
    and us: "chain (mem s) e (hp_start_address (heaps s hp)) us a" "us = [] \<or> snd (last us) = 0"
  shows "\<not> hole_on_left (mem s) a"
proof (cases "us = []")
  case True
  let ?i = "hp_index (heaps s hp)"
  let ?k = "unat (oa_max_size ?i) - 2"
  have "oa_elem (mem s) (oa_array ?i) ?k = 0" using X room by (simp add: index_holds_def Let_def)
  moreover have "oa_array ?i + 4 * of_nat ?k = a - 8"
  proof -
    have "unat (oa_array ?i) + 4 * unat (oa_max_size ?i) = unat a" using X us(1) True by (simp add: index_holds_def Let_def)
    then have "of_nat (unat (oa_array ?i) + 4 * unat (oa_max_size ?i)) = a" by simp
    then have eq: "a = oa_array ?i + 4 * oa_max_size ?i" by simp
    have k: "of_nat ?k = oa_max_size ?i - 2" using room by (simp add: of_nat_diff)
    show ?thesis unfolding k eq by (simp add: right_diff_distrib)
  qed
  ultimately show ?thesis by (simp add: hole_on_left_def f_magic_def oa_elem_def HEAP_MAGIC_def)
next
  case False
  then obtain ws c where us': "us = ws @ [c]" by (metis rev_exhaust)
  then obtain y where y: "chunk_at (mem s) e y c" "a = y + fst c" using us(1) by (auto simp: chain_append)
  have "snd c = 0" using us(2) False us' by simp
  then have "h_is_hole (mem s) y = 0" "f_header (mem s) (a - 8) = y"
    using y by (auto simp: chunk_at_def header_at_def footer_at_def)
  then show ?thesis by (simp add: hole_on_left_def)
qed

lemma no_hole_on_right:
  assumes "chain m e a vs z" and "vs \<noteq> []" and "snd (hd vs) = 0"
  shows "\<not> hole_on_right m a"
  using assms by (cases vs) (simp_all add: hole_on_right_def chunk_at_def header_at_def)

text \<open>The memory with the block marked as a hole, before the index is changed.\<close>

lemma freed_block:
  assumes inv: "heap_inv (us @ (n, 0) # vs) hp s" and m1: "m1 = freed a (mem s)"
    and us: "chain (mem s) (hp_end_address (heaps s hp)) (hp_start_address (heaps s hp)) us a"
  shows "index_holds (hole_addrs (hp_start_address (heaps s hp)) us + hole_addrs (a + n) vs) hp (s\<lparr>mem := m1\<rparr>)"
    and "chain m1 (hp_end_address (heaps s hp)) (hp_start_address (heaps s hp)) us a"
    and "chain m1 (hp_end_address (heaps s hp)) (a + n) vs (hp_end_address (heaps s hp))"
    and "tagged m1 a 1 n"
proof -
  let ?b = "hp_start_address (heaps s hp)" and ?e = "hp_end_address (heaps s hp)"
  let ?X = "hole_addrs ?b us + hole_addrs (a + n) vs"
  note D = heap_invD [OF inv refl refl]
  have c: "chunk_at (mem s) ?e a (n, 0)" and vs: "chain (mem s) ?e (a + n) vs ?e"
    using heap_inv_split [OF inv us] by simp_all
  have n: "20 \<le> unat n" "unat a + unat n \<le> unat ?e" "unat (a + n) = unat a + unat n"
    using c chunk_end [OF c] by (simp_all add: chunk_at_def)
  have ub: "unat ?b \<le> unat a" using chain_bounds [OF us D(1)] by simp
  have lt: "unat a + unat n \<le> 4294967296" using n(2) unat_lt_u32 [of ?e] by linarith
  have same: "m1 x = mem s x" if "\<not> in_region a (unat n) x" for x
    using that header_in_block [OF n(1)] header_region(2) [of a] unfolding m1 by (blast intro: freed_outside)
  have "index_holds ?X hp s" using D(2) hole_addrs_append [OF us, of "(n, 0) # vs"] by simp
  from index_holds_frame [OF this same ub lt] show "index_holds ?X hp (s\<lparr>mem := m1\<rparr>)"
    using other_holes_apart [OF us c vs D(1)] by blast
  show "chain m1 ?e ?b us a"
    using us D(1) by (rule chain_frame) (use same chunk_region [OF c] in auto)
  show "chain m1 ?e (a + n) vs ?e"
    using vs by (rule chain_frame) (use same chunk_region [OF c] n in auto)
  show "tagged m1 a 1 n" unfolding m1 by (rule freed_tagged [OF chunk_tagged [OF c] n(1)])
qed

lemma free_between_blocks:
  assumes inv: "heap_inv (us @ (n, 0) # vs) hp s" and around: "no_holes_around us vs"
    and us: "chain (mem s) (hp_end_address (heaps s hp)) (hp_start_address (heaps s hp)) us a"
    and room: "unat (oa_size (hp_index (heaps s hp))) + 2 \<le> unat (oa_max_size (hp_index (heaps s hp)))"
  shows "free (a + 12) hp s = index_insert a hp (s\<lparr>mem := freed a (mem s)\<rparr>)"
proof -
  let ?e = "hp_end_address (heaps s hp)" and ?m = "freed a (mem s)"
  note f = freed_block [OF inv refl us]
  have c: "chunk_at (mem s) ?e a (n, 0)" using heap_inv_split [OF inv us] by simp
  then have n: "20 \<le> unat n" "unat a + unat n \<le> unat ?e" by (simp_all add: chunk_at_def)
  have "unat a + 12 < 4294967296" using n unat_lt_u32 [of ?e] by linarith
  then have "unat (a + 12) = unat a + 12" using unat_add_lem32 [of a 12] by simp
  then have p: "a + 12 \<noteq> 0" by auto
  have left: "\<not> hole_on_left ?m a"
    using no_hole_on_left [OF f(1), of ?e us a] room f(2) around by (simp add: no_holes_around_def)
  have right: "\<not> hole_on_right ?m (a + n)" using no_hole_on_right [OF f(3)] around by (simp add: no_holes_around_def)
  have "a + n \<noteq> ?e"
    using f(3) around by (cases vs) (auto simp: no_holes_around_def chunk_at_def)
  from free_is_insert [OF chunk_tagged [OF c] p refl left right this] show ?thesis .
qed

lemma free_heap_inv:
  assumes inv: "heap_inv (us @ (n, 0) # vs) hp s" and around: "no_holes_around us vs"
    and us: "chain (mem s) (hp_end_address (heaps s hp)) (hp_start_address (heaps s hp)) us a"
    and room: "unat (oa_size (hp_index (heaps s hp))) + 2 \<le> unat (oa_max_size (hp_index (heaps s hp)))"
  shows "\<exists>t. free (a + 12) hp s = Inr t \<and> index_grown 1 hp s t \<and> heap_inv (us @ (n, 1) # vs) hp t
    \<and> (\<forall>x. outside_index hp s x \<longrightarrow> x \<noteq> a + 4 \<longrightarrow> mem t x = mem s x)"
proof -
  let ?b = "hp_start_address (heaps s hp)" and ?e = "hp_end_address (heaps s hp)" and ?m1 = "freed a (mem s)"
  let ?X = "hole_addrs ?b us + hole_addrs (a + n) vs"
  note f = freed_block [OF inv refl us] and D = heap_invD [OF inv refl refl]
  have c: "chunk_at (mem s) ?e a (n, 0)" using heap_inv_split [OF inv us] by simp
  then have n: "20 \<le> unat n" "unat a + unat n \<le> unat ?e" by (simp_all add: chunk_at_def)
  have ub: "unat ?b \<le> unat a" using chain_bounds [OF us D(1)] by simp
  have lt: "unat a + 12 \<le> 4294967296" using n unat_lt_u32 [of ?e] by linarith
  have "h_size ?m1 a = n" using f(4) by (simp add: tagged_def header_at_def)
  then obtain m where ins: "index_insert a hp (s\<lparr>mem := ?m1\<rparr>) = Inr (grown_index hp (s\<lparr>mem := m\<rparr>))"
    and idx: "index_holds (add_mset a ?X) hp (grown_index hp (s\<lparr>mem := m\<rparr>))"
    and same: "\<And>x. outside_index hp s x \<Longrightarrow> m x = ?m1 x"
    using index_insert_holds [OF f(1), of a] room ub lt n(1)
    by (auto simp: word_less_nat_alt word_le_nat_alt outside_index_def)
  let ?t = "grown_index hp (s\<lparr>mem := m\<rparr>)"
  have out: "outside_index hp s x" if "in_region a (unat n) x" for x
    using that chunk_region [OF c, of x] ub by (simp add: outside_index_def)
  have "tagged m a 1 n" by (rule tagged_frame [OF f(4) _ n(1)]) (use same out in blast)
  then have ds: "chain (mem ?t) ?e a [(n, 1)] (a + fst (n, 0))" using n by (simp add: tagged_chunk)
  have keep: "mem ?t x = mem s x" if "outside_index hp s x" "x \<noteq> a + 4" for x
    using same [OF that(1)] freed_outside [OF that(2)] by simp
  have idx': "index_holds (hole_addrs ?b us + hole_addrs a [(n, 1)] + hole_addrs (a + fst (n, 0)) vs) hp ?t"
    using idx by simp
  have "heap_inv (us @ [(n, 1)] @ vs) hp ?t"
  proof (rule heap_inv_replace [OF inv refl index_grown_once us idx' ds])
    fix x assume x: "outside_index hp s x" "\<not> in_region a (unat (fst (n, 0))) x"
    then have "x \<noteq> a + 4" using header_in_block [OF n(1)] header_region(2) [of a] by auto
    then show "mem ?t x = mem s x" using keep x(1) by blast
  qed
  then show ?thesis
    using free_between_blocks [OF inv around us room] ins index_grown_once [of hp s m] keep by (intro exI [of _ ?t]) simp
qed

section \<open>The blocks in use\<close>

text \<open>The blocks that are handed out: the address the caller has, and how many bytes are the caller's.\<close>

primrec live :: "u32 \<Rightarrow> chunk list \<Rightarrow> (u32 \<times> u32) list" where
  "live a [] = []"
| "live a (c # cs) = (if snd c = 0 then [(a + 12, fst c - 20)] else []) @ live (a + fst c) cs"

lemma live_append: "chain m e a us y \<Longrightarrow> live a (us @ vs) = live a us @ live y vs"
  by (induction us arbitrary: a) auto

lemma payload_bounds:
  assumes "chunk_at m e a (n, f)"
  shows "unat (a + 12) = unat a + 12" and "unat (n - 20) = unat n - 20" and "unat a + unat n \<le> unat e" and "20 \<le> unat n"
proof -
  show n: "unat a + unat n \<le> unat e" "20 \<le> unat n" using assms by (simp_all add: chunk_at_def)
  then have "unat a + 12 < 4294967296" using unat_lt_u32 [of e] by linarith
  then show "unat (a + 12) = unat a + 12" using unat_add_lem32 [of a 12] by simp
  show "unat (n - 20) = unat n - 20" using n(2) unat_sub_lem32 [of 20 n] by simp
qed

lemma live_bounds:
  "chain m e a cs z \<Longrightarrow> unat a \<le> unat e \<Longrightarrow> (q, l) \<in> set (live a cs) \<Longrightarrow>
     unat a + 12 \<le> unat q \<and> unat q + unat l + 8 \<le> unat z"
proof (induction cs arbitrary: a)
  case (Cons c cs)
  obtain n f where c: "c = (n, f)" by fastforce
  then have ch: "chunk_at m e a (n, f)" and rest: "chain m e (a + n) cs z" using Cons.prems(1) by simp_all
  note p = payload_bounds [OF ch]
  have u: "unat (a + n) = unat a + unat n" "unat (a + n) \<le> unat e" using chunk_end [OF ch] p(3) by simp_all
  note z = chain_bounds [OF rest u(2)]
  show ?case
  proof (cases "(q, l) \<in> set (live (a + n) cs)")
    case True
    then show ?thesis using Cons.IH [OF rest u(2) True] u(1) by simp
  next
    case False
    then have "q = a + 12" "l = n - 20" using Cons.prems(3) c by (auto split: if_splits)
    then show ?thesis using p z u(1) by simp
  qed
qed simp

text \<open>Blocks in use lie apart, with room for a footer and a header between them.\<close>

lemma live_apart:
  "chain m e a cs z \<Longrightarrow> unat a \<le> unat e \<Longrightarrow>
     sorted_wrt (\<lambda>(p, k) (q, l). unat p + unat k + 20 \<le> unat q) (live a cs)"
proof (induction cs arbitrary: a)
  case (Cons c cs)
  obtain n f where c: "c = (n, f)" by fastforce
  then have ch: "chunk_at m e a (n, f)" and rest: "chain m e (a + n) cs z" using Cons.prems(1) by simp_all
  note p = payload_bounds [OF ch]
  have u: "unat (a + n) = unat a + unat n" "unat (a + n) \<le> unat e" using chunk_end [OF ch] p(3) by simp_all
  have "unat (a + 12) + unat (n - 20) + 20 \<le> unat q" if "(q, l) \<in> set (live (a + n) cs)" for q l
    using live_bounds [OF rest u(2) that] p u(1) by linarith
  then show ?case using Cons.IH [OF rest u(2)] c by (auto simp: sorted_wrt_append)
qed simp

lemma live_away:
  assumes us: "chain m e b us a" and c: "chunk_at m e a (hs, f)" and vs: "chain m e (a + hs) vs e" and b: "unat b \<le> unat e"
    and q: "(q, l) \<in> set (live b us @ live (a + hs) vs)" and x: "in_region q (unat l) x"
  shows "unat b \<le> unat x \<and> \<not> in_region a (unat hs) x"
proof -
  have u: "unat (a + hs) = unat a + unat hs" "unat (a + hs) \<le> unat e" "unat b \<le> unat a"
    using chunk_end [OF c] c chain_bounds [OF us b] by (simp_all add: chunk_at_def)
  have q': "unat b + 12 \<le> unat q \<and> unat q + unat l + 8 \<le> unat a \<or> unat a + unat hs + 12 \<le> unat q \<and> unat q + unat l + 8 \<le> unat e"
    using q live_bounds [OF us b, of q l] live_bounds [OF vs u(2), of q l] u(1) by auto
  then have "unat q + unat l \<le> 4294967296" using u(2) unat_lt_u32 [of e] unat_lt_u32 [of a] by linarith
  then have "unat q \<le> unat x" "unat x < unat q + unat l" using x in_region_interval [of q "unat l" x] by simp_all
  then show ?thesis using q' u chunk_region [OF c, of x] by auto
qed

lemma alloc_keeps_live:
  assumes inv: "heap_inv cs hp s" and sz: "unat sz + 20 < 4294967296" and fits: "(m, 1) \<in> set cs" "sz + 20 \<le> m"
    and room: "unat (oa_size (hp_index (heaps s hp))) + 2 \<le> unat (oa_max_size (hp_index (heaps s hp)))"
  shows "\<exists>p k t ds us hs vs. alloc (Suc n) sz 0 hp s = Inr (p, t) \<and> heap_inv ds hp t
    \<and> cs = us @ (hs, 1) # vs \<and> ds = us @ carve hs (sz + 20) @ vs \<and> best_fit cs (sz + 20) hs \<and> (\<exists>j \<le> 2. index_grown j hp s t)
    \<and> mset (live (hp_start_address (heaps s hp)) ds) = add_mset (p, k) (mset (live (hp_start_address (heaps s hp)) cs)) \<and> sz \<le> k
    \<and> (\<forall>(q, l) \<in> set (live (hp_start_address (heaps s hp)) cs). \<forall>x. in_region q (unat l) x \<longrightarrow> mem t x = mem s x)"
proof -
  let ?b = "hp_start_address (heaps s hp)" and ?e = "hp_end_address (heaps s hp)"
  note D = heap_invD [OF inv refl refl]
  obtain us hs vs a j t where cs: "cs = us @ (hs, 1) # vs" and best: "best_fit cs (sz + 20) hs"
    and us: "chain (mem s) ?e ?b us a"
    and t: "alloc (Suc n) sz 0 hp s = Inr (a + 12, t)" "index_grown j hp s t" "j \<le> 2"
    and inv': "heap_inv (us @ carve hs (sz + 20) @ vs) hp t"
    and same: "\<forall>x. outside_index hp s x \<longrightarrow> \<not> in_region a (unat hs) x \<longrightarrow> mem t x = mem s x"
    using alloc_heap_inv [OF inv sz fits room, of n] by blast
  have hole: "chunk_at (mem s) ?e a (hs, 1)" and vs: "chain (mem s) ?e (a + hs) vs ?e"
    using heap_inv_split [OF inv [unfolded cs] us] by simp_all
  define k where "k = block_size hs (sz + 20) - 20"
  have old: "live ?b cs = live ?b us @ live (a + hs) vs" unfolding cs using live_append [OF us] by simp
  have new: "live ?b (us @ carve hs (sz + 20) @ vs) = live ?b us @ (a + 12, k) # live (a + hs) vs"
    using live_append [OF us, of "carve hs (sz + 20) @ vs"] by (simp add: carve_def k_def)
  have big: "20 \<le> unat (sz + 20)" "unat (sz + 20) = unat sz + 20" using sz by (simp_all add: unat_add_lem32)
  have "sz + 20 \<le> block_size hs (sz + 20)" using block_size_bounds(1) [OF _ big(1)] best by (simp add: best_fit_def)
  then have k: "sz \<le> k" using big(2) unat_sub_lem32 [of 20 "block_size hs (sz + 20)"] by (simp add: k_def word_le_nat_alt)
  have "mem t x = mem s x" if q: "(q, l) \<in> set (live ?b cs)" and x: "in_region q (unat l) x" for q l x
    using same live_away [OF us hole vs D(1) q [unfolded old] x] by (simp add: outside_index_def)
  then have "\<forall>(q, l) \<in> set (live ?b cs). \<forall>x. in_region q (unat l) x \<longrightarrow> mem t x = mem s x" by blast
  moreover have "mset (live ?b (us @ carve hs (sz + 20) @ vs)) = add_mset (a + 12, k) (mset (live ?b cs))"
    using old new by simp
  ultimately show ?thesis using t inv' cs best k by blast
qed

section \<open>Writes by the callers\<close>

lemma index_grown_mem: "index_grown 0 hp s (s\<lparr>mem := m\<rparr>)"
  by (auto simp: index_grown_def intro!: exI [of _ m])

lemma tags_outside_payload:
  assumes "chunk_at m e a (n, f)" and "\<And>x. \<not> in_region (a + 12) (unat (n - 20)) x \<Longrightarrow> m' x = m x"
  shows "in_region a 12 x \<Longrightarrow> m' x = m x" and "in_region (a + n - 8) 8 x \<Longrightarrow> m' x = m x"
proof -
  note p = payload_bounds [OF assms(1)]
  have lt: "unat e \<le> 4294967296" using unat_lt_u32 [of e] by linarith
  have i: "in_region (a + 12) (unat (n - 20)) x \<longleftrightarrow> unat a + 12 \<le> unat x \<and> unat x < unat a + unat n - 8" for x
    using in_region_interval [of "a + 12" "unat (n - 20)" x] p lt by auto
  have "unat (a + n) = unat a + unat n" using chunk_end [OF assms(1)] by simp
  then have f: "unat (a + n - 8) = unat a + unat n - 8" using p unat_sub_lem32 [of 8 "a + n"] by simp
  show "m' x = m x" if "in_region a 12 x"
    using that in_region_interval [of a 12 x] p lt i by (intro assms(2)) auto
  show "m' x = m x" if "in_region (a + n - 8) 8 x"
    using that in_region_interval [of "a + n - 8" 8 x] p lt i f by (intro assms(2)) auto
qed

lemma heap_inv_payload:
  assumes inv: "heap_inv (us @ (n, 0) # vs) hp s"
    and us: "chain (mem s) (hp_end_address (heaps s hp)) (hp_start_address (heaps s hp)) us a"
    and same: "\<And>x. \<not> in_region (a + 12) (unat (n - 20)) x \<Longrightarrow> m x = mem s x"
  shows "heap_inv (us @ (n, 0) # vs) hp (s\<lparr>mem := m\<rparr>)"
proof -
  let ?b = "hp_start_address (heaps s hp)" and ?e = "hp_end_address (heaps s hp)"
  note D = heap_invD [OF inv refl refl]
  have c: "chunk_at (mem s) ?e a (n, 0)" and vs: "chain (mem s) ?e (a + n) vs ?e" using heap_inv_split [OF inv us] by simp_all
  note p = payload_bounds [OF c]
  have lt: "unat a + unat n \<le> 4294967296" using p(3) unat_lt_u32 [of ?e] by linarith
  have keep: "m x = mem s x" if "\<not> in_region a (unat n) x" for x
    using that in_region_interval [of "a + 12" "unat (n - 20)" x] chunk_region [OF c, of x] p lt by (intro same) auto
  note tags = tags_outside_payload [OF c same]
  have "header_at m a 0 n" using c tags(1) by (auto simp: chunk_at_def intro: header_at_frame)
  moreover have "footer_at m (a + n - 8) a" using c tags(2) by (auto simp: chunk_at_def intro: footer_at_frame)
  ultimately have "chunk_at m ?e a (n, 0)" using c by (simp add: chunk_at_def)
  moreover have "index_holds (hole_addrs ?b us + hole_addrs (a + n) vs) hp (s\<lparr>mem := m\<rparr>)"
    using D(2) hole_addrs_append [OF us, of "(n, 0) # vs"] keep lt chain_bounds [OF us D(1)] other_holes_apart [OF us c vs D(1)]
    by (intro index_holds_frame [where a = a and n = "unat n"]) auto
  ultimately have "heap_inv (us @ [(n, 0)] @ vs) hp (s\<lparr>mem := m\<rparr>)"
    using keep by (intro heap_inv_replace [OF inv refl index_grown_mem us]) auto
  then show ?thesis by simp
qed

section \<open>A new heap, and sequences of allocations\<close>

lemma create_heap_inv:
  assumes boot: "kheap s = 0" and al: "start mod 0x1000 = 0" "fin mod 0x1000 = 0"
    and lay: "12 \<le> unat start" "unat start + 0x80000 + 20 \<le> unat fin"
    and null: "h_size (mem s) 0 < 20 \<or> fin - (start + 0x80000) < h_size (mem s) 0"
  shows "\<exists>t. create_heap n start fin mx sv ro s = Inr (placement_address s, t)
    \<and> heap_inv [(fin - (start + 0x80000), 1)] (placement_address s) t
    \<and> heaps t (placement_address s) = \<lparr>hp_index = \<lparr>oa_array = start, oa_size = 1, oa_max_size = HEAP_INDEX_SIZE,
          oa_less_than = Some header_t_less_than\<rparr>, hp_start_address = start + 0x80000, hp_end_address = fin,
        hp_max_address = mx, hp_supervisor = sv, hp_readonly = ro\<rparr>"
proof -
  let ?hp = "placement_address s" and ?h = "start + 0x80000"
  obtain m t where run: "create_heap n start fin mx sv ro s = Inr (?hp, t)" and mt: "mem t = m"
    and ht: "heaps t ?hp = \<lparr>hp_index = \<lparr>oa_array = start, oa_size = 1, oa_max_size = HEAP_INDEX_SIZE,
          oa_less_than = Some header_t_less_than\<rparr>, hp_start_address = ?h, hp_end_address = fin,
        hp_max_address = mx, hp_supervisor = sv, hp_readonly = ro\<rparr>"
    and e: "oa_elem m start 0 = ?h" "\<And>k. 0 < k \<Longrightarrow> k < 0x20000 \<Longrightarrow> oa_elem m start k = 0"
    and hd: "header_at m ?h 1 (fin - ?h)" and same: "\<And>x. in_region start (0x80000 + 12) x \<or> m x = mem s x"
    using create_heap_spec [OF boot al, of n mx sv ro] by (auto simp del: fun_upd_apply simp add: fun_upd_same)
  have "unat start + 0x80000 < 4294967296" using lay(2) unat_lt_u32 [of fin] by linarith
  then have h: "unat ?h = unat start + 0x80000" "unat ?h \<le> unat fin"
    using lay(2) unat_add_lem32 [of start "0x80000"] by simp_all
  have n: "unat (fin - ?h) = unat fin - unat ?h" by (rule unat_sub_lem32) (rule h(2))
  have h0: "?h \<noteq> 0" using h(1) by auto
  have list: "oa_list m \<lparr>oa_array = start, oa_size = 1, oa_max_size = HEAP_INDEX_SIZE, oa_less_than = Some header_t_less_than\<rparr> = [?h]"
    using e(1) by (simp add: oa_list_def)
  have "h_size m 0 = h_size (mem s) 0" unfolding h_size_def
  proof (rule ld32_frame)
    fix x :: u32 assume "in_region (0 + 8) 4 x"
    then have "unat x < 12" using in_region_interval [of 8 4 x] by simp
    moreover have "unat start + (0x80000 + 12) \<le> 4294967296" using lay(2) unat_lt_u32 [of fin] by linarith
    ultimately show "m x = mem s x" using same [of x] lay(1) in_region_interval [of start "0x80000 + 12" x] by simp
  qed
  then have "null_size_ok ?hp t" using null by (simp add: null_size_ok_def ht mt)
  moreover have "unat start + 0x80000 + 12 \<le> 4294967296" using lay(2) unat_lt_u32 [of fin] by linarith
  then have "index_holds {#?h#} ?hp t"
    using lay(1) h h0 e(2) list by (auto simp: index_holds_def Let_def ht mt HEAP_INDEX_SIZE_def index_sorted_def)
  moreover have "chunk_at m fin ?h (fin - ?h, 1)" using hd n h lay(2) by (simp add: chunk_at_def)
  ultimately have "heap_inv [(fin - ?h, 1)] ?hp t" using h(2) by (simp add: heap_inv_def ht mt word_le_nat_alt)
  then show ?thesis using run ht by blast
qed

text \<open>Calls of \<open>kmalloc\<close> in a row, with the addresses they return.\<close>

primrec kmalloc_all :: "nat \<Rightarrow> u32 list \<Rightarrow> 'a vm_scheme \<Rightarrow> ('a vm_scheme, u32 list \<times> 'a vm_scheme) result" where
  "kmalloc_all n [] s = Inr ([], s)"
| "kmalloc_all n (sz # szs) s =
     bind_res (kmalloc n sz s) (\<lambda>(p, s). bind_res (kmalloc_all n szs s) (\<lambda>(ps, s). Inr (p # ps, s)))"

lemma kmalloc_heap: "kheap s \<noteq> 0 \<Longrightarrow> kmalloc n sz s = alloc n sz 0 (kheap s) s"
  by (simp add: kmalloc_def kmalloc_int_def kmalloc_int_with_def bind_res_def split: sum.splits prod.splits)

lemma index_grown_room:
  assumes "index_grown j hp s t" and "j \<le> 2"
    and "unat (oa_size (hp_index (heaps s hp))) + (2 + r) \<le> unat (oa_max_size (hp_index (heaps s hp)))"
  shows "unat (oa_size (hp_index (heaps t hp))) + r \<le> unat (oa_max_size (hp_index (heaps t hp)))"
proof -
  have "unat (oa_size (hp_index (heaps s hp)) + of_nat j) = unat (oa_size (hp_index (heaps s hp))) + j"
    using assms(2,3) unat_lt_u32 [of "oa_max_size (hp_index (heaps s hp))"] by (intro unat_add_of_nat) linarith
  then show ?thesis using assms(2,3) by (simp add: index_grown_fields [OF assms(1)])
qed

text \<open>A hole with room for all requests keeps having room for those that are left.\<close>

lemma large_hole_left:
  assumes "(m, 1) \<in> set (us @ (hs, 1) # vs)" and "unat sz + 20 + (r + 20) \<le> unat m" and "sz + 20 \<le> hs"
  shows "\<exists>m'. (m', 1) \<in> set (us @ carve hs (sz + 20) @ vs) \<and> r + 20 \<le> unat m'"
proof (cases "(m, 1) \<in> set us \<union> set vs")
  case True
  then show ?thesis using assms(2) by (intro exI [of _ m]) auto
next
  case False
  then have m: "hs = m" using assms(1) by auto
  have "unat sz + 20 < 4294967296" using assms(2) unat_lt_u32 [of m] by linarith
  then have n: "unat (sz + 20) = unat sz + 20" using unat_add_lem32 [of sz 20] by simp
  then have u: "unat (m - (sz + 20)) = unat m - (unat sz + 20)" using assms(2) unat_sub_lem32 [of "sz + 20" m] by simp
  then have "\<not> m - (sz + 20) < 20" "m \<noteq> sz + 20" using assms(2) n by (auto simp: word_less_nat_alt)
  then have "(m - (sz + 20), 1) \<in> set (carve hs (sz + 20))" by (auto simp: carve_def block_size_def m)
  then show ?thesis using u assms(2) by (intro exI [of _ "m - (sz + 20)"]) simp
qed

lemma kmalloc_all_live:
  assumes "heap_inv cs (kheap s) s" and "kheap s \<noteq> 0"
    and "(m, 1) \<in> set cs" and "sum_list (map (\<lambda>z. unat z + 20) szs) + 20 \<le> unat m"
    and "unat (oa_size (hp_index (heaps s (kheap s)))) + 2 * length szs \<le> unat (oa_max_size (hp_index (heaps s (kheap s))))"
  shows "\<exists>ps ks t ds. kmalloc_all (Suc n) szs s = Inr (ps, t) \<and> heap_inv ds (kheap s) t \<and> kheap t = kheap s
    \<and> hp_start_address (heaps t (kheap s)) = hp_start_address (heaps s (kheap s))
    \<and> length ps = length szs \<and> list_all2 (\<le>) szs ks
    \<and> mset (live (hp_start_address (heaps s (kheap s))) ds) = mset (zip ps ks) + mset (live (hp_start_address (heaps s (kheap s))) cs)
    \<and> (\<forall>(q, l) \<in> set (live (hp_start_address (heaps s (kheap s))) cs). \<forall>x. in_region q (unat l) x \<longrightarrow> mem t x = mem s x)"
  using assms
proof (induction szs arbitrary: cs s m)
  case Nil
  then show ?case by (intro exI [of _ "[]"] exI [of _ s] exI [of _ cs]) auto
next
  case (Cons sz szs)
  let ?hp = "kheap s" and ?b = "hp_start_address (heaps s (kheap s))"
  let ?r = "sum_list (map (\<lambda>z. unat z + 20) szs)"
  have m: "unat sz + 20 + (?r + 20) \<le> unat m" using Cons.prems(4) by simp
  then have sz: "unat sz + 20 < 4294967296" using unat_lt_u32 [of m] by linarith
  then have "sz + 20 \<le> m" using m unat_add_lem32 [of sz 20] by (simp add: word_le_nat_alt)
  moreover have room: "unat (oa_size (hp_index (heaps s ?hp))) + (2 + 2 * length szs) \<le> unat (oa_max_size (hp_index (heaps s ?hp)))"
    using Cons.prems(5) by simp
  then have "unat (oa_size (hp_index (heaps s ?hp))) + 2 \<le> unat (oa_max_size (hp_index (heaps s ?hp)))" by simp
  ultimately obtain p k t ds us hs vs j where t: "alloc (Suc n) sz 0 ?hp s = Inr (p, t)" "heap_inv ds ?hp t"
    and cs: "cs = us @ (hs, 1) # vs" "ds = us @ carve hs (sz + 20) @ vs" "best_fit cs (sz + 20) hs"
    and j: "j \<le> 2" "index_grown j ?hp s t"
    and live: "mset (live ?b ds) = add_mset (p, k) (mset (live ?b cs))" "sz \<le> k"
    and same: "\<forall>(q, l) \<in> set (live ?b cs). \<forall>x. in_region q (unat l) x \<longrightarrow> mem t x = mem s x"
    using alloc_keeps_live [OF Cons.prems(1) sz Cons.prems(3), of n] by blast
  obtain m' where m': "(m', 1) \<in> set ds" "?r + 20 \<le> unat m'"
    using large_hole_left [OF Cons.prems(3) [unfolded cs(1)] m] cs by (auto simp: best_fit_def)
  note g = index_grown_fields [OF j(2)]
  have IH: "heap_inv ds (kheap t) t" "kheap t \<noteq> 0" "(m', 1) \<in> set ds" "?r + 20 \<le> unat m'"
    "unat (oa_size (hp_index (heaps t (kheap t)))) + 2 * length szs \<le> unat (oa_max_size (hp_index (heaps t (kheap t))))"
    using t(2) g Cons.prems(2) m' index_grown_room [OF j(2,1) room] by simp_all
  from Cons.IH [OF this] obtain ps ks u es where run: "kmalloc_all (Suc n) szs t = Inr (ps, u)"
    and u: "heap_inv es ?hp u" "kheap u = ?hp" "hp_start_address (heaps u ?hp) = ?b" "length ps = length szs" "list_all2 (\<le>) szs ks"
      "mset (live ?b es) = mset (zip ps ks) + mset (live ?b ds)"
    and keep: "\<forall>(q, l) \<in> set (live ?b ds). \<forall>x. in_region q (unat l) x \<longrightarrow> mem u x = mem t x"
    unfolding g by blast
  have "kmalloc_all (Suc n) (sz # szs) s = Inr (p # ps, u)" using t(1) run by (simp add: kmalloc_heap [OF Cons.prems(2)])
  moreover have "mset (live ?b es) = mset (zip (p # ps) (k # ks)) + mset (live ?b cs)" using u(6) live(1) by simp
  moreover have "mem u x = mem s x" if "(q, l) \<in> set (live ?b cs)" "in_region q (unat l) x" for q l x
  proof -
    have "(q, l) \<in># mset (live ?b ds)" using that(1) live(1) by simp
    then have "(q, l) \<in> set (live ?b ds)" by simp
    from bspec [OF keep this] bspec [OF same that(1)] show ?thesis using that(2) by simp
  qed
  then have "\<forall>(q, l) \<in> set (live ?b cs). \<forall>x. in_region q (unat l) x \<longrightarrow> mem u x = mem s x" by blast
  moreover have "length (p # ps) = length (sz # szs)" "list_all2 (\<le>) (sz # szs) (k # ks)" using u(4,5) live(2) by simp_all
  ultimately show ?case using u(1-3) by blast
qed

section \<open>Properties\<close>

lemma live_unchanged_elsewhere:
  assumes inv: "heap_inv (us @ (n, f) # vs) hp s"
    and us: "chain (mem s) (hp_end_address (heaps s hp)) (hp_start_address (heaps s hp)) us a"
    and q: "(q, l) \<in> set (live (hp_start_address (heaps s hp)) us @ live (a + n) vs)" and x: "in_region q (unat l) x"
  shows "outside_index hp s x \<and> \<not> in_region a (unat n) x"
  using live_away [OF us _ _ heap_invD(1) [OF inv refl refl] q x] heap_inv_split [OF inv us] by (simp add: outside_index_def)

lemma chain_end: "chain m e a cs z \<Longrightarrow> z = a + sum_list (map fst cs)"
proof (induction cs arbitrary: a)
  case (Cons c cs)
  then have "z = (a + fst c) + sum_list (map fst cs)" by (intro Cons.IH) simp
  then show ?case by (simp add: add.assoc)
qed simp

text \<open>
  C1. The allocator never hands out memory twice: as long as some hole is large enough, \<open>alloc\<close> on a
  well-formed heap returns a block of at least the requested size, the heap is well-formed again, the blocks in
  use are the old ones and the new one, any two of them are apart by a footer and a header, and what
  the callers have stored in the old ones is still there.
\<close>
theorem alloc_keeps_blocks_apart:
  assumes "heap_inv cs hp s" and "(m, 1) \<in> set cs" and "sz + 20 \<le> m" and "unat sz + 20 < 4294967296"
    and "unat (oa_size (hp_index (heaps s hp))) + 2 \<le> unat (oa_max_size (hp_index (heaps s hp)))"
    and "b = hp_start_address (heaps s hp)"
  shows "\<exists>p k t ds. alloc (Suc n) sz 0 hp s = Inr (p, t) \<and> heap_inv ds hp t \<and> sz \<le> k
    \<and> mset (live b ds) = add_mset (p, k) (mset (live b cs))
    \<and> sorted_wrt (\<lambda>(p, k) (q, l). unat p + unat k + 20 \<le> unat q) (live b ds)
    \<and> (\<forall>(q, l) \<in> set (live b cs). \<forall>x. in_region q (unat l) x \<longrightarrow> mem t x = mem s x)"
proof -
  obtain p k t ds j where t: "alloc (Suc n) sz 0 hp s = Inr (p, t)" "heap_inv ds hp t" "sz \<le> k"
    "mset (live b ds) = add_mset (p, k) (mset (live b cs))" and j: "index_grown j hp s t"
    and same: "\<forall>(q, l) \<in> set (live b cs). \<forall>x. in_region q (unat l) x \<longrightarrow> mem t x = mem s x"
    using alloc_keeps_live [OF assms(1,4,2,3,5), of n] unfolding assms(6) by blast
  have "sorted_wrt (\<lambda>(p, k) (q, l). unat p + unat k + 20 \<le> unat q) (live b ds)"
    using live_apart heap_invD(1,3) [OF t(2) refl refl] index_grown_fields(1) [OF j] assms(6) by metis
  then show ?thesis using t same by blast
qed

text \<open>
  C16. Releasing a block between two blocks in use: \<open>free\<close> returns, the heap is well-formed again, the
  block is a hole that later calls can take, the other blocks stay in use and keep their contents.
\<close>
theorem free_returns_block:
  assumes inv: "heap_inv (us @ (k, 0) # vs) hp s" and around: "no_holes_around us vs"
    and room: "unat (oa_size (hp_index (heaps s hp))) + 2 \<le> unat (oa_max_size (hp_index (heaps s hp)))"
    and b: "b = hp_start_address (heaps s hp)" and p: "p = b + sum_list (map fst us) + 12"
  shows "\<exists>t. free p hp s = Inr t \<and> heap_inv (us @ (k, 1) # vs) hp t
    \<and> mset (live b (us @ (k, 0) # vs)) = add_mset (p, k - 20) (mset (live b (us @ (k, 1) # vs)))
    \<and> (\<forall>(q, l) \<in> set (live b (us @ (k, 1) # vs)). \<forall>x. in_region q (unat l) x \<longrightarrow> mem t x = mem s x)"
proof -
  obtain a where us: "chain (mem s) (hp_end_address (heaps s hp)) b us a"
    using heap_invD(3) [OF inv b refl] by (auto simp: chain_append)
  have a: "p = a + 12" using chain_end [OF us] p by simp
  have live: "live b (us @ c # vs) = live b us @ (if snd c = 0 then [(a + 12, fst c - 20)] else []) @ live (a + fst c) vs" for c
    using live_append [OF us] by simp
  obtain t where t: "free (a + 12) hp s = Inr t" "heap_inv (us @ (k, 1) # vs) hp t"
    and same: "\<forall>x. outside_index hp s x \<longrightarrow> x \<noteq> a + 4 \<longrightarrow> mem t x = mem s x"
    using free_heap_inv [OF inv around us [unfolded b] room] by blast
  have "20 \<le> unat k" using heap_inv_split(1) [OF inv us [unfolded b]] by (simp add: chunk_at_def)
  then have "in_region a (unat k) (a + 4)" using header_in_block header_region(2) by blast
  then have "mem t x = mem s x" if "(q, l) \<in> set (live b us @ live (a + k) vs)" "in_region q (unat l) x" for q l x
    using same live_unchanged_elsewhere [OF inv us [unfolded b] that [unfolded b]] by metis
  then show ?thesis using t live a by auto
qed

text \<open>
  C19. A new heap serves every sequence of requests that fits: after \<open>create_heap\<close>, calls of \<open>kmalloc\<close> with any
  sizes that (with 20 bytes each for header and footer) leave room for one more header and footer all return; each block
  has at least the requested size, and the blocks are apart from each other. The index limits
  the number of calls, since each one makes it grow by two entries.
\<close>
theorem new_heap_serves_requests:
  assumes "kheap s = 0" and "start mod 0x1000 = 0" and "fin mod 0x1000 = 0" and "12 \<le> unat start"
    and "unat start + 0x80000 + sum_list (map (\<lambda>z. unat z + 20) szs) + 20 \<le> unat fin"
    and "h_size (mem s) 0 < 20 \<or> fin - (start + 0x80000) < h_size (mem s) 0"
    and "2 * length szs < 0x20000" and "placement_address s \<noteq> 0"
  shows "\<exists>t ps ks u ds. create_heap n start fin mx sv ro s = Inr (placement_address s, t)
    \<and> kmalloc_all (Suc n') szs (t\<lparr>kheap := placement_address s\<rparr>) = Inr (ps, u)
    \<and> heap_inv ds (placement_address s) u \<and> length ps = length szs \<and> list_all2 (\<le>) szs ks
    \<and> mset (live (start + 0x80000) ds) = mset (zip ps ks)
    \<and> sorted_wrt (\<lambda>(p, k) (q, l). unat p + unat k + 20 \<le> unat q) (live (start + 0x80000) ds)"
proof -
  let ?hp = "placement_address s" and ?h = "start + 0x80000"
  have "unat start + 0x80000 + 20 \<le> unat fin" using assms(5) by simp
  from create_heap_inv [OF assms(1-4) this assms(6), of n mx sv ro] obtain t where
    t: "create_heap n start fin mx sv ro s = Inr (?hp, t)" and inv: "heap_inv [(fin - ?h, 1)] ?hp t"
    and ht: "hp_start_address (heaps t ?hp) = ?h" "oa_size (hp_index (heaps t ?hp)) = 1"
      "oa_max_size (hp_index (heaps t ?hp)) = 0x20000" by (auto simp: HEAP_INDEX_SIZE_def)
  let ?t = "t\<lparr>kheap := ?hp\<rparr>"
  have inv': "heap_inv [(fin - ?h, 1)] (kheap ?t) ?t"
    using inv by (simp add: heap_inv_def index_holds_def null_size_ok_def)
  have "unat start + 0x80000 < 4294967296" using assms(5) unat_lt_u32 [of fin] by linarith
  then have "unat ?h = unat start + 0x80000" using unat_add_lem32 [of start "0x80000"] by simp
  then have n: "sum_list (map (\<lambda>z. unat z + 20) szs) + 20 \<le> unat (fin - ?h)"
    using assms(5) unat_sub_lem32 [of ?h fin] by simp
  from kmalloc_all_live [OF inv' _ _ n, of n'] assms(7,8) obtain ps ks u ds where
    u: "kmalloc_all (Suc n') szs ?t = Inr (ps, u)" "heap_inv ds ?hp u" "length ps = length szs" "list_all2 (\<le>) szs ks"
      "mset (live ?h ds) = mset (zip ps ks)" "hp_start_address (heaps u ?hp) = ?h"
    by (auto simp: ht)
  have "sorted_wrt (\<lambda>(p, k) (q, l). unat p + unat k + 20 \<le> unat q) (live ?h ds)"
    using live_apart heap_invD(1,3) [OF u(2) refl refl] u(6) by metis
  then show ?thesis using t u by blast
qed

theorem new_heap_serves_requests_witness:
  "\<exists>t p q u. create_heap 0 0xC0000000 0xC0100000 0xCFFFF000 0 0 vm0 = Inr (0x200000, t)
    \<and> kmalloc_all 1 [100, 200] (t\<lparr>kheap := 0x200000\<rparr>) = Inr ([p, q], u)"
proof -
  have "kheap vm0 = 0" "(0xC0000000 :: u32) mod 0x1000 = 0" "(0xC0100000 :: u32) mod 0x1000 = 0" "12 \<le> unat (0xC0000000 :: u32)"
    "unat (0xC0000000 :: u32) + 0x80000 + sum_list (map (\<lambda>z. unat z + 20) [100 :: u32, 200]) + 20 \<le> unat (0xC0100000 :: u32)"
    "h_size (mem vm0) 0 < 20 \<or> 0xC0100000 - (0xC0000000 + 0x80000) < h_size (mem vm0) 0"
    "2 * length [100 :: u32, 200] < 0x20000" "placement_address vm0 \<noteq> 0"
    by (simp_all add: h_size_def)
  from new_heap_serves_requests [OF this, of 0 "0xCFFFF000" 0 0 0] obtain t ps u where
    "create_heap 0 0xC0000000 0xC0100000 0xCFFFF000 0 0 vm0 = Inr (0x200000, t)"
    "kmalloc_all 1 [100, 200] (t\<lparr>kheap := 0x200000\<rparr>) = Inr (ps, u)" "length ps = 2"
    by (auto simp: numeral_2_eq_2)
  moreover then obtain p q where "ps = [p, q]" by (auto simp: numeral_2_eq_2 length_Suc_conv)
  ultimately show ?thesis by blast
qed

text \<open>A heap with two blocks of 120 bytes at its start, for the instances below.\<close>

lemma heap_of_two:
  assumes "r < 0x10000"
  shows "\<exists>s :: vm. heap_inv [(120, 0), (120, 0), (0x80000 - 240, 1)] 0x200000 s \<and> hp_start_address (heaps s 0x200000) = 0xC0080000
    \<and> unat (oa_size (hp_index (heaps s 0x200000))) + r \<le> unat (oa_max_size (hp_index (heaps s 0x200000)))"
proof -
  let ?hp = "0x200000 :: u32"
  have "kheap vm0 = 0" "(0xC0000000 :: u32) mod 0x1000 = 0" "(0xC0100000 :: u32) mod 0x1000 = 0" "12 \<le> unat (0xC0000000 :: u32)"
    "unat (0xC0000000 :: u32) + 0x80000 + 20 \<le> unat (0xC0100000 :: u32)"
    "h_size (mem vm0) 0 < 20 \<or> 0xC0100000 - (0xC0000000 + 0x80000) < h_size (mem vm0) 0"
    by (simp_all add: h_size_def)
  from create_heap_inv [OF this, of 0 "0xCFFFF000" 0 0] obtain s :: vm where
    s: "heap_inv [(0x80000, 1)] ?hp s" "hp_start_address (heaps s ?hp) = 0xC0080000"
      "unat (oa_size (hp_index (heaps s ?hp))) + (2 + (2 + r)) \<le> unat (oa_max_size (hp_index (heaps s ?hp)))"
    using assms by (auto simp: HEAP_INDEX_SIZE_def)
  obtain t j where t: "heap_inv [(120, 0), (0x80000 - 120, 1)] ?hp t" "index_grown j ?hp s t" "j \<le> 2"
    using alloc_heap_inv [OF s(1), of 100 "0x80000" 0] s(3)
    by (auto simp: Cons_eq_append_conv carve_def block_size_def)
  have rt: "unat (oa_size (hp_index (heaps t ?hp))) + (2 + r) \<le> unat (oa_max_size (hp_index (heaps t ?hp)))"
    using index_grown_room [OF t(2,3) s(3)] by simp
  then obtain u i where u: "heap_inv [(120, 0), (120, 0), (0x80000 - 240, 1)] ?hp u" "index_grown i ?hp t u" "i \<le> 2"
    using alloc_heap_inv [OF t(1), of 100 "0x80000 - 120" 0]
    by (auto simp: Cons_eq_append_conv carve_def block_size_def)
  then show ?thesis
    using index_grown_room [OF u(2,3) rt] s(2) index_grown_fields(1) [OF t(2)] index_grown_fields(1) [OF u(2)]
    by (intro exI [of _ u]) simp
qed

theorem alloc_keeps_blocks_apart_witness:
  "\<exists>(s :: vm) p k t ds. alloc 1 50 0 0x200000 s = Inr (p, t) \<and> heap_inv ds 0x200000 t
    \<and> mset (live 0xC0080000 ds) = add_mset (p, k) {#(0xC008000C, 100), (0xC0080084, 100)#}"
proof -
  obtain s :: vm where s: "heap_inv [(120, 0), (120, 0), (0x80000 - 240, 1)] 0x200000 s" "hp_start_address (heaps s 0x200000) = 0xC0080000"
    "unat (oa_size (hp_index (heaps s 0x200000))) + 2 \<le> unat (oa_max_size (hp_index (heaps s 0x200000)))"
    using heap_of_two [of 2] by auto
  have "(0x80000 - 240, 1) \<in> set [(120 :: u32, 0 :: u8), (120, 0), (0x80000 - 240, 1)]" "(50 :: u32) + 20 \<le> 0x80000 - 240"
    "unat (50 :: u32) + 20 < 4294967296" by simp_all
  from alloc_keeps_blocks_apart [OF s(1) this s(3) s(2) [symmetric], of 0] obtain p k t ds where
    "alloc (Suc 0) 50 0 0x200000 s = Inr (p, t)" "heap_inv ds 0x200000 t"
    "mset (live 0xC0080000 ds) = add_mset (p, k) {#(0xC008000C, 100), (0xC0080084, 100)#}" by auto
  then show ?thesis unfolding One_nat_def by blast
qed

theorem free_returns_block_witness:
  "\<exists>s t :: vm. free 0xC008000C 0x200000 s = Inr t \<and> heap_inv [(120, 1), (120, 0), (0x80000 - 240, 1)] 0x200000 t"
proof -
  obtain s :: vm where s: "heap_inv [(120, 0), (120, 0), (0x80000 - 240, 1)] 0x200000 s" "hp_start_address (heaps s 0x200000) = 0xC0080000"
    "unat (oa_size (hp_index (heaps s 0x200000))) + 2 \<le> unat (oa_max_size (hp_index (heaps s 0x200000)))"
    using heap_of_two [of 2] by auto
  have "no_holes_around [] [(120, 0), (0x80000 - 240, 1)]" by (simp add: no_holes_around_def)
  from free_returns_block [of "[]" 120 "[(120, 0), (0x80000 - 240, 1)]" "0x200000" s, OF _ this s(3) s(2) [symmetric] refl]
  show ?thesis using s(1) by auto
qed

end
