(* ===== verification/Paging_Start.thy ===== *)
theory Paging_Start
  imports Paging Heap_Blocks
begin

text \<open>
  The page tables that the kernel starts with: \<open>paging_tables\<close>, the first part of
  \<^verbatim>\<open>initialise_paging\<close> in sys/paging.c, run on the placement allocator of sys/kheap.c from the state that the boot loader
  leaves. With \<open>P\<close> the placement address and \<open>D\<close> the first page boundary behind it, memory is laid out as
  follows: the frame bitset at \<open>P\<close>, the kernel directory at \<open>D\<close>, the table of the heap area at
  \<open>D + 0x3000\<close>, the table of low memory at \<open>D + 0x5000\<close>.

  The bitset has 512 bytes, of which the code allocates and clears 128 only. So the result needs the other
  384 bytes to be zero and free, which it assumes.
\<close>

section \<open>Page-aligned placement\<close>

lemma placed_next:
  assumes "0x1000 \<le> unat p" and "unat p + 0x1000 < 4294967296"
  shows "unat (placed_at 1 p) = unat p - unat p mod 4096 + 4096"
proof -
  have f: "unat (p AND 0xFFFFF000) = unat p - unat p mod 4096" by (rule unat_page_floor)
  have "unat p mod 4096 < 4096" by simp
  then have "0 < unat (p AND 0xFFFFF000)" using f assms(1) by linarith
  then have "p AND 0xFFFFF000 \<noteq> 0" by auto
  moreover have "unat ((p AND 0xFFFFF000) + 0x1000) = unat p - unat p mod 4096 + 4096"
    using assms(2) by (subst unat_add_lem32) (simp_all add: f)
  ultimately show ?thesis by (simp add: placed_at_def)
qed

lemma placed_in_page:
  assumes "unat d mod 4096 = 0" and "0x1000 \<le> unat d" and "k < 4096" and "unat d + j + 0x2000 < 4294967296"
    and "j mod 4096 = 0"
  shows "placed_at 1 (d + of_nat (j + k)) = d + of_nat (j + 0x1000)"
proof -
  have u: "unat (d + of_nat (j + k)) = unat d + (j + k)" using assms(3,4) by (intro unat_add_of_nat) simp
  have m: "(unat d + (j + k)) mod 4096 = k"
  proof -
    obtain q r where "unat d = 4096 * q" "j = 4096 * r" using assms(1,5) by (auto elim!: dvdE)
    then have "unat d + (j + k) = k + (q + r) * 4096" by simp
    then show ?thesis using assms(3) by (simp only: mod_mult_self1 mod_less)
  qed
  have "0x1000 \<le> unat d + (j + k)" and "unat d + (j + k) + 0x1000 < 4294967296" using assms(2,3,4) by simp_all
  then have "unat (placed_at 1 (d + of_nat (j + k))) = unat d + (j + k) - k + 4096"
    using placed_next [of "d + of_nat (j + k)", unfolded u m] by blast
  moreover have "unat (d + of_nat (j + 0x1000)) = unat d + (j + 0x1000)"
    using assms(4) by (intro unat_add_of_nat) simp
  ultimately show ?thesis unfolding word_unat_eq_iff by simp
qed

section \<open>Creating tables\<close>

text \<open>\<open>get_page\<close> on an empty slot while the placement allocator is in use.\<close>

lemma table_created:
  fixes s :: "'a vm_scheme" and address :: u32
  defines "T \<equiv> placed_at 1 (placement_address s)" and "idx \<equiv> address div 0x1000 div 1024"
  assumes "kheap s = 0" and "ld32 (mem s) (dir_table dir idx) = 0" and "sep dir 8196 T 4096"
  shows "\<exists>m. get_page (kmalloc_ap n) address 1 dir s
      = Inr (T + 4 * (address div 0x1000 mod 1024), s\<lparr>placement_address := T + 4096, mem := m\<rparr>)
    \<and> ld32 m (dir_table dir idx) = T \<and> ld32 m (dir_tablePhysical dir idx) = T OR 0x7
    \<and> (\<forall>x. in_region T 4096 x \<longrightarrow> m x = 0)
    \<and> (\<forall>x. \<not> in_region T 4096 x \<longrightarrow> \<not> in_region (dir_table dir idx) 4 x \<longrightarrow>
         \<not> in_region (dir_tablePhysical dir idx) 4 x \<longrightarrow> m x = mem s x)"
proof -
  have "kmalloc_ap n 4096 s = Inr ((T, T), s\<lparr>placement_address := T + 4096\<rparr>)"
    using kmalloc_int_placement [OF assms(3), of n 4096 1 True] by (simp add: kmalloc_ap_def T_def)
  then show ?thesis
    using get_page_create [of s dir address 1 "kmalloc_ap n" T T "s\<lparr>placement_address := T + 4096\<rparr>"]
      assms(4,5) by (simp add: idx_def)
qed

lemma page_range_Cons: "page_range a (Suc n) = a # map (\<lambda>k. a + 0x1000 * of_nat k) [1..<Suc n]"
  by (simp add: page_range_def upt_conv_Cons del: upt_Suc)

lemma make_pages:
  fixes s :: "'a vm_scheme"
  assumes "get_page km a 1 (kernel_directory s) s = Inr (p, t)" and "kernel_directory t = kernel_directory s"
    and "ld32 (mem t) (dir_table (kernel_directory s) (a div 0x1000 div 1024)) \<noteq> 0"
    and "unat a mod 4194304 = 0" and "Suc n \<le> 1024"
  shows "fold_res (make_page km) (page_range a (Suc n)) s = Inr t"
proof -
  have "make_page km (a + 0x1000 * of_nat k) t = Inr t" if "k < 1024" for k
    using get_page_present [of t "kernel_directory s" "a + 0x1000 * of_nat k"] assms(2,3)
    by (simp add: make_page_def page_index [OF assms(4) that])
  then have "fold_res (make_page km) (map (\<lambda>k. a + 0x1000 * of_nat k) [1..<Suc n]) t = Inr t"
    using assms(5) by (intro fold_res_id) auto
  then show ?thesis using assms(1) by (simp add: page_range_Cons make_page_def del: upt_Suc)
qed

lemma map_pages_first:
  fixes s :: "'a vm_scheme"
  assumes "get_page km a 1 (kernel_directory s) s = Inr (p, t)"
    and "get_page km a 1 (kernel_directory t) t = Inr (p, t)"
  shows "fold_res (map_page km) (page_range a (Suc n)) s = fold_res (map_page km) (page_range a (Suc n)) t"
  using assms by (simp add: page_range_Cons map_page_def del: upt_Suc)

section \<open>The layout\<close>

text \<open>The placement address \<open>P\<close> leaves room for the bitset in its page; \<open>D\<close> is the next page.\<close>

definition start_ok :: "u32 \<Rightarrow> u32 \<Rightarrow> bool" where
  "start_ok P D \<longleftrightarrow> 0x1000 \<le> unat P \<and> unat P + 0x8000 < 4294967296 \<and> unat P mod 4096 \<le> 3584
     \<and> unat D = unat P - unat P mod 4096 + 4096"

lemma start_okD:
  assumes "start_ok P D"
  shows "unat P + 512 \<le> unat D" and "unat D + 0x7000 < 4294967296" and "0x1000 \<le> unat D" and "unat D mod 4096 = 0"
    and "placed_at 1 (P + 128) = D"
proof -
  let ?r = "unat P mod 4096"
  have P: "0x1000 \<le> unat P" "unat P + 0x8000 < 4294967296" "?r \<le> 3584" "unat D = unat P - ?r + 4096"
    using assms by (simp_all add: start_ok_def)
  have r: "?r \<le> unat P" by simp
  show "unat P + 512 \<le> unat D" "unat D + 0x7000 < 4294967296" "0x1000 \<le> unat D" using P r by linarith+
  have "(unat P - ?r) mod 4096 = 0" by (simp add: minus_mod_eq_mult_div)
  then show "unat D mod 4096 = 0" unfolding P(4) by (simp only: mod_add_self2)
  have u: "unat (P + 128) = unat P + 128" using P(2) unat_add_lem32 [of P 128] by simp
  have "(unat P + 128) mod 4096 = ?r + 128"
  proof -
    have "(unat P + 128) mod 4096 = (?r + 128) mod 4096" by (simp add: mod_add_left_eq)
    then show ?thesis using P(3) by simp
  qed
  then have "unat (placed_at 1 (P + 128)) = unat D"
    using placed_next [of "P + 128"] P unfolding u by simp
  then show "placed_at 1 (P + 128) = D" by (simp add: word_unat_eq_iff)
qed

lemma start_places:
  assumes "start_ok P D"
  shows "placed_at 1 (D + 8196) = D + 0x3000" and "placed_at 1 (D + 0x4000) = D + 0x5000"
  using placed_in_page [OF start_okD(4,3) [OF assms], of 4 8192] placed_in_page [OF start_okD(4,3) [OF assms], of 0 "0x4000"]
    start_okD(2) [OF assms] by simp_all

lemma start_seps:
  assumes "start_ok P D"
  shows "sep P 512 D 8196" "sep P 512 (D + 0x3000) 4096" "sep P 512 (D + 0x5000) 4096"
    "sep D 8196 (D + 0x3000) 4096" "sep D 8196 (D + 0x5000) 4096" "sep (D + 0x3000) 4096 (D + 0x5000) 4096"
    "D + 0x3000 \<noteq> 0" "D + 0x5000 \<noteq> 0"
proof -
  note D = start_okD(1,2,3) [OF assms]
  have u: "unat (D + 0x3000) = unat D + 0x3000" "unat (D + 0x5000) = unat D + 0x5000"
    using D unat_add_lem32 [of D "0x3000"] unat_add_lem32 [of D "0x5000"] by simp_all
  show "sep P 512 D 8196" "sep P 512 (D + 0x3000) 4096" "sep P 512 (D + 0x5000) 4096"
    "sep D 8196 (D + 0x3000) 4096" "sep D 8196 (D + 0x5000) 4096" "sep (D + 0x3000) 4096 (D + 0x5000) 4096"
    using D u by (simp_all add: sepI_below)
  show "D + 0x3000 \<noteq> 0" "D + 0x5000 \<noteq> 0" using u D by auto
qed

lemma slot_in_directory:
  assumes "i < 1024"
  shows "in_region (dir_table dir (of_nat i)) 4 x \<Longrightarrow> in_region dir 8196 x"
    and "in_region (dir_tablePhysical dir (of_nat i)) 4 x \<Longrightarrow> in_region dir 8196 x"
  using assms in_region_offset [of dir "4 * i" 4 x 8196] in_region_offset [of dir "4096 + 4 * i" 4 x 8196]
  by (simp_all add: dir_table_def dir_tablePhysical_def add.assoc)

text \<open>What the creation of the table \<open>T\<close> in the slot \<open>i\<close> changes.\<close>

definition table_made :: "u32 \<Rightarrow> nat \<Rightarrow> u32 \<Rightarrow> memory \<Rightarrow> memory \<Rightarrow> bool" where
  "table_made D i T m m' \<longleftrightarrow>
     ld32 m' (dir_table D (of_nat i)) = T \<and> ld32 m' (dir_tablePhysical D (of_nat i)) = T OR 0x7
   \<and> (\<forall>x. in_region T 4096 x \<longrightarrow> m' x = 0)
   \<and> (\<forall>x. \<not> in_region T 4096 x \<longrightarrow> \<not> in_region (dir_table D (of_nat i)) 4 x \<longrightarrow>
        \<not> in_region (dir_tablePhysical D (of_nat i)) 4 x \<longrightarrow> m' x = m x)"

lemma table_created_at:
  fixes s :: "'a vm_scheme"
  assumes "kheap s = 0" and "placed_at 1 (placement_address s) = T" and "i < 1024" and "unat a = 4194304 * i"
    and "ld32 (mem s) (dir_table D (of_nat i)) = 0" and "sep D 8196 T 4096"
  shows "\<exists>m. get_page (kmalloc_ap n) a 1 D s = Inr (T, s\<lparr>placement_address := T + 4096, mem := m\<rparr>)
    \<and> table_made D i T (mem s) m"
proof -
  have i: "a div 0x1000 div 1024 = of_nat i" and k: "a div 0x1000 mod 1024 = 0"
    using assms(3,4) by (simp_all add: word_unat_eq_iff unat_div_distrib unat_mod_distrib unat_of_nat_small)
  have "4 * (0 :: u32) = 0" by simp
  then show ?thesis
    using table_created [of s D a n, unfolded assms(2) i k] assms(1,5,6)
    by (auto simp only: add_0_right table_made_def)
qed

lemma table_made_outside:
  assumes "table_made D i T m m'" and "i < 1024" and "\<not> in_region D 8196 x" and "\<not> in_region T 4096 x"
  shows "m' x = m x"
  using assms slot_in_directory [OF assms(2), of D x] by (auto simp: table_made_def)

lemma dir_slots:
  "dir_table D (of_nat i) = D + 4 * of_nat i" "dir_tablePhysical D (of_nat i) = D + 4 * of_nat (1024 + i)"
  by (simp_all add: dir_table_def dir_tablePhysical_def)

lemma table_made_words:
  assumes made: "table_made D i T m m'" and "i < 1024" and away: "sep D 8196 T 4096" and "w < 2049"
  shows "oa_elem m' D w = (if w = i then T else if w = 1024 + i then T OR 0x7 else oa_elem m D w)"
proof (cases "w = i \<or> w = 1024 + i")
  case True
  then show ?thesis using made assms(2) by (auto simp: table_made_def dir_elems)
next
  case False
  have "ld32 m' (D + 4 * of_nat w) = ld32 m (D + 4 * of_nat w)"
  proof (rule ld32_frame)
    fix x assume x: "in_region (D + 4 * of_nat w) 4 x"
    then have "in_region D 8196 x" using in_region_offset [of D "4 * w" 4 x 8196] assms(4) by simp
    then have out: "\<not> in_region T 4096 x" using sep_not_in_region away sep_commute by blast
    have slot: "\<not> in_region (D + 4 * of_nat k) 4 x" if "k \<noteq> w" "k < 2049" for k
      using sep_not_in_region [OF sep_index [of k w 4 D]] that x assms(4) by simp
    have "i \<noteq> w" "i < 2049" "1024 + i \<noteq> w" "1024 + i < 2049" using False assms(2) by auto
    then show "m' x = m x"
      using made out slot [of i] slot [of "1024 + i"] unfolding table_made_def dir_slots by blast
  qed
  then show ?thesis using False by (simp add: oa_elem_def)
qed

text \<open>The directory that the kernel starts with: two tables, every other slot empty.\<close>

definition start_table :: "u32 \<Rightarrow> nat \<Rightarrow> u32" where
  "start_table D i = (if i = 0 then D + 0x5000 else if i = 768 then D + 0x3000 else 0)"

definition start_directory :: "u32 \<Rightarrow> memory \<Rightarrow> bool" where
  "start_directory D m \<longleftrightarrow> ld32 m (dir_physicalAddr D) = dir_tablePhysical D 0
     \<and> (\<forall>i < 1024. ld32 m (dir_table D (of_nat i)) = start_table D i
        \<and> ld32 m (dir_tablePhysical D (of_nat i)) = (if start_table D i = 0 then 0 else start_table D i OR 0x7))"

lemma start_directory_slots:
  assumes "start_directory D m"
  shows "ld32 m (dir_table D 0) = D + 0x5000" and "ld32 m (dir_table D 768) = D + 0x3000"
proof -
  have "ld32 m (dir_table D (of_nat i)) = start_table D i" if "i < 1024" for i
    using assms that by (simp add: start_directory_def)
  from this [of 0] this [of 768] show "ld32 m (dir_table D 0) = D + 0x5000" and "ld32 m (dir_table D 768) = D + 0x3000"
    by (simp_all add: start_table_def)
qed

lemma start_directory_frame:
  assumes "start_directory D m" and "\<And>x. in_region D 8196 x \<Longrightarrow> m' x = m x"
  shows "start_directory D m'"
proof -
  have "oa_elem m' D w = oa_elem m D w" if "w < 2049" for w
    unfolding oa_elem_def
  proof (rule ld32_frame, rule assms(2))
    fix x assume "in_region (D + 4 * of_nat w) 4 x"
    then show "in_region D 8196 x" using in_region_offset [of D "4 * w" 4 x 8196] that by simp
  qed
  then show ?thesis using assms(1) unfolding start_directory_def dir_elems by simp
qed

lemma both_tables_made:
  assumes ok: "start_ok P D" and a: "table_made D 768 (D + 0x3000) m m1" and b: "table_made D 0 (D + 0x5000) m1 m2"
    and empty: "\<And>w. w < 2049 \<Longrightarrow> oa_elem m D w = (if w = 2048 then dir_tablePhysical D 0 else 0)"
  shows "start_directory D m2"
    and "\<And>x. in_region (D + 0x3000) 4096 x \<or> in_region (D + 0x5000) 4096 x \<Longrightarrow> m2 x = 0"
    and "\<And>x. \<not> in_region D 8196 x \<Longrightarrow> \<not> in_region (D + 0x3000) 4096 x \<Longrightarrow> \<not> in_region (D + 0x5000) 4096 x \<Longrightarrow>
      m2 x = m x"
proof -
  note seps = start_seps [OF ok]
  let ?H = "D + 0x3000" and ?L = "D + 0x5000"
  have w: "oa_elem m2 D w = (if w = 0 then ?L else if w = 1024 then ?L OR 0x7 else if w = 768 then ?H
      else if w = 1792 then ?H OR 0x7 else if w = 2048 then dir_tablePhysical D 0 else 0)" if "w < 2049" for w
    using table_made_words [OF b _ seps(5) that] table_made_words [OF a _ seps(4) that] empty [OF that] by auto
  show "start_directory D m2"
    unfolding start_directory_def dir_elems using seps(7,8) by (auto simp: w start_table_def)
  show "m2 x = 0" if x: "in_region ?H 4096 x \<or> in_region ?L 4096 x" for x
  proof (cases "in_region ?L 4096 x")
    case True
    then show ?thesis using b by (simp add: table_made_def)
  next
    case False
    then have h: "in_region ?H 4096 x" using x by simp
    then have "m2 x = m1 x" using False table_made_outside [OF b] sep_not_in_region [OF seps(4)] by simp
    then show ?thesis using h a by (simp add: table_made_def)
  qed
  show "m2 x = m x" if "\<not> in_region D 8196 x" "\<not> in_region ?H 4096 x" "\<not> in_region ?L 4096 x" for x
    using table_made_outside [OF a] table_made_outside [OF b] that by simp
qed

lemma tables_made:
  fixes s :: "'a vm_scheme"
  assumes ok: "start_ok P D" and s: "kheap s = 0" "placement_address s = D + 8196" "kernel_directory s = D"
    and empty: "ld32 (mem s) (dir_table D 768) = 0" "ld32 (mem s) (dir_table D 0) = 0"
  obtains t m1 m2 where "fold_res (make_page (kmalloc_ap n)) (page_range KHEAP_START 256) s = Inr t"
    and "fold_res (map_page (kmalloc_ap n)) (page_range 0 1024) t
      = fold_res (map_page (kmalloc_ap n)) (page_range 0 1024) (s\<lparr>placement_address := D + 0x6000, mem := m2\<rparr>)"
    and "table_made D 768 (D + 0x3000) (mem s) m1" and "table_made D 0 (D + 0x5000) m1 m2"
proof -
  note seps = start_seps [OF ok] and pl = start_places [OF ok]
  let ?H = "D + 0x3000" and ?L = "D + 0x5000"
  have e: "?H + 4096 = D + 0x4000" "?L + 4096 = D + 0x6000" by simp_all
  have p1: "placed_at 1 (placement_address s) = ?H" "(768 :: nat) < 1024" "unat KHEAP_START = 4194304 * 768"
    "ld32 (mem s) (dir_table D (of_nat 768)) = 0"
    using pl(1) s(2) empty(1) by (simp_all add: KHEAP_START_def)
  obtain m1 where g1: "get_page (kmalloc_ap n) KHEAP_START 1 D s = Inr (?H, s\<lparr>placement_address := D + 0x4000, mem := m1\<rparr>)"
    and t1: "table_made D 768 ?H (mem s) m1"
    using table_created_at [OF s(1) p1 seps(4), of n, unfolded e] by blast
  let ?t = "s\<lparr>placement_address := D + 0x4000, mem := m1\<rparr>"
  have p2: "kheap ?t = 0" "placed_at 1 (placement_address ?t) = ?L" "(0 :: nat) < 1024" "unat (0 :: u32) = 4194304 * 0"
    "ld32 (mem ?t) (dir_table D (of_nat 0)) = 0"
    using pl(2) s(1) empty(2) table_made_words [OF t1 _ seps(4), of 0] dir_elems(1) [of _ D 0] by simp_all
  let ?u = "\<lambda>m. s\<lparr>placement_address := D + 0x6000, mem := m\<rparr>"
  have u: "?t\<lparr>placement_address := D + 0x6000, mem := m\<rparr> = ?u m" for m by simp
  obtain m2 where g2: "get_page (kmalloc_ap n) 0 1 D ?t = Inr (?L, ?u m2)" and t2: "table_made D 0 ?L m1 m2"
    using table_created_at [OF p2 seps(5), of n, unfolded e u] by auto
  have h1: "ld32 m1 (dir_table D 768) = ?H" and h2: "ld32 m2 (dir_table D 0) = ?L"
    using t1 t2 by (simp_all add: table_made_def)
  have 1: "fold_res (make_page (kmalloc_ap n)) (page_range KHEAP_START 256) s = Inr ?t"
    using make_pages [of "kmalloc_ap n" KHEAP_START s ?H ?t 255] g1 s(3) h1 seps(7) by (simp add: KHEAP_START_def)
  have "get_page (kmalloc_ap n) 0 1 D (?u m2) = Inr (?L, ?u m2)"
    using get_page_present [of "?u m2" D 0 ?L "kmalloc_ap n" 1] h2 seps(8) by simp
  then have 2: "fold_res (map_page (kmalloc_ap n)) (page_range 0 1024) ?t = fold_res (map_page (kmalloc_ap n)) (page_range 0 1024) (?u m2)"
    using map_pages_first [of "kmalloc_ap n" 0 ?t ?L "?u m2" 1023] g2 s(3) by simp
  show ?thesis using 1 2 t1 t2 by (rule that)
qed

section \<open>The initialisation\<close>

definition setup_memory :: "u32 \<Rightarrow> u32 \<Rightarrow> memory \<Rightarrow> memory" where
  "setup_memory P D m = st32 (memset (memset m P 0 128) D 0 8196) (dir_physicalAddr D) (dir_tablePhysical D 0)"

definition setup_state :: "u32 \<Rightarrow> u32 \<Rightarrow> 'a vm_scheme \<Rightarrow> 'a vm_scheme" where
  "setup_state P D s = s\<lparr>nframes := 4096, frames := P, placement_address := D + 8196, kernel_directory := D,
     mem := setup_memory P D (mem s)\<rparr>"

lemma setup_words:
  assumes "w < 2049"
  shows "oa_elem (setup_memory P D m) D w = (if w = 2048 then dir_tablePhysical D 0 else 0)"
  using assms unfolding setup_memory_def dir_writes(3)
  by (auto simp: oa_elem_st32 memset_dir_zero simp del: of_nat_numeral)

lemma setup_outside:
  "\<not> in_region D 8196 x \<Longrightarrow> setup_memory P D m x = (if in_region P 128 x then 0 else m x)"
  unfolding setup_memory_def dir_writes(3) using dir_write_outside [of 2048 D x]
  by (simp add: memset_eq del: of_nat_numeral)

lemma paging_tables_setup:
  assumes "start_ok P D" and "kheap s = 0" and "placement_address s = P"
  shows "paging_tables n s =
    bind_res (fold_res (make_page (kmalloc_ap n)) (page_range KHEAP_START 256) (setup_state P D s)) (\<lambda>s.
    bind_res (fold_res (map_page (kmalloc_ap n)) (page_range 0 1024) s) (\<lambda>s.
    fold_res (map_page (kmalloc_ap n)) (page_range KHEAP_START 256) s))"
proof -
  have p0: "placed_at 0 P = P" by (simp add: placed_at_def)
  have p1: "placed_at 1 (P + 128) = D" by (rule start_okD(5) [OF assms(1)])
  have p1': "placed_at 1 (128 + P) = D" using p1 by (simp add: add.commute)
  show ?thesis using assms(2,3)
    by (simp add: paging_tables_def kmalloc_def kmalloc_a_def kmalloc_int_placement Let_def p0 p1 p1' INDEX_FROM_BIT_def
        sizeof_page_directory_def setup_state_def setup_memory_def)
qed

lemma setup_frames:
  assumes "start_ok P D" and "\<And>x. in_region (P + 128) 384 x \<Longrightarrow> mem s x = 0" and "in_region P 512 x"
  shows "setup_memory P D (mem s) x = 0"
proof -
  have "\<not> in_region D 8196 x" using start_seps(1) [OF assms(1)] assms(3) sep_not_in_region sep_commute by blast
  moreover have "mem s x = 0" if "\<not> in_region P 128 x"
  proof (rule assms(2))
    have "128 \<le> unat (x - P)" "unat (x - P) < 512" using that assms(3) by (simp_all add: in_region_def)
    moreover have "x - (P + 128) = x - P - 128" by simp
    ultimately show "in_region (P + 128) 384 x"
      using unat_sub_lem32 [of 128 "x - P"] unfolding in_region_def by (simp only:) simp
  qed
  ultimately show ?thesis by (simp add: setup_outside)
qed

lemma frames_unused:
  assumes "\<And>x. in_region (frames s) 512 x \<Longrightarrow> mem s x = 0" and "k < 4096"
  shows "\<not> frame_used s k"
proof -
  have "ld32 (mem s) (frames s + 4 * of_nat (k div 32)) = 0"
  proof (rule ld32_zero, rule assms(1))
    fix x assume "in_region (frames s + 4 * of_nat (k div 32)) 4 x"
    then show "in_region (frames s) 512 x" using in_region_offset [of "frames s" "4 * (k div 32)" 4 x 512] assms(2) by simp
  qed
  then show ?thesis by (simp add: frame_used_def frames_word_def)
qed

lemma slot_apart:
  assumes "sep a n D 8196" and "i < 1024" and "0 < n"
  shows "sep a n (dir_table D (of_nat i)) 4"
  using sep_sub [OF assms(1), of "4 * i" 4] assms(2,3) by (simp add: dir_table_def)

lemma entries_unused:
  assumes "\<And>x. in_region T 4096 x \<Longrightarrow> m x = 0" and "k < 1024"
  shows "ld32 m (T + 4 * of_nat k) = 0"
proof (rule ld32_zero, rule assms(1))
  fix x assume "in_region (T + 4 * of_nat k) 4 x"
  then show "in_region T 4096 x" using entry_region [of k T x 1024] assms(2) by simp
qed

lemma start_frames:
  assumes "nframes s = 4096"
  shows "frame_words s = 128" and "frame_count s = 4096" and "frames_ok s"
  using assms by (simp_all add: frame_words_def frame_count_def frames_ok_def INDEX_FROM_BIT_def)

text \<open>The two mapping loops, on a directory with two blank tables and a blank bitset.\<close>

lemma start_loops:
  fixes s :: "'a vm_scheme"
  assumes ok: "start_ok P D" and s: "frames s = P" "nframes s = 4096" "kernel_directory s = D"
    and dir: "start_directory D (mem s)"
    and blank: "\<And>x. in_region (D + 0x3000) 4096 x \<or> in_region (D + 0x5000) 4096 x \<or> in_region P 512 x \<Longrightarrow> mem s x = 0"
  obtains m3 m4 where "fold_res (map_page km) (page_range 0 1024) s = Inr (s\<lparr>mem := m3\<rparr>)"
    and "mapped_upto 1024 0 (D + 0x5000) s m3"
    and "fold_res (map_page km) (page_range KHEAP_START 256) (s\<lparr>mem := m3\<rparr>) = Inr (s\<lparr>mem := m4\<rparr>)"
    and "mapped_upto 256 1024 (D + 0x3000) (s\<lparr>mem := m3\<rparr>) m4"
proof -
  note seps = start_seps [OF ok] and w = start_frames [OF s(2)]
  let ?H = "D + 0x3000" and ?L = "D + 0x5000"
  have free: "\<not> frame_used s k" if "k < 4096" for k
    using frames_unused [of s k] blank s(1) that by simp
  have ablL: "mappable 1024 0 ?L s"
    using entries_unused [of ?L "mem s"] blank free w s(1) seps(3) by (simp add: mappable_def page_frame_def)
  have slotL: "ld32 (mem s) (dir_table D (0 div 0x1000 div 1024)) = ?L"
    using start_directory_slots [OF dir] by simp
  obtain m3 where m3: "fold_res (map_page km) (page_range 0 1024) s = Inr (s\<lparr>mem := m3\<rparr>)" "mapped_upto 1024 0 ?L s m3"
    using map_pages_loop [of s 0 ?L 1024 0 1024 km] slotL seps(8) ablL slot_apart [OF seps(1), of 0]
      slot_apart [OF seps(5) [unfolded sep_commute [of D]], of 0] s w by auto
  let ?t = "s\<lparr>mem := m3\<rparr>"
  have keep: "m3 x = mem s x" if "\<not> in_region ?L 4096 x" "\<not> in_region P 512 x" for x
    using m3(2) that s(1) w by (simp add: mapped_upto_def)
  have "m3 x = mem s x" if "in_region D 8196 x" for x
    using keep that sep_not_in_region [OF seps(1)] sep_not_in_region [OF seps(5) [unfolded sep_commute [of D]]] by blast
  then have dir3: "start_directory D m3" by (rule start_directory_frame [OF dir])
  have zero3: "m3 x = 0" if "in_region ?H 4096 x" for x
    using keep blank that sep_not_in_region [OF seps(2)] sep_not_in_region [OF seps(6) [unfolded sep_commute [of ?H]]] by force
  have used: "frame_used ?t j \<longleftrightarrow> j < 1024" if "j < 4096" for j
    using m3(2) that w free by (simp add: mapped_upto_def)
  have ablH: "mappable 256 1024 ?H ?t"
    using entries_unused [of ?H m3] zero3 used w s(1) seps(2) by (simp add: mappable_def page_frame_def)
  have slotH: "ld32 (mem ?t) (dir_table D (KHEAP_START div 0x1000 div 1024)) = ?H"
    using start_directory_slots [OF dir3] by (simp add: KHEAP_START_def)
  obtain m4 where m4: "fold_res (map_page km) (page_range KHEAP_START 256) ?t = Inr (s\<lparr>mem := m4\<rparr>)"
    "mapped_upto 256 1024 ?H ?t m4"
    using map_pages_loop [of ?t KHEAP_START ?H 256 1024 256 km] slotH seps(7) ablH slot_apart [OF seps(1), of 768]
      slot_apart [OF seps(4) [unfolded sep_commute [of D]], of 768] s w by (auto simp: KHEAP_START_def)
  show ?thesis using m3 m4 by (rule that)
qed

lemma start_mapped:
  fixes s :: "'a vm_scheme"
  assumes ok: "start_ok P D" and s: "frames s = P" "nframes s = 4096" "kernel_directory s = D"
    and dir: "start_directory D (mem s)"
    and blank: "\<And>x. in_region (D + 0x3000) 4096 x \<or> in_region (D + 0x5000) 4096 x \<or> in_region P 512 x \<Longrightarrow> mem s x = 0"
    and m3: "mapped_upto 1024 0 (D + 0x5000) s m3" and m4: "mapped_upto 256 1024 (D + 0x3000) (s\<lparr>mem := m3\<rparr>) m4"
  shows "start_directory D m4" "\<forall>k < 1024. frame_entry m4 (D + 0x5000) 0 k" "\<forall>k < 256. frame_entry m4 (D + 0x3000) 1024 k"
    "\<forall>k < 1024. 256 \<le> k \<longrightarrow> ld32 m4 (D + 0x3000 + 4 * of_nat k) = 0"
    "\<forall>j < 4096. frame_used (s\<lparr>mem := m4\<rparr>) j \<longleftrightarrow> j < 1280"
    "\<And>x. \<not> in_region P 512 x \<Longrightarrow> \<not> in_region (D + 0x5000) 4096 x \<Longrightarrow> \<not> in_region (D + 0x3000) 4096 x \<Longrightarrow> m4 x = mem s x"
proof -
  let ?H = "D + 0x3000" and ?L = "D + 0x5000"
  note seps = start_seps [OF ok] and w = start_frames [OF s(2)]
  have P: "\<not> in_region P 512 x" if "in_region D 8196 x \<or> in_region ?H 4096 x \<or> in_region ?L 4096 x" for x
    using that seps(1,2,3) sep_not_in_region by blast
  have L: "\<not> in_region ?H 4096 x" if "in_region ?L 4096 x" for x using that seps(6) sep_not_in_region by blast
  have D: "\<not> in_region D 8196 x" if "in_region ?L 4096 x \<or> in_region ?H 4096 x" for x
    using that seps(4,5) sep_not_in_region by blast
  have k4: "m4 x = m3 x" if "\<not> in_region ?H 1024 x" "\<not> in_region P 512 x" for x
    using m4 that s(1) w by (simp add: mapped_upto_def)
  have k3: "m3 x = mem s x" if "\<not> in_region ?L 4096 x" "\<not> in_region P 512 x" for x
    using m3 that s(1) w by (simp add: mapped_upto_def)
  have H': "in_region ?H 4096 x" if "in_region ?H 1024 x" for x using that by (simp add: in_region_def)
  show keep: "m4 x = mem s x" if "\<not> in_region P 512 x" "\<not> in_region ?L 4096 x" "\<not> in_region ?H 4096 x" for x
    using that k3 k4 H' by metis
  show "start_directory D m4"
    using dir by (rule start_directory_frame) (use keep P D in blast)
  show "\<forall>k < 256. frame_entry m4 ?H 1024 k" using m4 by (simp add: mapped_upto_def)
  show "\<forall>k < 1024. frame_entry m4 ?L 0 k"
  proof (intro allI impI)
    fix k :: nat assume k: "k < 1024"
    then have "frame_entry m3 ?L 0 k" using m3 by (simp add: mapped_upto_def)
    then show "frame_entry m4 ?L 0 k"
    proof (rule frame_entry_frame)
      fix x assume "in_region (?L + 4 * of_nat k) 4 x"
      then have "in_region ?L 4096 x" using entry_region [OF k, of ?L x 1024] k by simp
      then show "m4 x = m3 x" using k4 P L H' by blast
    qed
  qed
  show "\<forall>k < 1024. 256 \<le> k \<longrightarrow> ld32 m4 (?H + 4 * of_nat k) = 0"
  proof (intro allI impI, rule ld32_zero)
    fix k :: nat and x assume k: "k < 1024" "256 \<le> k" and x: "in_region (?H + 4 * of_nat k) 4 x"
    then have "in_region ?H 4096 x" "\<not> in_region ?H 1024 x"
      using entry_region [OF k(1) x, of 1024] entry_outside [OF k x] by simp_all
    then show "m4 x = 0" using k4 k3 P L blank by metis
  qed
  show "\<forall>j < 4096. frame_used (s\<lparr>mem := m4\<rparr>) j \<longleftrightarrow> j < 1280"
    using m3 m4 w frames_unused [of s] blank s(1) by (auto simp: mapped_upto_def)
qed

section \<open>The result\<close>

text \<open>
  What the first part of the initialisation leaves: a directory with two tables, page \<open>k\<close> of low memory on frame \<open>k\<close>,
  page \<open>k\<close> of the initial heap on frame \<open>1024 + k\<close>, all of them present, read-only and for user mode, the rest of
  the heap's table empty, and exactly the first 1280 frames in use.
\<close>

definition tables_ready :: "u32 \<Rightarrow> u32 \<Rightarrow> 'a vm_scheme \<Rightarrow> bool" where
  "tables_ready P D s \<longleftrightarrow> kernel_directory s = D \<and> frames s = P \<and> nframes s = 4096 \<and> start_directory D (mem s)
     \<and> (\<forall>k < 1024. frame_entry (mem s) (D + 0x5000) 0 k)
     \<and> (\<forall>k < 256. frame_entry (mem s) (D + 0x3000) 1024 k)
     \<and> (\<forall>k < 1024. 256 \<le> k \<longrightarrow> ld32 (mem s) (D + 0x3000 + 4 * of_nat k) = 0)
     \<and> (\<forall>j < 4096. frame_used s j \<longleftrightarrow> j < 1280)"

lemma paging_tables_result:
  fixes s :: "'a vm_scheme"
  assumes ok: "start_ok P D" and s: "kheap s = 0" "placement_address s = P"
    and blank: "\<forall>x. in_region (P + 128) 384 x \<longrightarrow> mem s x = 0"
  shows "\<exists>t. paging_tables n s = Inr t \<and> tables_ready P D t \<and> placement_address t = D + 0x6000
    \<and> t = s\<lparr>nframes := 4096, frames := P, kernel_directory := D, placement_address := D + 0x6000, mem := mem t\<rparr>
    \<and> (\<forall>x. \<not> in_region P 512 x \<longrightarrow> \<not> in_region D 0x6000 x \<longrightarrow> mem t x = mem s x)"
proof -
  note seps = start_seps [OF ok]
  let ?S = "setup_state P D s" and ?H = "D + 0x3000" and ?L = "D + 0x5000"
  have S: "kheap ?S = 0" "placement_address ?S = D + 8196" "kernel_directory ?S = D" "mem ?S = setup_memory P D (mem s)"
    using s by (simp_all add: setup_state_def)
  have empty: "ld32 (mem ?S) (dir_table D 768) = 0" "ld32 (mem ?S) (dir_table D 0) = 0"
    using setup_words [of 768 P D "mem s"] setup_words [of 0 P D "mem s"] dir_elems(1) [of _ D 768] dir_elems(1) [of _ D 0]
    by (simp_all add: S(4))
  obtain t1 m1 m2 where
    t1: "fold_res (make_page (kmalloc_ap n)) (page_range KHEAP_START 256) ?S = Inr t1"
    and t2: "fold_res (map_page (kmalloc_ap n)) (page_range 0 1024) t1
      = fold_res (map_page (kmalloc_ap n)) (page_range 0 1024) (?S\<lparr>placement_address := D + 0x6000, mem := m2\<rparr>)"
    and made: "table_made D 768 ?H (setup_memory P D (mem s)) m1" "table_made D 0 ?L m1 m2"
    using tables_made [OF ok S(1,2,3) empty, of n] unfolding S(4) by blast
  note both = both_tables_made [OF ok made setup_words]
  let ?U = "?S\<lparr>placement_address := D + 0x6000, mem := m2\<rparr>"
  have "m2 x = 0" if "in_region P 512 x" for x
    using both(3) [of x] setup_frames [OF ok _ that, of s] blank that seps(1,2,3) sep_not_in_region sep_commute by metis
  then have U: "frames ?U = P" "nframes ?U = 4096" "kernel_directory ?U = D" "start_directory D (mem ?U)"
    "\<And>x. in_region ?H 4096 x \<or> in_region ?L 4096 x \<or> in_region P 512 x \<Longrightarrow> mem ?U x = 0"
    using both by (auto simp: setup_state_def)
  obtain m3 m4 where m3: "fold_res (map_page (kmalloc_ap n)) (page_range 0 1024) ?U = Inr (?U\<lparr>mem := m3\<rparr>)"
      "mapped_upto 1024 0 ?L ?U m3"
    and m4: "fold_res (map_page (kmalloc_ap n)) (page_range KHEAP_START 256) (?U\<lparr>mem := m3\<rparr>) = Inr (?U\<lparr>mem := m4\<rparr>)"
      "mapped_upto 256 1024 ?H (?U\<lparr>mem := m3\<rparr>) m4"
    by (rule start_loops [OF ok U])
  have run: "paging_tables n s = Inr (?U\<lparr>mem := m4\<rparr>)"
    unfolding paging_tables_setup [OF ok s] t1 bind_res_simps t2 m3(1) m4(1) ..
  have "m4 x = mem s x" if "\<not> in_region P 512 x" "\<not> in_region D 0x6000 x" for x
  proof -
    have o: "\<not> in_region D 8196 x" "\<not> in_region ?H 4096 x" "\<not> in_region ?L 4096 x"
      using that(2) in_region_offset [of D "0x3000" 4096 x "0x6000"] in_region_offset [of D "0x5000" 4096 x "0x6000"]
      by (auto simp: in_region_def)
    moreover have "\<not> in_region P 128 x" using that(1) by (simp add: in_region_def)
    ultimately show ?thesis
      using start_mapped(6) [OF ok U m3(2) m4(2) that(1) o(3,2)] both(3) [OF _ o] by (simp add: setup_outside)
  qed
  then show ?thesis
    using run start_mapped(1-5) [OF ok U m3(2) m4(2)] s(1)
    by (intro exI [of _ "?U\<lparr>mem := m4\<rparr>"] conjI) (simp_all add: setup_state_def tables_ready_def)
qed

end
