(* ===== verification/Kernel_Space.thy ===== *)
theory Kernel_Space
  imports Paging_Start
begin

text \<open>
  \<^verbatim>\<open>initialise_paging\<close> of sys/paging.c as a whole, from the state the boot loader leaves: the tables (Paging_Start), the
  heap behind the placement allocator (Heap_Blocks), and the copy of the kernel directory that the
  first task gets, which is the first page-aligned block of the new heap.
\<close>

section \<open>The first page-aligned block\<close>

lemma page_aligned:
  fixes h :: u32
  assumes "unat h mod 4096 = 0"
  shows "h AND 0xFFFFF000 = h" and "h AND 0xFFF = 0" and "(h + 12) AND 1 = 0"
proof -
  show "h AND 0xFFFFF000 = h" using unat_page_floor [of h] assms by (simp add: word_unat_eq_iff)
  have "unat (take_bit 12 h) = take_bit 12 (unat h)" by (rule unsigned_take_bit_eq)
  also have "\<dots> = 0" using assms by (simp add: take_bit_eq_mod)
  finally show "h AND 0xFFF = 0" by (simp add: and_FFF word_unat_eq_iff)
  have "4096 dvd unat h" using assms by (rule mod_0_imp_dvd)
  then obtain q where "unat h = 4096 * q" by (rule dvdE)
  then have "of_nat (unat h) = (of_nat (4096 * q) :: u32)" by (rule arg_cong)
  then have "h = 2 * (2048 * of_nat q)" by simp
  then have "even h" by (rule dvdI)
  then have "even (h + 12)" by simp
  then show "(h + 12) AND 1 = 0" by (simp add: and_one_eq mod_2_eq_odd)
qed

lemma unat_add_below: "unat (a :: u32) + unat (b :: u32) \<le> unat (c :: u32) \<Longrightarrow> unat (a + b) = unat a + unat b"
  using unat_add_lem32 [of a b] unat_lt_u32 [of c] by simp

text \<open>The block that \<open>alloc\<close> cuts out of a page-aligned hole: its header ends at the next page boundary.\<close>

definition aligned_memory :: "u32 \<Rightarrow> u32 \<Rightarrow> u32 \<Rightarrow> memory \<Rightarrow> memory" where
  "aligned_memory h n m x = put_tags (h + 0xFF4 + n) 1 (m - 0xFF4 - n) (put_tags (h + 0xFF4) 0 n (put_tags h 1 0xFF4 x))"

lemma alloc_from_aligned_hole:
  assumes list: "oa_list (mem s) (hp_index (heaps s hp)) = [h]" and h: "unat h mod 4096 = 0" "h \<noteq> 0"
    and size: "h_size (mem s) h = m" "unat sz + 20 + 0xFF4 + 20 \<le> unat m" and fin: "h + m - 8 < hp_end_address (heaps s hp)"
  shows "alloc_from_hole sz 1 0 hp s =
    bind_res (index_insert (h + 0xFF4 + (sz + 20)) hp (s\<lparr>mem := aligned_memory h (sz + 20) m (mem s)\<rparr>))
      (\<lambda>s. Inr (h + 0x1000, s))"
proof -
  have "unat (oa_size (hp_index (heaps s hp))) = 1" using list length_oa_list [of "mem s" "hp_index (heaps s hp)"] by simp
  then have look: "lookup_ordered_array 0 (hp_index (heaps s hp)) s = Inr h"
    using list by (simp add: lookup_ordered_array_eq word_less_nat_alt)
  have n: "unat (sz + 20) = unat sz + 20" using size(2) unat_add_below [of sz 20 m] by simp
  have "unat (m - (sz + 20)) = unat m - (unat sz + 20)" using size(2) n unat_sub_lem32 [of "sz + 20" m] by simp
  then have big: "\<not> m - (sz + 20) < 20" using size(2) by (simp add: word_less_nat_alt)
  have front: "hole_in_front h (h + 0xFF4) (mem s) = put_tags h 1 0xFF4 (mem s)"
    by (simp add: hole_in_front_eq page_aligned [OF h(1)] put_tags_def)
  have fs: "h_size (put_tags h 1 0xFF4 (mem s)) h = 0xFF4"
    using put_tags_same [of "0xFF4" h 1 "mem s"] by (simp add: tagged_def header_at_def)
  have blk: "write_block (h + 0xFF4) sz (sz + 20) x = put_tags (h + 0xFF4) 0 (sz + 20) x" for x
    by (simp add: write_block_eq put_tags_def)
  have "h + 0xFF4 + (sz + 20) + (m - 0xFF4 - (sz + 20)) - 8 = h + m - 8" by simp
  then have rest: "write_rest (h + 0xFF4 + (sz + 20)) (m - 0xFF4 - (sz + 20)) (hp_end_address (heaps s hp)) x
      = put_tags (h + 0xFF4 + (sz + 20)) 1 (m - 0xFF4 - (sz + 20)) x" for x
    using fin by (simp only: write_rest_eq put_tags_def if_True)
  have loc: "h + 0x1000 - 0 - 12 = h + 0xFF4" "h + 0xFF4 + 12 + sz + 8 = h + 0xFF4 + (sz + 20)" "h + 0xFF4 + 12 = h + 0x1000"
    "sz + 12 + 8 = sz + 20" by simp_all
  have "unat (m - 0xFF4 - (sz + 20)) = unat m - 0xFF4 - (unat sz + 20)"
    using size(2) n unat_sub_lem32 [of "0xFF4" m] unat_sub_lem32 [of "sz + 20" "m - 0xFF4"] by simp
  then have pos: "0 < m - 0xFF4 - (sz + 20)" using size(2) by (simp add: word_less_nat_alt)
  have one: "(1 :: u8) \<noteq> 0" by simp
  show ?thesis
    unfolding alloc_from_hole_def Let_def look bind_res_simps size(1) sizeof_header_def sizeof_footer_def loc
    using h(2) big pos
    by (simp only: page_aligned [OF h(1)] loc front fs blk rest one aligned_memory_def bind_res_simps if_True if_False simp_thms prod.case)
      (simp add: fs blk rest [simplified])
qed

lemma aligned_chunks:
  assumes e: "unat h + unat m \<le> unat e" "h + m = e" and size: "unat n + 0xFF4 + 20 \<le> unat m" "20 \<le> unat n"
    and m': "m' = aligned_memory h n m x"
  shows "chain m' e h [(0xFF4, 1), (n, 0), (m - 0xFF4 - n, 1)] (h + m)"
    and "\<And>y. \<not> in_region h (unat m) y \<Longrightarrow> m' y = x y"
proof -
  let ?b = "h + 0xFF4" and ?c = "h + 0xFF4 + n" and ?r = "m - 0xFF4 - n"
  have u: "unat ?b = unat h + 0xFF4" "unat ?c = unat h + 0xFF4 + unat n" "unat ?r = unat m - 0xFF4 - unat n"
    using e(1) size unat_add_below [of h "0xFF4" e] unat_add_below [of ?b n e]
      unat_sub_lem32 [of "0xFF4" m] unat_sub_lem32 [of n "m - 0xFF4"] by simp_all
  have lt: "unat e \<le> 4294967296" using unat_lt_u32 [of e] by linarith
  have r: "20 \<le> unat ?r" "unat ?c + unat ?r = unat h + unat m" using u size by simp_all
  have seps: "sep ?c (unat ?r) ?b (unat n)" "sep ?c (unat ?r) h (unat (0xFF4 :: u32))" "sep ?b (unat n) h (unat (0xFF4 :: u32))"
    using u r size e(1) lt by (auto intro!: sepI_above)
  have k: "20 \<le> unat (0xFF4 :: u32)" by simp
  have "tagged m' h 1 0xFF4" "tagged m' ?b 0 n" "tagged m' ?c 1 ?r"
    unfolding m' aligned_memory_def
    by (simp_all only: put_tags_other [OF r(1) seps(1) size(2)] put_tags_other [OF r(1) seps(2) k]
        put_tags_other [OF size(2) seps(3) k] put_tags_same [OF r(1)] put_tags_same [OF size(2)] put_tags_same [OF k])
  then show "chain m' e h [(0xFF4, 1), (n, 0), (m - 0xFF4 - n, 1)] (h + m)"
    using u r size e by (simp add: tagged_chunk)
  show "m' y = x y" if "\<not> in_region h (unat m) y" for y
  proof -
    have "\<not> (unat h \<le> unat y \<and> unat y < unat h + unat m)"
      using that in_region_interval [of h "unat m" y] e(1) lt by simp
    then have o: "\<not> in_region ?c (unat ?r) y" "\<not> in_region ?b (unat n) y" "\<not> in_region h (unat (0xFF4 :: u32)) y"
      using in_region_interval [of ?c "unat ?r" y] in_region_interval [of ?b "unat n" y]
        in_region_interval [of h "0xFF4" y] u r size e(1) lt by auto
    show ?thesis
      unfolding m' aligned_memory_def put_tags_keeps [OF r(1) o(1)] put_tags_keeps [OF size(2) o(2)] put_tags_keeps [OF k o(3)] ..
  qed
qed

lemma alloc_aligned_run:
  assumes inv: "heap_inv [(m, 1)] hp s" and list: "oa_list (mem s) (hp_index (heaps s hp)) = [h]"
    and h: "h = hp_start_address (heaps s hp)" "unat h mod 4096 = 0"
    and size: "unat sz + 20 + 0xFF4 + 20 \<le> unat m" "unat m < 2147483648"
  shows "alloc (Suc k) sz 1 hp s =
    bind_res (index_insert (h + 0xFF4 + (sz + 20)) hp (s\<lparr>mem := aligned_memory h (sz + 20) m (mem s)\<rparr>))
      (\<lambda>s. Inr (h + 0x1000, s))"
proof -
  let ?i = "hp_index (heaps s hp)" and ?e = "hp_end_address (heaps s hp)" and ?n = "sz + 20"
  note D = heap_invD [OF inv h(1) refl]
  have "chunk_at (mem s) ?e h (m, 1)" using D(3) by simp
  then have e: "unat h + unat m \<le> unat ?e" and hs: "h_size (mem s) h = m" by (simp_all add: chunk_at_def header_at_def)
  have h0: "h \<noteq> 0" using index_members(2) [OF D(2), of h] by simp
  have "unat ?n = unat sz + 20" using size(1) unat_add_below [of sz 20 m] by simp
  then have "unat ?n \<le> unat m" "unat ?n < 2147483648" using size by linarith+
  then have "sint ?n \<le> sint m" using size(2) by (simp only: sint_nonneg of_nat_le_iff)
  then have "hole_fits (mem s) ?n 1 h"
    using page_aligned(3) [OF h(2)] hs by (simp add: hole_fits_def sizeof_header_def Let_def)
  then have "first_fit (mem s) ?n 1 [h] 0" by (simp add: first_fit_def)
  moreover have "unat (oa_size ?i) = 1" using list length_oa_list [of "mem s" ?i] by simp
  ultimately have "find_smallest_hole ?n 1 hp s = 0"
    using find_smallest_hole_first(1) [of s ?n 1 hp 0] list by simp
  then show ?thesis
    using alloc_from_aligned_hole [OF list h(2) h0 hs size(1) footer_below_end [OF e]] size(1)
    by (simp add: alloc.simps sizeof_header_def sizeof_footer_def Let_def add.assoc)
qed

lemma alloc_aligned_first:
  assumes inv: "heap_inv [(m, 1)] hp s" and list: "oa_list (mem s) (hp_index (heaps s hp)) = [h]"
    and h: "h = hp_start_address (heaps s hp)" "unat h mod 4096 = 0"
    and size: "unat sz + 20 + 0xFF4 + 20 \<le> unat m" "unat m < 2147483648"
    and room: "oa_size (hp_index (heaps s hp)) < oa_max_size (hp_index (heaps s hp))"
  shows "\<exists>t. alloc (Suc k) sz 1 hp s = Inr (h + 0x1000, t) \<and> index_grown 1 hp s t
    \<and> heap_inv [(0xFF4, 1), (sz + 20, 0), (m - 0xFF4 - (sz + 20), 1)] hp t
    \<and> (\<forall>x. outside_index hp s x \<longrightarrow> \<not> in_region h (unat m) x \<longrightarrow> mem t x = mem s x)"
proof -
  let ?i = "hp_index (heaps s hp)" and ?e = "hp_end_address (heaps s hp)"
  let ?n = "sz + 20" and ?c = "h + 0xFF4 + (sz + 20)"
  let ?ds = "[(0xFF4, 1), (sz + 20, 0), (m - 0xFF4 - (sz + 20), 1)] :: chunk list"
  note D = heap_invD [OF inv h(1) refl]
  have hole: "chunk_at (mem s) ?e h (m, 1)" "h + m = ?e" using D(3) by simp_all
  have e: "unat h + unat m \<le> unat ?e" using hole(1) by (simp add: chunk_at_def)
  have n: "unat ?n = unat sz + 20" "20 \<le> unat ?n" using size(1) unat_add_below [of sz 20 m] by simp_all
  define m' where "m' = aligned_memory h ?n m (mem s)"
  have "unat ?n + 0xFF4 + 20 \<le> unat m" using size(1) n(1) by simp
  note chunks = aligned_chunks [OF e hole(2) this n(2) m'_def]
  have lt: "unat ?e \<le> 4294967296" using unat_lt_u32 [of ?e] by linarith
  have "m' x = mem s x" if "unat x < unat (hp_start_address (heaps s hp))" for x
    using that h(1) chunks(2) [of x] in_region_interval [of h "unat m" x] e lt by simp
  note array = index_array_frame [OF D(2) this]
  have X: "index_holds {#h#} hp (s\<lparr>mem := m'\<rparr>)"
    using D(2) array list by (simp add: index_holds_def Let_def index_sorted_def)
  have c: "chunk_at m' ?e ?c (m - 0xFF4 - ?n, 1)" using chunks(1) by simp
  have "20 \<le> h_size m' ?c" using c by (simp add: chunk_at_def header_at_def word_le_nat_alt)
  moreover have "unat h \<le> unat ?c" "unat ?c + 12 \<le> 4294967296"
    using chain_bounds [of m' ?e h "[(0xFF4, 1), (?n, 0)]" ?c] chunks(1) D(1) c lt by (auto simp: chunk_at_def)
  ultimately obtain m4 where ins: "index_insert ?c hp (s\<lparr>mem := m'\<rparr>) = Inr (grown_index hp (s\<lparr>mem := m4\<rparr>))"
    and idx: "index_holds {#?c, h#} hp (grown_index hp (s\<lparr>mem := m4\<rparr>))"
    and same: "\<forall>x. outside_index hp s x \<longrightarrow> m4 x = m' x"
    using index_insert_holds [OF X, of ?c] room h(1) by (auto simp: outside_index_def)
  let ?t = "grown_index hp (s\<lparr>mem := m4\<rparr>)"
  have "chain m4 ?e h ?ds (h + m)"
    using chunks(1) D(1) by (rule chain_frame) (use same h(1) in \<open>auto simp: outside_index_def\<close>)
  moreover have keep: "m4 x = mem s x" if "outside_index hp s x" "\<not> in_region h (unat m) x" for x
    using same that chunks(2) by simp
  ultimately have "heap_inv ([] @ ?ds @ []) hp ?t"
    using idx by (intro heap_inv_replace [OF inv _ index_grown_once, where a = h and c = "(m, 1)"])
      (auto simp: h(1) [symmetric])
  then show ?thesis using alloc_aligned_run [OF inv list h size, of k] ins keep index_grown_once [of hp s m4] by (intro exI [of _ ?t]) (simp add: m'_def)
qed

section \<open>Writes above low memory\<close>

text \<open>The tables of the start and everything they stand for lie below 4 MB.\<close>

lemma low_region: "in_region a n x \<Longrightarrow> unat (a :: u32) + n \<le> 0x400000 \<Longrightarrow> unat x < 0x400000"
  using in_region_interval [of a n x] by simp

lemma low_word:
  assumes "\<And>x. unat x < 0x400000 \<Longrightarrow> m' x = m x" and "unat (a :: u32) + 4 * Suc k \<le> 0x400000"
  shows "ld32 m' (a + 4 * of_nat k) = ld32 m (a + 4 * of_nat k)"
proof (rule ld32_frame, rule assms(1))
  have u: "unat (a + of_nat (4 * k)) = unat a + 4 * k" using assms(2) by (intro unat_add_of_nat) simp
  fix x assume "in_region (a + 4 * of_nat k) 4 x"
  then show "unat x < 0x400000" using low_region [of "a + of_nat (4 * k)" 4 x] u assms(2) by simp
qed

lemma tables_ready_frame:
  assumes ready: "tables_ready P D s" and ok: "start_ok P D" and low: "unat D + 0x6000 \<le> 0x400000"
    and t: "kernel_directory t = kernel_directory s" "frames t = frames s" "nframes t = nframes s"
    and same: "\<And>x. unat x < 0x400000 \<Longrightarrow> mem t x = mem s x"
  shows "tables_ready P D t"
proof -
  have u: "unat (D + 0x3000) = unat D + 0x3000" "unat (D + 0x5000) = unat D + 0x5000"
    using low unat_add_lem32 [of D "0x3000"] unat_add_lem32 [of D "0x5000"] by simp_all
  have entry: "ld32 (mem t) (D + 0x3000 + 4 * of_nat k) = ld32 (mem s) (D + 0x3000 + 4 * of_nat k)"
    "ld32 (mem t) (D + 0x5000 + 4 * of_nat k) = ld32 (mem s) (D + 0x5000 + 4 * of_nat k)" if "k < 1024" for k
    using low_word [of "mem t" "mem s" "D + 0x3000" k] low_word [of "mem t" "mem s" "D + 0x5000" k] same u low that by simp_all
  have "frame_used t j \<longleftrightarrow> frame_used s j" if "j < 4096" for j
  proof -
    define k where "k = j div 32"
    have "k < 128" using that by (simp add: k_def)
    moreover have "unat P + 512 \<le> unat D" by (rule start_okD(1) [OF ok])
    ultimately have "unat P + 4 * Suc k \<le> 0x400000" using low by simp
    then have "ld32 (mem t) (P + 4 * of_nat k) = ld32 (mem s) (P + 4 * of_nat k)"
      by (intro low_word [OF same])
    then show ?thesis using ready t(2) by (simp add: frame_used_def frames_word_def tables_ready_def k_def)
  qed
  moreover have "start_directory D (mem t)"
  proof (rule start_directory_frame)
    show "start_directory D (mem s)" using ready by (simp add: tables_ready_def)
    show "mem t x = mem s x" if "in_region D 8196 x" for x using low_region [OF that] low by (intro same) simp
  qed
  moreover have "frame_entry (mem t) (D + 0x5000) 0 k" if "k < 1024" for k
    using ready that unfolding tables_ready_def frame_entry_def entry [OF that] by blast
  moreover have "frame_entry (mem t) (D + 0x3000) 1024 k" if "k < 256" for k
  proof -
    have "k < 1024" using that by simp
    then show ?thesis using ready that unfolding tables_ready_def frame_entry_def entry [OF \<open>k < 1024\<close>] by blast
  qed
  ultimately show ?thesis
    using ready t entry(1) unfolding tables_ready_def by simp
qed

section \<open>The rest of the initialisation\<close>

text \<open>The chunks of the heap before and after the directory of the first task is allocated.\<close>

abbreviation fresh_chunks :: "chunk list" where "fresh_chunks \<equiv> [(0x80000, 1)]"
abbreviation first_chunks :: "chunk list" where "first_chunks \<equiv> [(0xFF4, 1), (8216, 0), (0x7CFF4, 1)]"

lemma heap_stage:
  fixes s :: "'a vm_scheme"
  assumes boot: "kheap s = 0" and null: "h_size (mem s) 0 < 20 \<or> 0x80000 < h_size (mem s) 0" and hp: "hp = placement_address s"
  shows "\<exists>t. create_heap n KHEAP_START (KHEAP_START + KHEAP_INITIAL_SIZE) 0xCFFFF000 0 0 s = Inr (hp, t)
    \<and> heap_inv fresh_chunks hp t \<and> oa_list (mem t) (hp_index (heaps t hp)) = [0xC0080000]
    \<and> hp_start_address (heaps t hp) = 0xC0080000 \<and> oa_array (hp_index (heaps t hp)) = 0xC0000000
    \<and> oa_size (hp_index (heaps t hp)) < oa_max_size (hp_index (heaps t hp))
    \<and> t = s\<lparr>mem := mem t, placement_address := hp + 32, heaps := heaps t\<rparr>
    \<and> (\<forall>x. unat x < 0xC0000000 \<longrightarrow> mem t x = mem s x)"
proof -
  let ?e = "0xC0100000 :: u32" and ?b = "0xC0000000 :: u32"
  have al: "?b mod 0x1000 = 0" "?e mod 0x1000 = 0" by simp_all
  have l: "12 \<le> unat ?b" "unat ?b + 0x80000 + 20 \<le> unat ?e" by simp_all
  have null': "h_size (mem s) 0 < 20 \<or> ?e - (?b + 0x80000) < h_size (mem s) 0" using null by simp
  obtain t where t: "create_heap n ?b ?e 0xCFFFF000 0 0 s = Inr (hp, t)" "heap_inv [(?e - (?b + 0x80000), 1)] hp t"
    using create_heap_inv [OF boot al l null', of n "0xCFFFF000" 0 0] hp by blast
  obtain m where m: "t = s\<lparr>mem := m, placement_address := hp + 32,
        heaps := (heaps s)(hp := \<lparr>hp_index = \<lparr>oa_array = ?b, oa_size = 1, oa_max_size = HEAP_INDEX_SIZE,
                     oa_less_than = Some header_t_less_than\<rparr>,
           hp_start_address = ?b + 0x80000, hp_end_address = ?e, hp_max_address = 0xCFFFF000,
           hp_supervisor = 0, hp_readonly = 0\<rparr>)\<rparr>" "oa_elem m ?b 0 = ?b + 0x80000"
      "\<forall>x. in_region ?b (0x80000 + 12) x \<or> m x = mem s x"
    using create_heap_spec [OF boot al, of n "0xCFFFF000" 0 0] t(1) hp by auto
  have "m x = mem s x" if "unat x < 0xC0000000" for x
    using m(3) that in_region_interval [of ?b "0x80000 + 12" x] by auto
  then show ?thesis
    using t m(1,2) by (intro exI [of _ t]) (simp add: KHEAP_START_def KHEAP_INITIAL_SIZE_def HEAP_INDEX_SIZE_def oa_list_def)
qed

lemma directory_block:
  fixes s :: "'a vm_scheme"
  assumes inv: "heap_inv fresh_chunks hp s" and list: "oa_list (mem s) (hp_index (heaps s hp)) = [0xC0080000]"
    and start: "hp_start_address (heaps s hp) = 0xC0080000" "oa_array (hp_index (heaps s hp)) = 0xC0000000"
    and room: "oa_size (hp_index (heaps s hp)) < oa_max_size (hp_index (heaps s hp))"
    and hp: "kheap s = hp" "hp \<noteq> 0"
    and ready: "tables_ready P D s" and ok: "start_ok P D" and low: "unat D + 0x6000 \<le> 0x400000"
  shows "\<exists>t. kmalloc_ap (Suc n) 8196 s = Inr ((0xC0081000, 0x481000), t) \<and> heap_inv first_chunks hp t \<and> tables_ready P D t
    \<and> index_grown 1 hp s t"
proof -
  have h: "(0xC0080000 :: u32) = hp_start_address (heaps s hp)" "unat (0xC0080000 :: u32) mod 4096 = 0" using start by simp_all
  have size: "unat (8196 :: u32) + 20 + 0xFF4 + 20 \<le> unat (0x80000 :: u32)" "unat (0x80000 :: u32) < 2147483648" by simp_all
  obtain t where t: "alloc (Suc n) 8196 1 hp s = Inr (0xC0081000, t)" "heap_inv first_chunks hp t" and g: "index_grown 1 hp s t"
    and same: "\<forall>x. outside_index hp s x \<longrightarrow> \<not> in_region 0xC0080000 (unat (0x80000 :: u32)) x \<longrightarrow> mem t x = mem s x"
    using alloc_aligned_first [OF inv list h size room, of n] by auto
  have "mem t x = mem s x" if "unat x < 0x400000" for x
    using same that start(2) in_region_interval [of "0xC0080000" "0x80000" x] by (simp add: outside_index_def)
  moreover have f: "kernel_directory t = kernel_directory s" "frames t = frames s" "nframes t = nframes s"
    using g by (auto simp: index_grown_def)
  ultimately have ready': "tables_ready P D t" by (intro tables_ready_frame [OF ready ok low])
  have D: "kernel_directory t = D" "ld32 (mem t) (dir_table D 768) = D + 0x3000"
    using ready' start_directory_slots(2) by (auto simp: tables_ready_def)
  have "get_page km 0xC0081000 0 D t = Inr (D + 0x3000 + 4 * 0x81, t)" for km
    using get_page_present [of t D "0xC0081000" "D + 0x3000" km 0] D(2) start_seps(7) [OF ok] by simp
  moreover have "frame_entry (mem t) (D + 0x3000) 1024 0x81" using ready' by (simp add: tables_ready_def)
  then have "page_frame (ld32 (mem t) (D + 0x3000 + 4 * 0x81)) = 0x481" by (simp add: frame_entry_def)
  ultimately show ?thesis
    using t g ready' hp D(1) by (simp add: kmalloc_ap_def kmalloc_int_def kmalloc_int_with_def)
qed

lemma heap_inv_cong: "mem t = mem s \<Longrightarrow> heaps t = heaps s \<Longrightarrow> heap_inv cs hp t \<longleftrightarrow> heap_inv cs hp s"
  by (simp add: heap_inv_def index_holds_def null_size_ok_def)

text \<open>A directory with the tables of the start.\<close>

definition start_tables_in :: "u32 \<Rightarrow> u32 \<Rightarrow> memory \<Rightarrow> bool" where
  "start_tables_in C D m \<longleftrightarrow> (\<forall>i < 1024. ld32 m (dir_table C (of_nat i)) = start_table D i
     \<and> ld32 m (dir_tablePhysical C (of_nat i)) = (if start_table D i = 0 then 0 else start_table D i OR 0x7))"

lemma clone_stage:
  fixes s0 s :: "'a vm_scheme"
  assumes km: "kmalloc_ap n 8196 s0 = Inr ((0xC0081000, 0x481000), s)"
    and inv: "heap_inv first_chunks hp s" "hp_start_address (heaps s hp) = 0xC0080000"
    and ready: "tables_ready P D s" and ok: "start_ok P D" and low: "unat D + 0x6000 \<le> 0x400000"
  shows "\<exists>m. clone_directory (kmalloc_ap n) D s0 = Inr (0xC0081000, s\<lparr>mem := m\<rparr>) \<and> tables_ready P D (s\<lparr>mem := m\<rparr>)
    \<and> heap_inv first_chunks hp (s\<lparr>mem := m\<rparr>) \<and> start_tables_in 0xC0081000 D m \<and> ld32 m (dir_physicalAddr 0xC0081000) = 0x482000"
proof -
  let ?C = "0xC0081000 :: u32"
  have D: "kernel_directory s = D" and dir: "start_directory D (mem s)" using ready by (simp_all add: tables_ready_def)
  have "sep ?C 8196 D 8196" using low by (intro sepI_above) simp_all
  with clone_directory_shared [of "kmalloc_ap n" s0 ?C "0x481000" s D] km obtain m where m: "clone_directory (kmalloc_ap n) D s0 = Inr (?C, s\<lparr>mem := m\<rparr>)"
    "cloned_upto 1024 D ?C (0x481000 + 4096) (mem s) m" by (auto simp: D)
  have same: "m x = mem s x" if "\<not> in_region ?C 8196 x" for x using m(2) that by (auto simp: cloned_upto_def)
  have "tables_ready P D (s\<lparr>mem := m\<rparr>)"
    using same in_region_interval [of ?C 8196] by (intro tables_ready_frame [OF ready ok low]) auto
  moreover have "heap_inv ([(0xFF4, 1)] @ (8216, 0) # [(0x7CFF4, 1)]) hp (s\<lparr>mem := m\<rparr>)"
    using heap_invD(3) [OF inv(1) refl refl] inv same
    by (intro heap_inv_payload [where a = "0xC0080FF4"]) auto
  moreover have "start_tables_in ?C D m"
    using m(2) dir unfolding start_tables_in_def start_directory_def cloned_upto_def dir_elems by auto
  moreover have "ld32 m (dir_physicalAddr ?C) = 0x482000" using m(2) by (simp add: cloned_upto_def dir_elems)
  ultimately show ?thesis using m(1) by auto
qed

text \<open>From the switch to the kernel directory to the copy of it.\<close>

lemma rest_of_paging:
  fixes s :: "'a vm_scheme"
  assumes ready: "tables_ready P D s" and ok: "start_ok P D" and low: "unat D + 0x6000 \<le> 0x400000"
    and boot: "kheap s = 0" "placement_address s = D + 0x6000" and null: "h_size (mem s) 0 < 20 \<or> 0x80000 < h_size (mem s) 0"
    and hp: "hp = D + 0x6000"
  shows "\<exists>s2 t. create_heap k KHEAP_START (KHEAP_START + KHEAP_INITIAL_SIZE) 0xCFFFF000 0 0 s = Inr (hp, s2)
    \<and> kernel_directory s2 = D \<and> clone_directory (kmalloc_ap (Suc n)) D (s2\<lparr>kheap := hp\<rparr>) = Inr (0xC0081000, t)
    \<and> tables_ready P D t \<and> heap_inv first_chunks hp t \<and> kheap t = hp \<and> placement_address t = D + 0x6020
    \<and> start_tables_in 0xC0081000 D (mem t) \<and> ld32 (mem t) (dir_physicalAddr 0xC0081000) = 0x482000
    \<and> cr0 t = cr0 s \<and> interrupt_handlers t = interrupt_handlers s"
proof -
  obtain s2 where run2: "create_heap k KHEAP_START (KHEAP_START + KHEAP_INITIAL_SIZE) 0xCFFFF000 0 0 s = Inr (hp, s2)"
    and inv2: "heap_inv fresh_chunks hp s2" "oa_list (mem s2) (hp_index (heaps s2 hp)) = [0xC0080000]"
      "hp_start_address (heaps s2 hp) = 0xC0080000" "oa_array (hp_index (heaps s2 hp)) = 0xC0000000"
      "oa_size (hp_index (heaps s2 hp)) < oa_max_size (hp_index (heaps s2 hp))"
    and s2: "s2 = s\<lparr>mem := mem s2, placement_address := hp + 32, heaps := heaps s2\<rparr>"
    and out2: "\<forall>x. unat x < 0xC0000000 \<longrightarrow> mem s2 x = mem s x"
    using heap_stage [OF boot(1) null hp [folded boot(2)], of k] by blast
  have f2: "kernel_directory s2 = kernel_directory s" "frames s2 = frames s" "nframes s2 = nframes s" "cr0 s2 = cr0 s"
    "interrupt_handlers s2 = interrupt_handlers s" "placement_address s2 = hp + 32"
    by (subst s2, simp)+
  define s3 where "s3 = s2\<lparr>kheap := hp\<rparr>"
  have s3: "mem s3 = mem s2" "heaps s3 = heaps s2" "kheap s3 = hp" by (simp_all add: s3_def)
  have ready3: "tables_ready P D s3"
    using f2 out2 by (intro tables_ready_frame [OF ready ok low]) (simp_all add: s3_def)
  have "unat hp = unat D + 0x6000" using low unat_add_lem32 [of D "0x6000"] by (simp add: hp)
  then have "hp \<noteq> 0" by auto
  from directory_block [of hp s3, OF _ _ _ _ _ s3(3) this ready3 ok low, of n] inv2 obtain s4 where
    km: "kmalloc_ap (Suc n) 8196 s3 = Inr ((0xC0081000, 0x481000), s4)" and inv4: "heap_inv first_chunks hp s4"
    and ready4: "tables_ready P D s4" and g: "index_grown 1 hp s3 s4"
    by (auto simp: s3 heap_inv_cong [OF s3(1,2)])
  have "hp_start_address (heaps s4 hp) = 0xC0080000" using index_grown_fields(1) [OF g] inv2(3) s3(2) by simp
  from clone_stage [OF km inv4 this ready4 ok low] obtain m where
    "clone_directory (kmalloc_ap (Suc n)) D s3 = Inr (0xC0081000, s4\<lparr>mem := m\<rparr>)" "tables_ready P D (s4\<lparr>mem := m\<rparr>)"
    "heap_inv first_chunks hp (s4\<lparr>mem := m\<rparr>)" "start_tables_in 0xC0081000 D m" "ld32 m (dir_physicalAddr 0xC0081000) = 0x482000"
    by blast
  moreover have "kheap s4 = hp" "placement_address s4 = D + 0x6020" "cr0 s4 = cr0 s" "interrupt_handlers s4 = interrupt_handlers s"
    using g f2 hp by (auto simp: index_grown_def s3_def)
  moreover have "kernel_directory s2 = D" using f2(1) ready by (simp add: tables_ready_def)
  ultimately show ?thesis
    using run2 by (intro exI [of _ s2] exI [of _ "s4\<lparr>mem := m\<rparr>"]) (simp add: s3_def)
qed

section \<open>Properties\<close>

lemma null_size_low:
  assumes "\<And>x. unat x < 0x1000 \<Longrightarrow> m' x = m x"
  shows "h_size m' 0 = h_size m 0"
  unfolding h_size_def
proof (rule ld32_frame, rule assms)
  fix x :: u32 assume "in_region (0 + 8) 4 x"
  then show "unat x < 0x1000" using in_region_interval [of 8 4 x] by simp
qed

lemma paging_tables_low:
  assumes "start_ok P D" and "\<And>x. \<not> in_region P 512 x \<Longrightarrow> \<not> in_region D 0x6000 x \<Longrightarrow> m' x = m x"
  shows "h_size m' 0 = h_size m 0"
proof (rule null_size_low, rule assms(2))
  fix x :: u32 assume x: "unat x < 0x1000"
  have "0x1000 \<le> unat P" using assms(1) by (simp add: start_ok_def)
  then show "\<not> in_region P 512 x" using x in_region_interval [of P 512 x] start_okD(1,2) [OF assms(1)] by auto
  show "\<not> in_region D 0x6000 x" using x in_region_interval [of D "0x6000" x] start_okD(2,3) [OF assms(1)] by auto
qed

text \<open>
  C9. \<open>initialise_paging\<close> from the state of the boot loader: it returns 0; low memory and the initial heap are mapped
  (\<open>tables_ready\<close>); the heap is well-formed, with one block in use; that block holds the directory of the first task, a
  copy of the kernel directory that shares both of its tables; it is the current one, and the processor has its
  physical address, which is the frame of the block's second page; paging is on and page faults have their handler.
\<close>
theorem initialise_paging_result:
  fixes s :: "'a vm_scheme"
  assumes ok: "start_ok P D" and low: "unat D + 0x6000 \<le> 0x400000" and boot: "kheap s = 0" "placement_address s = P"
    and blank: "\<forall>x. in_region (P + 128) 384 x \<longrightarrow> mem s x = 0"
    and null: "h_size (mem s) 0 < 20 \<or> 0x80000 < h_size (mem s) 0"
  shows "\<exists>t. initialise_paging (Suc n) s = Inr (0, t) \<and> tables_ready P D t \<and> heap_inv first_chunks (D + 0x6000) t
    \<and> kheap t = D + 0x6000 \<and> placement_address t = D + 0x6020
    \<and> current_directory t = 0xC0081000 \<and> start_tables_in 0xC0081000 D (mem t) \<and> cr3 t = 0x482000
    \<and> cr0 t = cr0 s OR 0x80000000 \<and> interrupt_handlers t = (interrupt_handlers s)(14 \<mapsto> Page_fault)"
proof -
  let ?hp = "D + 0x6000"
  obtain t0 where t0: "paging_tables (Suc n) s = Inr t0" "tables_ready P D t0" "placement_address t0 = ?hp"
    "t0 = s\<lparr>nframes := 4096, frames := P, kernel_directory := D, placement_address := ?hp, mem := mem t0\<rparr>"
    and out: "\<forall>x. \<not> in_region P 512 x \<longrightarrow> \<not> in_region D 0x6000 x \<longrightarrow> mem t0 x = mem s x"
    using paging_tables_result [OF ok boot blank, of "Suc n"] by blast
  define s1 where "s1 = switch_page_directory D (register_interrupt_handler 14 Page_fault t0)"
  have f0: "kheap t0 = 0" "cr0 t0 = cr0 s" "interrupt_handlers t0 = interrupt_handlers s" "kernel_directory t0 = D"
    using boot(1) by (subst t0(4), simp)+
  have f1: "kheap s1 = 0" "placement_address s1 = ?hp" "mem s1 = mem t0" "cr0 s1 = cr0 s OR 0x80000000"
    "interrupt_handlers s1 = (interrupt_handlers s)(14 \<mapsto> Page_fault)"
    "kernel_directory s1 = kernel_directory t0" "frames s1 = frames t0" "nframes s1 = nframes t0"
    using f0 t0(3) by (simp_all add: s1_def switch_page_directory_def register_interrupt_handler_def)
  have "h_size (mem s1) 0 = h_size (mem s) 0" unfolding f1(3) using out by (intro paging_tables_low [OF ok]) blast
  then have null1: "h_size (mem s1) 0 < 20 \<or> 0x80000 < h_size (mem s1) 0" using null by simp
  have "tables_ready P D s1" using f1 by (intro tables_ready_frame [OF t0(2) ok low]) simp_all
  from rest_of_paging [OF this ok low f1(1,2) null1 refl, of "Suc n" n] obtain s2 t where
    run: "create_heap (Suc n) KHEAP_START (KHEAP_START + KHEAP_INITIAL_SIZE) 0xCFFFF000 0 0 s1 = Inr (?hp, s2)"
      "kernel_directory s2 = D" "clone_directory (kmalloc_ap (Suc n)) D (s2\<lparr>kheap := ?hp\<rparr>) = Inr (0xC0081000, t)"
    and t: "tables_ready P D t" "heap_inv first_chunks ?hp t" "kheap t = ?hp" "placement_address t = D + 0x6020"
      "start_tables_in 0xC0081000 D (mem t)" "ld32 (mem t) (dir_physicalAddr 0xC0081000) = 0x482000"
      "cr0 t = cr0 s1" "interrupt_handlers t = interrupt_handlers s1"
    by blast
  let ?t = "switch_page_directory 0xC0081000 (t\<lparr>current_directory := 0xC0081000\<rparr>)"
  have "initialise_paging (Suc n) s = Inr (0, ?t)"
    using t0(1) f0(4) run s1_def by (simp add: initialise_paging_def register_interrupt_handler_def Let_def)
  moreover have "tables_ready P D ?t"
    by (rule tables_ready_frame [OF t(1) ok low]) (simp_all add: switch_page_directory_def)
  moreover have "heap_inv first_chunks ?hp ?t"
    using t(2) heap_inv_cong [of ?t t] by (simp add: switch_page_directory_def)
  ultimately show ?thesis
    using t f1(4,5) by (intro exI [of _ ?t]) (simp add: switch_page_directory_def)
qed

theorem initialise_paging_result_witness:
  "\<exists>t. initialise_paging 1 (vm0\<lparr>placement_address := 0x104800\<rparr>) = Inr (0, t) \<and> current_directory t = 0xC0081000
    \<and> cr3 t = 0x482000 \<and> kheap t = 0x10B000 \<and> heap_inv first_chunks 0x10B000 t"
proof -
  let ?s = "vm0\<lparr>placement_address := 0x104800\<rparr>"
  have "start_ok 0x104800 0x105000" "unat (0x105000 :: u32) + 0x6000 \<le> 0x400000" by (simp_all add: start_ok_def)
  moreover have "kheap ?s = 0" "placement_address ?s = 0x104800" "\<forall>x. in_region (0x104800 + 128) 384 x \<longrightarrow> mem ?s x = 0"
    "h_size (mem ?s) 0 < 20 \<or> 0x80000 < h_size (mem ?s) 0" by (simp_all add: h_size_def)
  ultimately obtain t where "initialise_paging (Suc 0) ?s = Inr (0, t)" "current_directory t = 0xC0081000" "cr3 t = 0x482000"
    "kheap t = 0x105000 + 0x6000" "heap_inv first_chunks (0x105000 + 0x6000) t"
    using initialise_paging_result [of "0x104800" "0x105000" ?s 0] by blast
  then show ?thesis by simp
qed

end
