(* ===== verification/Heap_Merge.thy ===== *)
theory Heap_Merge
  imports Heap_Blocks
begin

text \<open>
  Releases that merge (\<^verbatim>\<open>free\<close> of sys/kheap.c) under the invariant of the whole heap. A block behind a hole is added to the hole,
  whose place in the index stays as it is: the heap is well-formed again exactly when the larger hole does not have to
  move behind another one in the order of the sizes.
\<close>

section \<open>The index\<close>

lemma grown_entry_sorted:
  assumes "sorted (map f (ys @ g # zs))" and "f g \<le> f' g" and "\<And>x. x \<in> set ys \<union> set zs \<Longrightarrow> f' x = f x"
  shows "sorted (map f' (ys @ g # zs)) \<longleftrightarrow> (\<forall>x \<in> set zs. f' g \<le> f x)"
proof -
  have eq: "map f' (ys @ g # zs) = map f ys @ f' g # map f zs" using assms(3) by simp
  have "f x \<le> f' g" if "x \<in> set ys" for x using assms(1,2) that by (fastforce simp: sorted_append)
  then show ?thesis using assms(1) unfolding eq by (auto simp: sorted_append)
qed

text \<open>Entries with a null pointer count only when the size read there is one of a hole.\<close>

definition counted :: "(u32 \<Rightarrow> u32) \<Rightarrow> u32 list \<Rightarrow> u32 list" where
  "counted f xs = (if f 0 < 20 then filter (\<lambda>x. x \<noteq> 0) xs else xs)"

lemma grown_hole_sorted:
  assumes old: "index_sorted f xs" and g: "g \<in> set xs" "g \<noteq> 0" "count (mset xs) g = 1"
    and k: "f g \<le> k" and new: "\<And>x. x \<in> set xs \<Longrightarrow> x \<noteq> g \<Longrightarrow> f' x = f x" "f' 0 = f 0" "f' g = k"
  shows "(\<And>x. x \<in> set (counted f xs) \<Longrightarrow> x \<noteq> g \<Longrightarrow> f x < f g \<or> k \<le> f x) \<Longrightarrow> index_sorted f' xs"
    and "x \<in> set (counted f xs) \<Longrightarrow> f g < f x \<Longrightarrow> f x < k \<Longrightarrow> \<not> index_sorted f' xs"
proof -
  let ?xs = "counted f xs"
  have xs: "counted f' xs = ?xs" using new(2) by (simp add: counted_def)
  have s: "sorted (map f ?xs)" using old by (simp add: index_sorted_def counted_def)
  have "g \<in> set ?xs" using g(1,2) by (simp add: counted_def)
  then obtain ys zs where yz: "?xs = ys @ g # zs" by (metis split_list)
  have "count (mset ?xs) g = 1" using g(2,3) by (simp add: counted_def)
  then have out: "g \<notin> set ys \<union> set zs" unfolding yz by (simp add: count_eq_zero_iff)
  have sub: "set ?xs \<subseteq> set xs" by (auto simp: counted_def)
  have same: "f' x = f x" if "x \<in> set ys \<union> set zs" for x using new(1) sub out that unfolding yz by auto
  have iff: "index_sorted f' xs \<longleftrightarrow> (\<forall>x \<in> set zs. k \<le> f x)"
    using grown_entry_sorted [OF s [unfolded yz] _ same] k new(3) xs
    unfolding index_sorted_def counted_def [symmetric] yz by simp
  have zs: "f g \<le> f x" if "x \<in> set zs" for x using s that unfolding yz by (simp add: sorted_append)
  have ys: "f x \<le> f g" if "x \<in> set ys" for x using s that unfolding yz by (simp add: sorted_append)
  show "index_sorted f' xs" if "\<And>x. x \<in> set ?xs \<Longrightarrow> x \<noteq> g \<Longrightarrow> f x < f g \<or> k \<le> f x"
    unfolding iff using that zs out unfolding yz by fastforce
  show "\<not> index_sorted f' xs" if x: "x \<in> set ?xs" "f g < f x" "f x < k"
    unfolding iff using x ys [of x] unfolding yz by (auto simp: not_le)
qed


section \<open>Merging with the hole on the left\<close>

text \<open>What \<open>free\<close> leaves of the memory when the block behind the hole at \<open>g\<close> is released.\<close>

lemma merge_left_memory:
  assumes inv: "heap_inv (us @ (l, 1) # (n, 0) # vs) hp s"
    and us: "chain (mem s) (hp_end_address (heaps s hp)) (hp_start_address (heaps s hp)) us g"
    and right: "vs \<noteq> []" "snd (hd vs) = 0"
  shows "\<exists>m. free (g + l + 12) hp s = Inr (s\<lparr>mem := m\<rparr>) \<and> tagged m g 1 (l + n)
    \<and> (\<forall>x. in_region g (unat (l + n)) x \<or> m x = mem s x)"
    and "unat (l + n) = unat l + unat n" and "unat g + unat (l + n) + 20 \<le> unat (hp_end_address (heaps s hp))"
    and "20 \<le> unat l"
proof -
  let ?b = "hp_start_address (heaps s hp)" and ?e = "hp_end_address (heaps s hp)" and ?h = "g + l"
  have g: "chunk_at (mem s) ?e g (l, 1)" and rest: "chain (mem s) ?e ?h ((n, 0) # vs) ?e"
    using heap_inv_split [OF inv us] by simp_all
  have h: "chunk_at (mem s) ?e ?h (n, 0)" and vs: "chain (mem s) ?e (?h + n) vs ?e" using rest by simp_all
  have u: "unat ?h = unat g + unat l" "unat (?h + n) = unat ?h + unat n"
    using chunk_end [OF g] chunk_end [OF h] by simp_all
  have big: "20 \<le> unat l" "20 \<le> unat n" using g h by (simp_all add: chunk_at_def)
  obtain c vs' where v: "vs = c # vs'" using right(1) by (cases vs) auto
  then have end_far: "unat (?h + n) + 20 \<le> unat ?e" using vs by (auto simp: chunk_at_def)
  then have lt: "unat l + unat n + 12 < 4294967296" using u unat_lt_u32 [of ?e] by linarith
  then show sum: "unat (l + n) = unat l + unat n" by (intro unat_add_lem32) linarith
  show "unat g + unat (l + n) + 20 \<le> unat ?e" using end_far u sum by simp
  show "20 \<le> unat l" by (rule big)
  have foot: "footer_at (mem s) (g + l - 8) g"
    using g u(2) end_far by (auto simp: chunk_at_def)
  let ?us = "us @ [(l, 1)]"
  have inv': "heap_inv (?us @ (n, 0) # vs) hp s" using inv by simp
  have us': "chain (mem s) ?e ?b ?us ?h" using us g by (auto simp: chain_append)
  note f = freed_block [OF inv' refl us']
  have "chunk_at (freed ?h (mem s)) ?e g (l, 1)"
    using f(2) chain_unique [OF _ us] by (auto simp: chain_append)
  then have "tagged (freed ?h (mem s)) g 1 l" using u(2) end_far by (auto simp: chunk_at_def tagged_def)
  moreover have "\<not> hole_on_right (freed ?h (mem s)) (?h + n)" using no_hole_on_right [OF f(3)] right by simp
  moreover have "?h + n \<noteq> ?e" using end_far by auto
  moreover have "unat ?h + 12 < 4294967296" using u end_far big unat_lt_u32 [of ?e] by linarith
  then have "unat (?h + 12) = unat ?h + 12" using unat_add_lem32 [of ?h 12] by simp
  then have "?h + 12 \<noteq> 0" by auto
  ultimately show "\<exists>m. free (g + l + 12) hp s = Inr (s\<lparr>mem := m\<rparr>) \<and> tagged m g 1 (l + n)
      \<and> (\<forall>x. in_region g (unat (l + n)) x \<or> m x = mem s x)"
    using free_merges_left [OF chunk_tagged [OF h] big(2) _ refl _ big(1) refl lt] by blast
qed


text \<open>The holes beside the merged one: where they are, and which sizes they have.\<close>

lemma merged_holes:
  assumes inv: "heap_inv (us @ (l, 1) # (n, 0) # vs) hp s" and b: "b = hp_start_address (heaps s hp)"
    and us: "chain (mem s) (hp_end_address (heaps s hp)) b us g"
    and sum: "unat (l + n) = unat l + unat n" "unat g + unat (l + n) + 20 \<le> unat (hp_end_address (heaps s hp))"
    and Y: "Y = hole_addrs b us + hole_addrs (g + (l + n)) vs"
  shows "hole_addrs b (us @ (l, 1) # (n, 0) # vs) = add_mset g Y" and "hole_addrs b (us @ (l + n, 1) # vs) = add_mset g Y"
    and "x \<in># Y \<Longrightarrow> unat x + 12 \<le> unat g \<or> unat g + unat (l + n) \<le> unat x"
    and "x \<in># Y \<Longrightarrow> (h_size (mem s) x, 1) \<in> set (us @ vs)"
    and "(k, 1) \<in> set (us @ vs) \<Longrightarrow> \<exists>x. x \<in># Y \<and> h_size (mem s) x = k"
    and "20 \<le> unat l" and "h_size (mem s) g = l" and "unat b \<le> unat g"
    and "\<not> h_size (mem s) 0 < 20 \<Longrightarrow> l + n \<le> h_size (mem s) 0"
proof -
  let ?e = "hp_end_address (heaps s hp)"
  note D = heap_invD [OF inv b refl]
  have g: "chunk_at (mem s) ?e g (l, 1)" and rest: "chain (mem s) ?e (g + l) ((n, 0) # vs) ?e"
    using heap_inv_split [OF inv us [unfolded b]] by simp_all
  have vs: "chain (mem s) ?e (g + (l + n)) vs ?e" using rest by (simp add: add.assoc)
  show ub: "unat b \<le> unat g" using chain_bounds [OF us D(1)] by simp
  have uv: "unat (g + (l + n)) = unat g + unat (l + n)"
    using sum(2) unat_lt_u32 [of ?e] by (intro unat_add_lem32) linarith
  show "hole_addrs b (us @ (l, 1) # (n, 0) # vs) = add_mset g Y" "hole_addrs b (us @ (l + n, 1) # vs) = add_mset g Y"
    using hole_addrs_append [OF us] by (simp_all add: add.assoc Y)
  show "unat x + 12 \<le> unat g \<or> unat g + unat (l + n) \<le> unat x" if "x \<in># Y" for x
    using that hole_addrs_bounds [OF us D(1), of x] hole_addrs_bounds [OF vs, of x] uv sum(2) unfolding Y by fastforce
  show "(h_size (mem s) x, 1) \<in> set (us @ vs)" if "x \<in># Y" for x
    using that hole_addrs_split [OF us, of x] hole_addrs_split [OF vs, of x] unfolding Y by (fastforce simp: chunk_at_def header_at_def)
  show "\<exists>x. x \<in># Y \<and> h_size (mem s) x = k" if "(k, 1) \<in> set (us @ vs)" for k
    using that hole_in_chain [OF us, of "(k, 1)"] hole_in_chain [OF vs, of "(k, 1)"] unfolding Y by auto
  show "20 \<le> unat l" "h_size (mem s) g = l" using g by (simp_all add: chunk_at_def header_at_def)
  have "unat (?e - b) = unat ?e - unat b" using D(1) by (rule unat_sub_lem32)
  then show "l + n \<le> h_size (mem s) 0" if "\<not> h_size (mem s) 0 < 20"
    using that D(4) sum(2) ub by (auto simp: null_size_ok_def word_less_nat_alt word_le_nat_alt b)
qed

text \<open>Any memory that differs in the merged chunk only: the index has the same entries, in the order of before.\<close>

lemma merge_left_index:
  assumes inv: "heap_inv (us @ (l, 1) # (n, 0) # vs) hp s" and b: "b = hp_start_address (heaps s hp)"
    and us: "chain (mem s) (hp_end_address (heaps s hp)) b us g"
    and sum: "unat (l + n) = unat l + unat n" "unat g + unat (l + n) + 20 \<le> unat (hp_end_address (heaps s hp))"
    and size: "h_size m g = l + n" and same: "\<And>x. \<not> in_region g (unat (l + n)) x \<Longrightarrow> m x = mem s x"
  shows "(\<And>k. (k, 1) \<in> set (us @ vs) \<Longrightarrow> k < l \<or> l + n \<le> k) \<Longrightarrow>
      index_holds (hole_addrs b (us @ (l + n, 1) # vs)) hp (s\<lparr>mem := m\<rparr>)"
    and "(k, 1) \<in> set (us @ vs) \<Longrightarrow> l < k \<Longrightarrow> k < l + n \<Longrightarrow> \<not> index_holds X hp (s\<lparr>mem := m\<rparr>)"
proof -
  let ?i = "hp_index (heaps s hp)" and ?Y = "hole_addrs b us + hole_addrs (g + (l + n)) vs"
  let ?xs = "oa_list (mem s) ?i" and ?f = "h_size (mem s)"
  note H = merged_holes [OF inv b us sum refl]
  note I = heap_invD(2) [OF inv b refl, unfolded H(1)]
  have lt: "unat g + unat (l + n) \<le> 4294967296" using sum(2) unat_lt_u32 [of "hp_end_address (heaps s hp)"] by linarith
  have keep: "h_size m x = ?f x" if "x \<in># ?Y \<or> x = 0" for x
    using that H(3) [of x] H(8) b by (intro hole_sizes_frame [OF I same _ lt]) auto
  have "m x = mem s x" if "unat x < unat (hp_start_address (heaps s hp))" for x
    using that H(8) b in_region_interval [OF lt, of x] by (intro same) simp
  note array = index_array_frame [OF I this]
  have fm: "filter_mset (\<lambda>x. x \<noteq> 0) (mset ?xs) = add_mset g ?Y" using I by (simp add: index_holds_def Let_def)
  have gx: "g \<in> set ?xs" "g \<noteq> 0" using index_members [OF I, of g] by simp_all
  have "g \<notin># ?Y" using H(3) [of g] H(6) sum(1) by auto
  then have "count (add_mset g ?Y) g = 1" by (simp add: not_in_iff)
  then have cnt: "count (mset ?xs) g = 1" unfolding fm [symmetric] using gx(2) by simp
  have ent: "x \<in># ?Y \<or> x = 0" if "x \<in> set ?xs" "x \<noteq> g" for x using index_entries [OF I that(1)] that(2) by auto
  have old: "index_sorted ?f ?xs" using I by (simp add: index_holds_def Let_def)
  have "?f g \<le> l + n" using H(7) sum(1) by (simp add: word_le_nat_alt)
  note grown = grown_hole_sorted [OF old gx cnt this, of "h_size m", OF keep keep size, OF ent, unfolded H(7)]
  show "index_holds (hole_addrs b (us @ (l + n, 1) # vs)) hp (s\<lparr>mem := m\<rparr>)"
    if k: "\<And>k. (k, 1) \<in> set (us @ vs) \<Longrightarrow> k < l \<or> l + n \<le> k"
  proof -
    have "?f x < l \<or> l + n \<le> ?f x" if x: "x \<in> set (counted ?f ?xs)" "x \<noteq> g" for x
    proof (cases "x \<in># ?Y")
      case True
      then show ?thesis using H(4) k by blast
    next
      case False
      then have "x = 0" "\<not> ?f 0 < 20" using x ent by (auto simp: counted_def split: if_splits)
      then show ?thesis using H(9) by simp
    qed
    then have "index_sorted (h_size m) ?xs" using grown(1) by auto
    then show ?thesis unfolding H(2) using I array by (simp add: index_holds_def Let_def)
  qed
  show "\<not> index_holds X hp (s\<lparr>mem := m\<rparr>)" if k: "(k, 1) \<in> set (us @ vs)" "l < k" "k < l + n"
  proof -
    obtain x where x: "x \<in># ?Y" "?f x = k" using H(5) [OF k(1)] by blast
    have "x \<in> set ?xs" "x \<noteq> 0" using index_members [OF I, of x] x(1) by simp_all
    then have "\<not> index_sorted (h_size m) ?xs" using grown(2) [of x] x(2) k(2,3) by (auto simp: counted_def)
    then show ?thesis using array by (simp add: index_holds_def Let_def)
  qed
qed

lemma merge_left_inv:
  assumes inv: "heap_inv (us @ (l, 1) # (n, 0) # vs) hp s" and b: "b = hp_start_address (heaps s hp)"
    and us: "chain (mem s) (hp_end_address (heaps s hp)) b us g"
    and sum: "unat (l + n) = unat l + unat n" "unat g + unat (l + n) + 20 \<le> unat (hp_end_address (heaps s hp))"
    and tag: "tagged m g 1 (l + n)" and same: "\<And>x. \<not> in_region g (unat (l + n)) x \<Longrightarrow> m x = mem s x"
    and order: "\<And>k. (k, 1) \<in> set (us @ vs) \<Longrightarrow> k < l \<or> l + n \<le> k"
  shows "heap_inv (us @ (l + n, 1) # vs) hp (s\<lparr>mem := m\<rparr>)"
proof -
  let ?e = "hp_end_address (heaps s hp)"
  note D = heap_invD [OF inv b refl] and H = merged_holes [OF inv b us sum refl]
  have lt: "unat g + unat (l + n) \<le> 4294967296" using sum(2) unat_lt_u32 [of ?e] by linarith
  have keep: "m x = mem s x" if "unat x < unat g \<or> unat g + unat (l + n) \<le> unat x" for x
    using that in_region_interval [OF lt, of x] by (intro same) auto
  have "chain (mem s) ?e (g + l) ((n, 0) # vs) ?e" using heap_inv_split(2) [OF inv us [unfolded b]] by simp
  then have vs: "chain (mem s) ?e (g + (l + n)) vs ?e" by (simp add: add.assoc)
  have uv: "unat (g + (l + n)) = unat g + unat (l + n)" using sum(2) unat_lt_u32 [of ?e] by (intro unat_add_lem32) linarith
  have "chain m ?e b us g" using us D(1) by (rule chain_frame) (simp add: keep)
  moreover have "chain m ?e (g + (l + n)) vs ?e" using vs by (rule chain_frame) (use uv sum(2) keep in simp_all)
  moreover have "chunk_at m ?e g (l + n, 1)" using tag H(6) sum by (simp add: chunk_at_def tagged_def)
  ultimately have "chain m ?e b (us @ (l + n, 1) # vs) ?e" by (auto simp: chain_append)
  moreover have "index_holds (hole_addrs b (us @ (l + n, 1) # vs)) hp (s\<lparr>mem := m\<rparr>)"
    using tag order by (intro merge_left_index(1) [OF inv b us sum _ same]) (simp_all add: tagged_def header_at_def)
  moreover have "h_size m 0 = h_size (mem s) 0"
    using H(8) b by (intro hole_sizes_frame [OF D(2) same _ lt]) simp_all
  ultimately show ?thesis using D(1,4) by (simp add: heap_inv_def null_size_ok_def b word_le_nat_alt)
qed

lemma merged_blocks_away:
  assumes inv: "heap_inv (us @ (l, 1) # (n, 0) # vs) hp s" and b: "b = hp_start_address (heaps s hp)"
    and us: "chain (mem s) (hp_end_address (heaps s hp)) b us g"
    and sum: "unat (l + n) = unat l + unat n" "unat g + unat (l + n) + 20 \<le> unat (hp_end_address (heaps s hp))"
    and q: "(q, j) \<in> set (live b us @ live (g + (l + n)) vs)" and x: "in_region q (unat j) x"
  shows "\<not> in_region g (unat (l + n)) x"
proof -
  let ?e = "hp_end_address (heaps s hp)"
  have "chain (mem s) ?e (g + l) ((n, 0) # vs) ?e" using heap_inv_split(2) [OF inv us [unfolded b]] by simp
  then have vs: "chain (mem s) ?e (g + (l + n)) vs ?e" by (simp add: add.assoc)
  have uv: "unat (g + (l + n)) = unat g + unat (l + n)" using sum(2) unat_lt_u32 [of ?e] by (intro unat_add_lem32) linarith
  have "unat q + unat j \<le> unat g \<or> unat g + unat (l + n) \<le> unat q \<and> unat q + unat j \<le> unat ?e"
    using q live_bounds [OF us heap_invD(1) [OF inv b refl], of q j] live_bounds [OF vs, of q j] uv sum(2) by auto
  moreover have "unat g + unat (l + n) \<le> 4294967296" "unat ?e < 4294967296" using sum(2) unat_lt_u32 [of ?e] by linarith+
  moreover from this have "unat q + unat j \<le> 4294967296" using calculation(1) by linarith
  ultimately show ?thesis
    using x in_region_interval [of q "unat j" x] in_region_interval [of g "unat (l + n)" x] by auto
qed

section \<open>Properties\<close>

text \<open>
  C11. Releasing a block behind a hole: \<open>free\<close> returns, the other blocks in use keep their contents, and the heap is well-formed
  again with the block added to the hole, provided no other hole has a size from the old to the new size of the hole. If one
  lies strictly between, the heap is not well-formed any more: \<open>free\<close> leaves the larger hole at its old place in the index, which is no
  longer sorted by size, so that later searches for the smallest hole that fits go wrong.
\<close>
theorem free_joins_left_hole:
  assumes inv: "heap_inv (us @ (l, 1) # (n, 0) # vs) hp s" and right: "vs \<noteq> []" "snd (hd vs) = 0"
    and b: "b = hp_start_address (heaps s hp)" and p: "p = b + sum_list (map fst us) + l + 12"
  shows "\<exists>t. free p hp s = Inr t
    \<and> ((\<forall>k. (k, 1) \<in> set (us @ vs) \<longrightarrow> k < l \<or> l + n \<le> k) \<longrightarrow> heap_inv (us @ (l + n, 1) # vs) hp t)
    \<and> ((\<exists>k. (k, 1) \<in> set (us @ vs) \<and> l < k \<and> k < l + n) \<longrightarrow> (\<forall>cs. \<not> heap_inv cs hp t))
    \<and> mset (live b (us @ (l, 1) # (n, 0) # vs)) = add_mset (p, n - 20) (mset (live b (us @ (l + n, 1) # vs)))
    \<and> (\<forall>(q, j) \<in> set (live b (us @ (l + n, 1) # vs)). \<forall>x. in_region q (unat j) x \<longrightarrow> mem t x = mem s x)"
proof -
  let ?e = "hp_end_address (heaps s hp)"
  obtain g where us: "chain (mem s) ?e b us g" using heap_invD(3) [OF inv b refl] by (auto simp: chain_append)
  have pg: "p = g + l + 12" using chain_end [OF us] p by simp
  note M = merge_left_memory [OF inv us [unfolded b] right]
  obtain m where m: "free p hp s = Inr (s\<lparr>mem := m\<rparr>)" "tagged m g 1 (l + n)"
    and same: "\<And>x. \<not> in_region g (unat (l + n)) x \<Longrightarrow> m x = mem s x"
    using M(1) pg by auto
  have lives: "live b (us @ (l, 1) # (n, 0) # vs) = live b us @ (p, n - 20) # live (g + (l + n)) vs"
    "live b (us @ (l + n, 1) # vs) = live b us @ live (g + (l + n)) vs"
    using live_append [OF us] by (simp_all add: add.assoc pg)
  have "\<not> heap_inv cs hp (s\<lparr>mem := m\<rparr>)" if "(k, 1) \<in> set (us @ vs)" "l < k" "k < l + n" for k cs
    using merge_left_index(2) [OF inv b us M(2,3) _ same that] m(2) by (auto simp: heap_inv_def tagged_def header_at_def)
  moreover have "(\<forall>k. (k, 1) \<in> set (us @ vs) \<longrightarrow> k < l \<or> l + n \<le> k) \<longrightarrow> heap_inv (us @ (l + n, 1) # vs) hp (s\<lparr>mem := m\<rparr>)"
    using merge_left_inv [OF inv b us M(2,3) m(2) same] by blast
  moreover have "m x = mem s x" if "(q, j) \<in> set (live b us @ live (g + (l + n)) vs)" "in_region q (unat j) x" for q j x
    using merged_blocks_away [OF inv b us M(2,3) that] by (rule same)
  then have "\<forall>(q, j) \<in> set (live b (us @ (l + n, 1) # vs)). \<forall>x. in_region q (unat j) x \<longrightarrow> mem (s\<lparr>mem := m\<rparr>) x = mem s x"
    unfolding lives(2) by auto
  moreover have "mset (live b (us @ (l, 1) # (n, 0) # vs)) = add_mset (p, n - 20) (mset (live b (us @ (l + n, 1) # vs)))"
    by (simp add: lives)
  ultimately show ?thesis using m(1) by blast
qed

text \<open>A heap with a small hole in front of two blocks.\<close>

lemma heap_with_hole:
  "\<exists>s :: vm. heap_inv [(120, 1), (120, 0), (120, 0), (0x80000 - 360, 1)] 0x200000 s \<and> hp_start_address (heaps s 0x200000) = 0xC0080000"
proof -
  let ?hp = "0x200000 :: u32"
  obtain s :: vm where s: "heap_inv [(120, 0), (120, 0), (0x80000 - 240, 1)] ?hp s" "hp_start_address (heaps s ?hp) = 0xC0080000"
    "unat (oa_size (hp_index (heaps s ?hp))) + (2 + 2) \<le> unat (oa_max_size (hp_index (heaps s ?hp)))"
    using heap_of_two [of 4] by auto
  then obtain u i where u: "heap_inv [(120, 0), (120, 0), (120, 0), (0x80000 - 360, 1)] ?hp u" "index_grown i ?hp s u" "i \<le> 2"
    using alloc_heap_inv [OF s(1), of 100 "0x80000 - 240" 0]
    by (auto simp: Cons_eq_append_conv carve_def block_size_def)
  have room: "unat (oa_size (hp_index (heaps u ?hp))) + 2 \<le> unat (oa_max_size (hp_index (heaps u ?hp)))"
    using index_grown_room [OF u(2,3) s(3)] .
  have "heap_inv ([] @ (120, 0) # [(120, 0), (120, 0), (0x80000 - 360, 1)]) ?hp u"
    "no_holes_around [] [(120, 0), (120, 0), (0x80000 - 360, 1)]" using u(1) by (simp_all add: no_holes_around_def)
  from free_heap_inv [OF this _ room, of "0xC0080000"] obtain t where
    "heap_inv [(120, 1), (120, 0), (120, 0), (0x80000 - 360, 1)] ?hp t" "index_grown 1 ?hp u t"
    using s(2) index_grown_fields(1) [OF u(2)] by auto
  then show ?thesis using s(2) index_grown_fields(1) [OF u(2)] index_grown_fields(1) [of 1 ?hp u t] by (intro exI [of _ t]) simp
qed

theorem free_joins_left_hole_witness:
  "\<exists>s t :: vm. free 0xC0080084 0x200000 s = Inr t \<and> heap_inv [(240, 1), (120, 0), (0x80000 - 360, 1)] 0x200000 t"
proof -
  obtain s :: vm where s: "heap_inv [(120, 1), (120, 0), (120, 0), (0x80000 - 360, 1)] 0x200000 s"
    "hp_start_address (heaps s 0x200000) = 0xC0080000" using heap_with_hole by blast
  from free_joins_left_hole [of "[]" 120 120 "[(120, 0), (0x80000 - 360, 1)]" "0x200000" s, OF _ _ _ s(2) [symmetric] refl] s(1)
  show ?thesis by auto
qed

end
