(* ===== verification/Task.thy ===== *)
theory Task
  imports Paging
begin

text \<open>
  Multitasking, sys/task.c, and the timer that drives it, sys/timer.c. A \<^verbatim>\<open>task_t *\<close> is the
  address of 28 bytes (id 0, esp 4, ebp 8, eip 12, page_directory 16, kernel_stack 20, next 24)
  in the raw memory, so that the ready queue is a linked list in memory. The processor registers
  the code reads and writes by inline assembly are fields of the state; \<open>reg_eip\<close> is the address
  at which execution goes on. \<open>read_eip\<close> of sys/process.s gives the return address of its call
  site, which is an argument (\<open>eip\<close>) of the functions that call it.

  The locale \<open>round_robin\<close> is the contract of the scheduler: one step moves on to the cyclic
  successor. \<open>switch_task\<close> fulfils it on every well-formed ready queue.
\<close>

section \<open>State\<close>

record tasks = vm +
  current_task :: u32
  ready_queue :: u32
  next_pid :: u32
  initial_esp :: u32
  reg_esp :: u32
  reg_ebp :: u32
  reg_eip :: u32
  reg_eax :: u32
  tick :: u32

definition KERNEL_STACK_SIZE :: u32 where "KERNEL_STACK_SIZE = 2048"
definition sizeof_task :: u32 where "sizeof_task = 28"

definition task_id :: "memory \<Rightarrow> u32 \<Rightarrow> u32" where "task_id m t = ld32 m t"
definition task_esp :: "memory \<Rightarrow> u32 \<Rightarrow> u32" where "task_esp m t = ld32 m (t + 4)"
definition task_ebp :: "memory \<Rightarrow> u32 \<Rightarrow> u32" where "task_ebp m t = ld32 m (t + 8)"
definition task_eip :: "memory \<Rightarrow> u32 \<Rightarrow> u32" where "task_eip m t = ld32 m (t + 12)"
definition task_page_directory :: "memory \<Rightarrow> u32 \<Rightarrow> u32" where "task_page_directory m t = ld32 m (t + 16)"
definition task_kernel_stack :: "memory \<Rightarrow> u32 \<Rightarrow> u32" where "task_kernel_stack m t = ld32 m (t + 20)"
definition task_next :: "memory \<Rightarrow> u32 \<Rightarrow> u32" where "task_next m t = ld32 m (t + 24)"

section \<open>The stack\<close>

fun stack_pages_loop ::
  "nat \<Rightarrow> 'a vm_scheme page_allocator \<Rightarrow> u32 \<Rightarrow> u32 \<Rightarrow> 'a vm_scheme \<Rightarrow> ('a vm_scheme, 'a vm_scheme) result" where
  "stack_pages_loop 0 km lo i s = Inl Out_of_fuel"
| "stack_pages_loop (Suc n) km lo i s =
     (if lo \<le> i then
        bind_res (get_page km i 1 (current_directory s) s) (\<lambda>(page, s).
        bind_res (alloc_frame page 0 1 s) (\<lambda>s. stack_pages_loop n km lo (i - 0x1000) s))
      else Inr s)"

text \<open>The loop that moves saved base pointers: every word that points into the old stack.\<close>

fun relocate_loop :: "nat \<Rightarrow> u32 \<Rightarrow> u32 \<Rightarrow> u32 \<Rightarrow> u32 \<Rightarrow> u32 \<Rightarrow> memory \<Rightarrow> memory option" where
  "relocate_loop 0 old_sp init_sp offset lo i m = None"
| "relocate_loop (Suc n) old_sp init_sp offset lo i m =
     (if lo < i then
        (let tmp = ld32 m i in
         relocate_loop n old_sp init_sp offset lo (i - 4)
           (if old_sp < tmp \<and> tmp < init_sp then st32 m i (tmp + offset) else m))
      else Some m)"

definition move_stack ::
  "'a tasks_scheme page_allocator \<Rightarrow> u32 \<Rightarrow> u32 \<Rightarrow> 'a tasks_scheme \<Rightarrow> ('a tasks_scheme, 'a tasks_scheme) result" where
  "move_stack km new_stack_start sz s =
     bind_res (stack_pages_loop (Suc max_pages) km (new_stack_start - sz) new_stack_start s) (\<lambda>s.
     let old_stack_pointer = reg_esp s;
         old_base_pointer = reg_ebp s;
         offset = new_stack_start - initial_esp s;
         new_stack_pointer = old_stack_pointer + offset;
         new_base_pointer = old_base_pointer + offset;
         m = memcpy (mem s) new_stack_pointer old_stack_pointer (initial_esp s - old_stack_pointer)
     in case relocate_loop (Suc (unat sz)) old_stack_pointer (initial_esp s) offset
               (new_stack_start - sz) new_stack_start m of
          None \<Rightarrow> Inl Out_of_fuel
        | Some m \<Rightarrow> Inr (s\<lparr>mem := m, reg_esp := new_stack_pointer, reg_ebp := new_base_pointer\<rparr>))"

section \<open>Tasks\<close>

definition new_task :: "u32 \<Rightarrow> u32 \<Rightarrow> u32 \<Rightarrow> memory \<Rightarrow> memory" where
  "new_task t pid dir m =
     (let m = st32 m t pid; m = st32 m (t + 4) 0; m = st32 m (t + 8) 0; m = st32 m (t + 12) 0;
          m = st32 m (t + 16) dir
      in st32 m (t + 24) 0)"

definition initialise_tasking :: "nat \<Rightarrow> 'a tasks_scheme \<Rightarrow> ('a tasks_scheme, u8 \<times> 'a tasks_scheme) result" where
  "initialise_tasking n s =
     (let s = s\<lparr>iflag := False\<rparr> in
      bind_res (move_stack (kmalloc_ap n) 0xE0000000 0x2000 s) (\<lambda>s.
      bind_res (kmalloc n sizeof_task s) (\<lambda>(t, s).
        let s = s\<lparr>current_task := t, ready_queue := t\<rparr>;
            s = s\<lparr>mem := new_task t (next_pid s) (current_directory s) (mem s), next_pid := next_pid s + 1\<rparr>
        in Inr (0, s\<lparr>iflag := True\<rparr>))))"

definition switch_task :: "u32 \<Rightarrow> 'a tasks_scheme \<Rightarrow> 'a tasks_scheme" where
  "switch_task eip s =
     (if current_task s = 0 then s
      else if eip = 0x12345 then s
      else
        (let m = st32 (mem s) (current_task s + 12) eip;
             m = st32 m (current_task s + 4) (reg_esp s);
             m = st32 m (current_task s + 8) (reg_ebp s);
             s = s\<lparr>mem := m\<rparr>;
             s = s\<lparr>current_task := task_next (mem s) (current_task s)\<rparr>;
             s = (if current_task s = 0 then s\<lparr>current_task := ready_queue s\<rparr> else s);
             eip = task_eip (mem s) (current_task s);
             esp = task_esp (mem s) (current_task s);
             ebp = task_ebp (mem s) (current_task s);
             s = s\<lparr>current_directory := task_page_directory (mem s) (current_task s)\<rparr>;
             s = set_kernel_stack (task_kernel_stack (mem s) (current_task s) + KERNEL_STACK_SIZE) s
         in s\<lparr>reg_esp := esp, reg_ebp := ebp, cr3 := ld32 (mem s) (dir_physicalAddr (current_directory s)),
              reg_eax := 0x12345, iflag := True, reg_eip := eip\<rparr>))"

partial_function (option) queue_end :: "memory \<Rightarrow> u32 \<Rightarrow> u32 option" where
  "queue_end m t = (if task_next m t = 0 then Some t else queue_end m (task_next m t))"

declare queue_end.simps [code]

text \<open>
  \<open>fork\<close> in two parts. \<open>fork_create\<close> makes the child and links it. \<open>fork_return\<close> starts at the
  return from \<open>read_eip\<close>, which happens twice: in the parent, and in the child when it is
  scheduled for the first time.
\<close>

definition fork_create ::
  "nat \<Rightarrow> 'a tasks_scheme \<Rightarrow> ('a tasks_scheme, (u32 \<times> u32) \<times> 'a tasks_scheme) result" where
  "fork_create n s =
     (let s = s\<lparr>iflag := False\<rparr>;
          parent_task = current_task s
      in bind_res (clone_directory (kmalloc_ap n) (current_directory s) s) (\<lambda>(directory, s).
         bind_res (kmalloc n sizeof_task s) (\<lambda>(t, s).
           let s = s\<lparr>mem := new_task t (next_pid s) directory (mem s), next_pid := next_pid s + 1\<rparr>
           in case queue_end (mem s) (ready_queue s) of
                None \<Rightarrow> Inl Out_of_fuel
              | Some tmp_task \<Rightarrow> Inr ((parent_task, t), s\<lparr>mem := st32 (mem s) (tmp_task + 24) t\<rparr>))))"

definition fork_return :: "u32 \<Rightarrow> u32 \<Rightarrow> u32 \<Rightarrow> 'a tasks_scheme \<Rightarrow> u32 \<times> 'a tasks_scheme" where
  "fork_return eip parent_task t s =
     (if current_task s = parent_task then
        (let s = s\<lparr>mem := st32 (mem s) (t + 4) (reg_esp s)\<rparr>;
             s = s\<lparr>mem := st32 (mem s) (t + 8) (reg_ebp s)\<rparr>;
             s = s\<lparr>mem := st32 (mem s) (t + 12) eip\<rparr>;
             s = s\<lparr>iflag := True\<rparr>
         in (task_id (mem s) t, s))
      else (0, s))"

definition fork :: "nat \<Rightarrow> u32 \<Rightarrow> 'a tasks_scheme \<Rightarrow> ('a tasks_scheme, u32 \<times> 'a tasks_scheme) result" where
  "fork n eip s = bind_res (fork_create n s) (\<lambda>((parent_task, t), s). Inr (fork_return eip parent_task t s))"

definition getpid :: "'a tasks_scheme \<Rightarrow> u32" where
  "getpid s = task_id (mem s) (current_task s)"

text \<open>
  \<open>switch_to_user_mode\<close>: ds, fs and gs are loaded with 0x23, es is not (on the way to ring 3 the processor
  clears a data segment register that holds a kernel segment, which is not modelled), and \<^verbatim>\<open>iret\<close> pops the return
  address, CS 0x1B, the flags, the stack pointer and SS 0x23. The words are pushed below
  \<open>reg_esp\<close>; after the \<^verbatim>\<open>iret\<close> the stack pointer is the old one. \<open>eflags\<close> are the flags before the
  code, of which \<^verbatim>\<open>pushf\<close> saves what \<^verbatim>\<open>cli\<close> has left (bit 9 is clear), and \<open>resume\<close> is the
  address of the label.
\<close>

definition switch_to_user_mode :: "u32 \<Rightarrow> u32 \<Rightarrow> 'a tasks_scheme \<Rightarrow> 'a tasks_scheme" where
  "switch_to_user_mode eflags resume s =
     (let s = set_kernel_stack (task_kernel_stack (mem s) (current_task s) + KERNEL_STACK_SIZE) s;
          s = s\<lparr>iflag := False, seg_ds := 0x23, seg_fs := 0x23, seg_gs := 0x23, reg_eax := reg_esp s\<rparr>;
          pushed = eflags AND NOT (push_bit 9 1);
          m = st32 (mem s) (reg_esp s - 4) 0x23;
          m = st32 m (reg_esp s - 8) (reg_eax s);
          m = st32 m (reg_esp s - 12) pushed;
          m = st32 m (reg_esp s - 16) 0x1B;
          m = st32 m (reg_esp s - 20) resume
      in s\<lparr>mem := m, reg_eip := ld32 m (reg_esp s - 20), seg_cs := ucast (ld32 m (reg_esp s - 16)),
           iflag := bit (ld32 m (reg_esp s - 12)) 9, reg_esp := ld32 m (reg_esp s - 8),
           seg_ss := ucast (ld32 m (reg_esp s - 4))\<rparr>)"

section \<open>The timer\<close>

definition timer_callback :: "u32 \<Rightarrow> 'a tasks_scheme \<Rightarrow> 'a tasks_scheme" where
  "timer_callback eip s = switch_task eip (s\<lparr>tick := tick s + 1\<rparr>)"

definition init_timer :: "u32 \<Rightarrow> 'a tasks_scheme \<Rightarrow> ('a tasks_scheme, u8 \<times> 'a tasks_scheme) result" where
  "init_timer frequency s =
     (let s = register_interrupt_handler 32 Timer_callback s in
      if frequency = 0 then Inl (Undefined ''division by zero'')
      else
        (let divisor = 1193180 div frequency;
             s = outb 0x43 0x36 s;
             lower = ucast (divisor AND 0xFF);
             upper = ucast (drop_bit 8 divisor AND 0xFF);
             s = outb 0x40 lower s;
             s = outb 0x40 upper s
         in Inr (0, s)))"

section \<open>Task structures in memory\<close>

lemmas task_defs = task_id_def task_esp_def task_ebp_def task_eip_def task_page_directory_def
  task_kernel_stack_def task_next_def

lemma task_field_region:
  assumes "k + 4 \<le> 28" and "in_region (t + of_nat k) 4 x"
  shows "in_region t 28 x"
  using in_region_offset [of t k 4 x 28] assms by simp

lemma task_frame:
  assumes "\<And>x. in_region t 28 x \<Longrightarrow> m' x = m x"
  shows "task_id m' t = task_id m t" and "task_esp m' t = task_esp m t" and "task_ebp m' t = task_ebp m t"
    and "task_eip m' t = task_eip m t" and "task_page_directory m' t = task_page_directory m t"
    and "task_kernel_stack m' t = task_kernel_stack m t" and "task_next m' t = task_next m t"
proof -
  have "ld32 m' (t + of_nat k) = ld32 m (t + of_nat k)" if "k + 4 \<le> 28" for k
    by (rule ld32_frame) (rule assms, rule task_field_region [OF that])
  from this [of 0] this [of 4] this [of 8] this [of 12] this [of 16] this [of 20] this [of 24]
  show "task_id m' t = task_id m t" and "task_esp m' t = task_esp m t" and "task_ebp m' t = task_ebp m t"
    and "task_eip m' t = task_eip m t" and "task_page_directory m' t = task_page_directory m t"
    and "task_kernel_stack m' t = task_kernel_stack m t" and "task_next m' t = task_next m t"
    by (simp_all add: task_defs)
qed

definition save_context :: "u32 \<Rightarrow> u32 \<Rightarrow> u32 \<Rightarrow> u32 \<Rightarrow> memory \<Rightarrow> memory" where
  "save_context t eip esp ebp m = st32 (st32 (st32 m (t + 12) eip) (t + 4) esp) (t + 8) ebp"

lemma save_context_same [simp]:
  "task_eip (save_context t eip esp ebp m) t = eip" "task_esp (save_context t eip esp ebp m) t = esp"
  "task_ebp (save_context t eip esp ebp m) t = ebp"
  "task_id (save_context t eip esp ebp m) t = task_id m t"
  "task_page_directory (save_context t eip esp ebp m) t = task_page_directory m t"
  "task_kernel_stack (save_context t eip esp ebp m) t = task_kernel_stack m t"
  "task_next (save_context t eip esp ebp m) t = task_next m t"
  by (simp_all add: save_context_def task_defs ld32_st32_other sep_def)

lemma save_context_outside: "\<not> in_region t 28 x \<Longrightarrow> save_context t eip esp ebp m x = m x"
proof -
  assume x: "\<not> in_region t 28 x"
  have "\<not> in_region (t + of_nat k) 4 x" if "k + 4 \<le> 28" for k
    using x task_field_region [OF that] by blast
  from this [of 4] this [of 8] this [of 12] show ?thesis
    by (simp add: save_context_def st32_outside)
qed

section \<open>The ready queue\<close>

definition queue :: "memory \<Rightarrow> u32 \<Rightarrow> u32 list \<Rightarrow> bool" where
  "queue m q ts \<longleftrightarrow> ts \<noteq> [] \<and> hd ts = q \<and> 0 \<notin> set ts \<and> distinct ts \<and>
     (\<forall>i < length ts. task_next m (ts ! i) = (if Suc i < length ts then ts ! Suc i else 0))"

text \<open>The structures of different tasks do not overlap, and the current task is in the queue.\<close>

definition apart :: "u32 list \<Rightarrow> bool" where
  "apart ts \<longleftrightarrow> (\<forall>t \<in> set ts. \<forall>u \<in> set ts. t \<noteq> u \<longrightarrow> sep t 28 u 28)"

definition tasks_ok :: "u32 list \<Rightarrow> 'a tasks_scheme \<Rightarrow> bool" where
  "tasks_ok ts s \<longleftrightarrow> queue (mem s) (ready_queue s) ts \<and> apart ts \<and> current_task s \<in> set ts"

lemma queue_frame:
  assumes "queue m q ts" and "\<And>t. t \<in> set ts \<Longrightarrow> task_next m' t = task_next m t"
  shows "queue m' q ts"
  using assms by (simp add: queue_def)

lemma save_context_other:
  assumes "apart ts" and "t \<in> set ts" and "c \<in> set ts" and "t \<noteq> c" and "in_region t 28 x"
  shows "save_context c eip esp ebp m x = m x"
proof (rule save_context_outside)
  have "sep c 28 t 28" using assms(1-4) by (simp add: apart_def)
  then show "\<not> in_region c 28 x" using assms(5) by (rule sep_not_in_region)
qed

lemma queue_save:
  assumes "queue m q ts" and "apart ts" and "c \<in> set ts"
  shows "queue (save_context c eip esp ebp m) q ts"
proof (rule queue_frame [OF assms(1)])
  fix t assume t: "t \<in> set ts"
  show "task_next (save_context c eip esp ebp m) t = task_next m t"
  proof (cases "t = c")
    case False
    then show ?thesis using save_context_other [OF assms(2) t assms(3)] by (intro task_frame(7)) blast
  qed simp
qed

text \<open>The memory and the task after one switch.\<close>

definition next_task :: "memory \<Rightarrow> u32 \<Rightarrow> u32 \<Rightarrow> u32" where
  "next_task m q c = (if task_next m c = 0 then q else task_next m c)"

lemma switch_task_eq:
  assumes "current_task s \<noteq> 0" and "eip \<noteq> 0x12345"
  shows "switch_task eip s =
    (let m = save_context (current_task s) eip (reg_esp s) (reg_ebp s) (mem s);
         c = next_task m (ready_queue s) (current_task s);
         dir = task_page_directory m c
     in set_kernel_stack (task_kernel_stack m c + KERNEL_STACK_SIZE)
          (s\<lparr>mem := m, current_task := c, current_directory := dir, reg_esp := task_esp m c,
             reg_ebp := task_ebp m c, cr3 := ld32 m (dir_physicalAddr dir), reg_eax := 0x12345,
             iflag := True, reg_eip := task_eip m c\<rparr>))"
  using assms by (simp add: switch_task_def Let_def save_context_def [symmetric] next_task_def set_kernel_stack_def)

lemma queue_next:
  assumes "queue m q ts" and "i < length ts"
  shows "next_task m q (ts ! i) = ts ! (Suc i mod length ts)"
proof (cases "Suc i < length ts")
  case True
  have "0 \<notin> set ts" using assms(1) by (simp add: queue_def)
  then have "ts ! Suc i \<noteq> 0" using nth_mem [OF True] by metis
  then show ?thesis using True assms by (simp add: queue_def next_task_def)
next
  case False
  then have "Suc i = length ts" using assms(2) by simp
  moreover have "ts \<noteq> []" using assms(1) by (simp add: queue_def)
  then have "hd ts = ts ! 0" by (rule hd_conv_nth)
  ultimately show ?thesis using assms by (simp add: queue_def next_task_def)
qed

lemma switch_task_keeps:
  assumes "tasks_ok ts s" and "eip \<noteq> 0x12345" and "i < length ts" and "current_task s = ts ! i"
  shows "tasks_ok ts (switch_task eip s)" and "current_task (switch_task eip s) = ts ! (Suc i mod length ts)"
    and "mem (switch_task eip s) = save_context (current_task s) eip (reg_esp s) (reg_ebp s) (mem s)"
    and "ready_queue (switch_task eip s) = ready_queue s"
proof -
  let ?m = "save_context (current_task s) eip (reg_esp s) (reg_ebp s) (mem s)"
  have q: "queue (mem s) (ready_queue s) ts" "apart ts" "current_task s \<in> set ts"
    using assms(1) by (simp_all add: tasks_ok_def)
  then have c: "current_task s \<noteq> 0" by (auto simp: queue_def)
  have q': "queue ?m (ready_queue s) ts" using q by (rule queue_save)
  show m: "mem (switch_task eip s) = ?m"
    and r: "ready_queue (switch_task eip s) = ready_queue s"
    by (simp_all add: switch_task_eq [OF c assms(2)] Let_def set_kernel_stack_def)
  show n: "current_task (switch_task eip s) = ts ! (Suc i mod length ts)"
    using queue_next [OF q' assms(3)] assms(4)
    by (simp add: switch_task_eq [OF c assms(2)] Let_def set_kernel_stack_def)
  have "Suc i mod length ts < length ts" using assms(3) by (intro mod_less_divisor) linarith
  then show "tasks_ok ts (switch_task eip s)"
    using q' q(2) by (simp add: tasks_ok_def m r n)
qed

section \<open>Round robin\<close>

locale round_robin =
  fixes step :: "'e \<Rightarrow> 's \<Rightarrow> 's"
    and current :: "'s \<Rightarrow> 't"
    and ring :: "'t list"
    and ok :: "'s \<Rightarrow> bool"
    and valid :: "'e \<Rightarrow> bool"
  assumes ok_step: "ok s \<Longrightarrow> valid e \<Longrightarrow> ok (step e s)"
    and current_next: "ok s \<Longrightarrow> valid e \<Longrightarrow> i < length ring \<Longrightarrow> current s = ring ! i \<Longrightarrow>
      current (step e s) = ring ! (Suc i mod length ring)"
    and current_in: "ok s \<Longrightarrow> current s \<in> set ring"
begin

lemma ok_steps: "ok s \<Longrightarrow> list_all valid es \<Longrightarrow> ok (fold step es s)"
  by (induction es arbitrary: s) (simp_all add: ok_step)

lemma after_steps:
  assumes "ok s" and "i < length ring" and "current s = ring ! i" and "list_all valid es"
  shows "current (fold step es s) = ring ! ((i + length es) mod length ring)"
  using assms
proof (induction es arbitrary: s i)
  case (Cons e es)
  have n: "Suc i mod length ring < length ring" using Cons.prems(2) by (intro mod_less_divisor) linarith
  have "current (fold step es (step e s)) = ring ! ((Suc i mod length ring + length es) mod length ring)"
    using Cons.prems by (intro Cons.IH n) (simp_all add: ok_step current_next)
  then show ?case by (simp add: mod_add_left_eq)
qed simp

lemma full_round:
  assumes "ok s" and "length es = length ring" and "list_all valid es"
  shows "current (fold step es s) = current s"
proof -
  obtain i where "i < length ring" "current s = ring ! i"
    using current_in [OF assms(1)] by (metis in_set_conv_nth)
  then show ?thesis using after_steps [OF assms(1) _ _ assms(3), of i] assms(2) by simp
qed

lemma every_task_runs:
  assumes "ok s" and "t \<in> set ring"
  shows "\<exists>k < length ring. \<forall>es. length es = k \<longrightarrow> list_all valid es \<longrightarrow> current (fold step es s) = t"
proof -
  obtain i where i: "i < length ring" "current s = ring ! i"
    using current_in [OF assms(1)] by (metis in_set_conv_nth)
  obtain j where j: "j < length ring" "t = ring ! j" using assms(2) by (metis in_set_conv_nth)
  let ?k = "(j + (length ring - i)) mod length ring"
  have "(i + ?k) mod length ring = (j + length ring) mod length ring"
    using i(1) by (simp add: mod_add_right_eq)
  then have "(i + ?k) mod length ring = j" using j(1) by simp
  moreover have "?k < length ring" using i(1) by (intro mod_less_divisor) linarith
  ultimately show ?thesis
    using after_steps [OF assms(1) i] j(2) by (intro exI [of _ ?k]) auto
qed

end

interpretation sched: round_robin "switch_task :: u32 \<Rightarrow> 'a tasks_scheme \<Rightarrow> 'a tasks_scheme"
  current_task ts "tasks_ok ts" "\<lambda>eip. eip \<noteq> 0x12345" for ts
proof unfold_locales
  fix s :: "'a tasks_scheme" and e :: u32
  assume ok: "tasks_ok ts s" and e: "e \<noteq> 0x12345"
  then obtain i where "i < length ts" "current_task s = ts ! i"
    by (metis in_set_conv_nth tasks_ok_def)
  then show "tasks_ok ts (switch_task e s)" by (rule switch_task_keeps(1) [OF ok e])
  show "current_task (switch_task e s) = ts ! (Suc i mod length ts)"
    if "i < length ts" "current_task s = ts ! i" for i
    using that by (rule switch_task_keeps(2) [OF ok e])
next
  show "current_task s \<in> set ts" if "tasks_ok ts s" for s :: "'a tasks_scheme"
    using that by (simp add: tasks_ok_def)
qed

section \<open>Contexts\<close>

definition loaded :: "'a tasks_scheme \<Rightarrow> bool" where
  "loaded s \<longleftrightarrow> reg_esp s = task_esp (mem s) (current_task s) \<and> reg_ebp s = task_ebp (mem s) (current_task s) \<and>
     reg_eip s = task_eip (mem s) (current_task s) \<and> current_directory s = task_page_directory (mem s) (current_task s)"

lemma switch_task_loads:
  assumes "tasks_ok ts s" and "eip \<noteq> 0x12345"
  shows "loaded (switch_task eip s)"
proof -
  have "current_task s \<noteq> 0" using assms(1) by (auto simp: tasks_ok_def queue_def)
  then show ?thesis
    by (simp add: loaded_def switch_task_eq [OF _ assms(2)] Let_def set_kernel_stack_def)
qed

lemma mod_shift_neq:
  assumes "(i :: nat) < n" and "0 < d" and "d < n"
  shows "(i + d) mod n \<noteq> i"
proof (cases "i + d < n")
  case False
  then have "(i + d) mod n = i + d - n" using assms by (simp add: le_mod_geq)
  then show ?thesis using assms False by linarith
qed (use assms in simp)

lemma context_kept:
  assumes ok: "tasks_ok ts s" and i: "i < length ts" "current_task s = ts ! i" and "e \<noteq> 0x12345"
    and "list_all (\<lambda>e. e \<noteq> 0x12345) es" and "length es < length ts" and "in_region (ts ! i) 28 x"
  shows "mem (fold switch_task es (switch_task e s)) x = mem (switch_task e s) x"
  using assms(5,6)
proof (induction es rule: rev_induct)
  case (snoc e' es)
  let ?u = "fold switch_task es (switch_task e s)"
  have ok1: "tasks_ok ts (switch_task e s)" using sched.ok_step [OF ok assms(4)] .
  have u: "tasks_ok ts ?u" using sched.ok_steps [OF ok1, of es] snoc.prems(1) by simp
  let ?j = "(i + Suc (length es)) mod length ts"
  have c: "current_task ?u = ts ! ?j"
    using sched.after_steps [OF ok i, of "e # es"] snoc.prems(1) assms(4) by simp
  have j: "?j < length ts" using i(1) by (intro mod_less_divisor) linarith
  have "?j \<noteq> i" using snoc.prems(2) i(1) by (intro mod_shift_neq) simp_all
  moreover have "distinct ts" using ok by (simp add: tasks_ok_def queue_def)
  ultimately have ne: "ts ! i \<noteq> ts ! ?j" using i(1) j by (simp add: nth_eq_iff_index_eq)
  have "mem (switch_task e' ?u) x = mem ?u x"
    unfolding switch_task_keeps(3) [OF u _ j c, of e', OF snoc.prems(1) [unfolded list_all_append, THEN conjunct2, simplified]] c
    using ok i(1) j ne assms(7)
    by (intro save_context_other [of ts "ts ! i"]) (simp_all add: tasks_ok_def)
  then show ?case using snoc by simp
qed simp

lemma context_round:
  assumes ok: "tasks_ok ts s" and "e \<noteq> 0x12345" and "list_all (\<lambda>e. e \<noteq> 0x12345) es"
    and "Suc (length es) = length ts" and u: "u = fold switch_task (e # es) s"
  shows "current_task u = current_task s" and "reg_esp u = reg_esp s" and "reg_ebp u = reg_ebp s"
    and "reg_eip u = e"
proof -
  obtain i where i: "i < length ts" "current_task s = ts ! i"
    using ok by (metis in_set_conv_nth tasks_ok_def)
  show c: "current_task u = current_task s"
    using sched.full_round [OF ok, of "e # es"] assms by simp
  have "loaded u"
  proof (cases es rule: rev_cases)
    case Nil
    then show ?thesis using switch_task_loads [OF ok assms(2)] u by simp
  next
    case (snoc fs f)
    then have "tasks_ok ts (fold switch_task (e # fs) s)"
      using assms(2,3) by (intro sched.ok_steps [OF ok]) simp
    then show ?thesis using switch_task_loads [of ts _ f] snoc u assms(3) by simp
  qed
  moreover have same: "mem u x = mem (switch_task e s) x" if "in_region (current_task s) 28 x" for x
    using context_kept [OF ok i assms(2,3) _ that [unfolded i(2)]] assms(4) u by simp
  ultimately show "reg_esp u = reg_esp s" and "reg_ebp u = reg_ebp s" and "reg_eip u = e"
    using switch_task_keeps(3) [OF ok assms(2) i] task_frame [OF same]
    by (simp_all add: loaded_def c)
qed

text \<open>While the switches go on to a task further back in the queue, its structure is not touched; then it is loaded.\<close>

lemma waiting_context_kept:
  assumes ok: "tasks_ok ts s" and j: "j < length ts" "current_task s = ts ! j" and "list_all (\<lambda>e. e \<noteq> 0x12345) es"
    and i: "i < length ts" "j + length es \<le> i" and "in_region (ts ! i) 28 x"
  shows "mem (fold switch_task es s) x = mem s x"
  using assms(4) i(2)
proof (induction es rule: rev_induct)
  case (snoc e es)
  let ?u = "fold switch_task es s"
  have u: "tasks_ok ts ?u" using sched.ok_steps [OF ok, of es] snoc.prems(1) by simp
  have k: "j + length es < length ts" using snoc.prems(2) i(1) by simp
  have c: "current_task ?u = ts ! (j + length es)"
    using sched.after_steps [OF ok j, of es] snoc.prems(1) k by simp
  have "ts ! i \<noteq> ts ! (j + length es)"
    using ok snoc.prems(2) nth_eq_iff_index_eq [of ts i "j + length es"] i(1) k by (simp add: tasks_ok_def queue_def)
  moreover have e: "e \<noteq> 0x12345" using snoc.prems(1) by simp
  ultimately have "mem (switch_task e ?u) x = mem ?u x"
    unfolding switch_task_keeps(3) [OF u e k c] c using ok i(1) k assms(7)
    by (intro save_context_other [of ts "ts ! i"]) (simp_all add: tasks_ok_def)
  then show ?case using snoc by simp
qed simp

lemma waiting_task_loaded:
  assumes ok: "tasks_ok ts s" and j: "j < length ts" "current_task s = ts ! j" and es: "list_all (\<lambda>e. e \<noteq> 0x12345) es" "es \<noteq> []"
    and i: "i < length ts" "j + length es = i" and v: "v = fold switch_task es s"
  shows "current_task v = ts ! i" and "reg_esp v = task_esp (mem s) (ts ! i)" and "reg_ebp v = task_ebp (mem s) (ts ! i)"
    and "reg_eip v = task_eip (mem s) (ts ! i)" and "current_directory v = task_page_directory (mem s) (ts ! i)"
proof -
  obtain fs f where fs: "es = fs @ [f]" using es(2) by (cases es rule: rev_cases) auto
  have "tasks_ok ts (fold switch_task fs s)" using sched.ok_steps [OF ok, of fs] es(1) fs by simp
  then have "loaded v" using switch_task_loads [of ts _ f] es(1) by (simp add: v fs)
  moreover show c: "current_task v = ts ! i" using sched.after_steps [OF ok j, of es] es(1) i by (simp add: v)
  moreover have "mem v x = mem s x" if "in_region (ts ! i) 28 x" for x
    using waiting_context_kept [OF ok j es(1) i(1) _ that] i(2) by (simp add: v)
  note task_frame [OF this]
  ultimately show "reg_esp v = task_esp (mem s) (ts ! i)" and "reg_ebp v = task_ebp (mem s) (ts ! i)"
    and "reg_eip v = task_eip (mem s) (ts ! i)" and "current_directory v = task_page_directory (mem s) (ts ! i)"
    by (simp_all add: loaded_def)
qed

section \<open>Forking\<close>

lemma queue_end_last:
  assumes "queue m q ts" and "i < length ts"
  shows "queue_end m (ts ! i) = Some (last ts)"
  using assms(2)
proof (induction "length ts - i" arbitrary: i)
  case (Suc d)
  have nxt: "task_next m (ts ! i) = (if Suc i < length ts then ts ! Suc i else 0)" and z: "0 \<notin> set ts"
    using assms(1) Suc.prems by (simp_all add: queue_def)
  show ?case
  proof (cases "Suc i < length ts")
    case True
    then have "ts ! Suc i \<noteq> 0" using z nth_mem [OF True] by metis
    moreover have "queue_end m (ts ! Suc i) = Some (last ts)" using Suc True by (intro Suc.hyps(1)) simp_all
    ultimately show ?thesis using nxt True by (subst queue_end.simps) simp
  next
    case False
    then have "i = length ts - 1" using Suc.prems by simp
    then have "last ts = ts ! i" using Suc.prems by (metis last_conv_nth length_0_conv not_less_zero)
    then show ?thesis using nxt False by (subst queue_end.simps) simp
  qed
qed simp

lemma new_task_fields:
  "task_id (new_task t pid dir m) t = pid" "task_next (new_task t pid dir m) t = 0"
  "task_page_directory (new_task t pid dir m) t = dir"
  by (simp_all add: new_task_def task_defs ld32_st32_other sep_def Let_def)

lemma new_task_outside: "\<not> in_region t 28 x \<Longrightarrow> new_task t pid dir m x = m x"
proof -
  assume x: "\<not> in_region t 28 x"
  have "\<not> in_region (t + of_nat k) 4 x" if "k + 4 \<le> 28" for k
    using x task_field_region [OF that] by blast
  from this [of 0] this [of 4] this [of 8] this [of 12] this [of 16] this [of 24] show ?thesis
    by (simp add: new_task_def st32_outside Let_def)
qed

lemma apartD: "apart ts \<Longrightarrow> t \<in> set ts \<Longrightarrow> u \<in> set ts \<Longrightarrow> t \<noteq> u \<Longrightarrow> sep t 28 u 28"
  by (simp add: apart_def)

lemma next_write_outside:
  assumes "\<not> in_region l 28 x"
  shows "st32 m (l + 24) v x = m x"
proof (rule st32_outside)
  show "\<not> in_region (l + 24) 4 x" using assms task_field_region [of 24 l x] by auto
qed

lemma queue_append:
  assumes q: "queue m q ts" and ap: "apart (t # ts)" and t: "t \<noteq> 0" "t \<notin> set ts" "task_next m t = 0"
    and m': "m' = st32 m (last ts + 24) t"
  shows "queue m' q (ts @ [t])"
proof -
  have ts: "ts \<noteq> []" "distinct ts" "0 \<notin> set ts" "hd ts = q"
    and nx: "\<And>i. i < length ts \<Longrightarrow> task_next m (ts ! i) = (if Suc i < length ts then ts ! Suc i else 0)"
    using q by (simp_all add: queue_def)
  have l: "last ts \<in> set ts" "last ts = ts ! (length ts - 1)" using ts(1) by (simp_all add: last_conv_nth)
  have other: "task_next m' u = task_next m u" if "u \<in> set (t # ts)" "u \<noteq> last ts" for u
  proof (rule task_frame(7))
    fix x assume x: "in_region u 28 x"
    have "last ts \<in> set (t # ts)" using l(1) by simp
    then have "sep (last ts) 28 u 28" using apartD [OF ap] that by metis
    then have "\<not> in_region (last ts) 28 x" using x by (rule sep_not_in_region)
    then show "m' x = m x" unfolding m' by (rule next_write_outside)
  qed
  have nxt: "task_next m' (ts ! i) = (if Suc i < length ts then ts ! Suc i else t)" if i: "i < length ts" for i
  proof (cases "Suc i < length ts")
    case True
    have "i \<noteq> length ts - 1" and "length ts - 1 < length ts" using True by simp_all
    then have "ts ! i \<noteq> last ts" unfolding l(2) using nth_eq_iff_index_eq [OF ts(2) i] by blast
    moreover have "ts ! i \<in> set (t # ts)" using nth_mem [OF i] by simp
    ultimately show ?thesis using other nx [OF i] True by simp
  next
    case False
    then have "i = length ts - 1" using i by simp
    then have "ts ! i = last ts" by (simp only: l(2))
    then show ?thesis using False by (simp add: m' task_next_def)
  qed
  have "t \<noteq> last ts" using t(2) l(1) by metis
  then have "task_next m' t = 0" using other [of t] t(3) by simp
  then have "task_next m' ((ts @ [t]) ! i) = (if Suc i < length (ts @ [t]) then (ts @ [t]) ! Suc i else 0)"
    if "i < length (ts @ [t])" for i
    using nxt [of i] that by (cases "i < length ts") (simp_all add: nth_append)
  then show ?thesis using ts t(1,2) unfolding queue_def by simp
qed

lemma child_context:
  assumes "m' = st32 (st32 (st32 m (t + 4) esp) (t + 8) ebp) (t + 12) eip"
  shows "task_id m' t = task_id m t" "task_page_directory m' t = task_page_directory m t"
    "task_next m' t = task_next m t" "task_eip m' t = eip" "task_esp m' t = esp" "task_ebp m' t = ebp"
    and "\<not> in_region t 28 x \<Longrightarrow> m' x = m x"
proof -
  show "task_id m' t = task_id m t" "task_page_directory m' t = task_page_directory m t"
    "task_next m' t = task_next m t" "task_eip m' t = eip" "task_esp m' t = esp" "task_ebp m' t = ebp"
    by (simp_all add: assms task_defs ld32_st32_other sep_def)
  assume x: "\<not> in_region t 28 x"
  have "\<not> in_region (t + of_nat k) 4 x" if "k + 4 \<le> 28" for k
    using x task_field_region [OF that] by blast
  from this [of 4] this [of 8] this [of 12] show "m' x = m x" by (simp add: assms st32_outside)
qed

lemma queue_child:
  assumes "queue m q ts" and "t \<in> set ts" and "apart ts"
    and "task_next m' t = task_next m t" and "\<And>x. \<not> in_region t 28 x \<Longrightarrow> m' x = m x"
  shows "queue m' q ts"
proof (rule queue_frame [OF assms(1)])
  fix u assume u: "u \<in> set ts"
  show "task_next m' u = task_next m u"
  proof (cases "u = t")
    case False
    then have "sep t 28 u 28" using apartD [OF assms(3,2) u] by metis
    then show ?thesis by (intro task_frame(7) assms(5)) (rule sep_not_in_region)
  qed (simp add: assms(4))
qed

text \<open>Linking a new task at the end of the queue.\<close>

lemma link_child:
  assumes q: "queue m q ts" and fresh: "apart (t # ts)" "t \<noteq> 0" "t \<notin> set ts"
    and m1: "m1 = new_task t pid dir m" and m2: "m2 = st32 m1 (last ts + 24) t"
  shows "queue_end m1 q = Some (last ts)" and "queue m2 q (ts @ [t])"
    and "task_id m2 t = pid" and "task_page_directory m2 t = dir"
proof -
  have ts: "ts \<noteq> []" "hd ts = q" using q by (simp_all add: queue_def)
  have away: "sep t 28 u 28" if "u \<in> set ts" for u
    using apartD [OF fresh(1), of t u] fresh(3) that by auto
  have q1: "queue m1 q ts"
  proof (rule queue_frame [OF q])
    fix u assume u: "u \<in> set ts"
    show "task_next m1 u = task_next m u"
      unfolding m1 by (intro task_frame(7) new_task_outside) (rule sep_not_in_region [OF away [OF u]])
  qed
  have "0 < length ts" using ts(1) by simp
  from queue_end_last [OF q1 this] show "queue_end m1 q = Some (last ts)"
    using ts by (simp flip: hd_conv_nth)
  have "task_next m1 t = 0" by (simp add: m1 new_task_fields)
  then show "queue m2 q (ts @ [t])" by (rule queue_append [OF q1 fresh _ m2])
  have "m2 x = m1 x" if "in_region t 28 x" for x
    unfolding m2 using sep_not_in_region [OF sep_commute [THEN iffD1, OF away [of "last ts"]]] that ts(1)
    by (intro next_write_outside) simp
  from task_frame [OF this] show "task_id m2 t = pid" and "task_page_directory m2 t = dir"
    by (simp_all add: m1 new_task_fields)
qed

lemma fork_spec:
  assumes clone: "clone_directory (kmalloc_ap n) (current_directory s) (s\<lparr>iflag := False\<rparr>) = Inr (dir, s1)"
    and km: "kmalloc n 28 s1 = Inr (t, s2)"
    and ok: "tasks_ok ts s2" and cur: "current_task s2 = current_task s"
    and fresh: "apart (t # ts)" "t \<noteq> 0" "t \<notin> set ts"
  shows "\<exists>u. fork n eip s = Inr (next_pid s2, u) \<and> tasks_ok (ts @ [t]) u \<and>
    next_pid u = next_pid s2 + 1 \<and> current_task u = current_task s \<and> iflag u \<and>
    task_id (mem u) t = next_pid s2 \<and> task_page_directory (mem u) t = dir \<and>
    task_eip (mem u) t = eip \<and> task_esp (mem u) t = reg_esp s2 \<and> task_ebp (mem u) t = reg_ebp s2"
proof -
  define m1 where "m1 = new_task t (next_pid s2) dir (mem s2)"
  define m2 where "m2 = st32 m1 (last ts + 24) t"
  define m3 where "m3 = st32 (st32 (st32 m2 (t + 4) (reg_esp s2)) (t + 8) (reg_ebp s2)) (t + 12) eip"
  have q: "queue (mem s2) (ready_queue s2) ts" and c: "current_task s2 \<in> set ts"
    using ok by (simp_all add: tasks_ok_def)
  note link = link_child [OF q fresh m1_def m2_def]
  note ctx = child_context [OF m3_def]
  have ap: "apart (ts @ [t])" using fresh(1) by (simp add: apart_def)
  have "queue m3 (ready_queue s2) (ts @ [t])"
    by (rule queue_child [OF link(2) _ ap ctx(3,7)]) simp
  then have "tasks_ok (ts @ [t]) (s2\<lparr>next_pid := next_pid s2 + 1, mem := m3, iflag := True\<rparr>)"
    using ap c by (simp add: tasks_ok_def)
  moreover have "fork n eip s = Inr (next_pid s2, s2\<lparr>next_pid := next_pid s2 + 1, mem := m3, iflag := True\<rparr>)"
    using clone km link(1,3) cur ctx(1)
    by (simp add: fork_def fork_create_def fork_return_def Let_def sizeof_task_def m1_def [symmetric]
        m2_def [symmetric] m3_def [symmetric])
  ultimately show ?thesis using ctx link(3,4) cur by auto
qed

section \<open>Properties\<close>

definition tasks0 :: "memory \<Rightarrow> u32 \<Rightarrow> tasks" where
  "tasks0 m c = vm.extend (vm0\<lparr>mem := m\<rparr>)
     \<lparr>current_task = c, ready_queue = 0x5000, next_pid = 3, initial_esp = 0, reg_esp = 0x7000,
      reg_ebp = 0x7010, reg_eip = 0, reg_eax = 0, tick = 0\<rparr>"

definition two_tasks :: tasks where
  "two_tasks = tasks0 (st32 (\<lambda>_. 0) 0x5018 0x5100) 0x5000"

lemma two_tasks_simps [simp]:
  "mem two_tasks = st32 (\<lambda>_. 0) 0x5018 0x5100" "current_task two_tasks = 0x5000"
  "ready_queue two_tasks = 0x5000" "reg_esp two_tasks = 0x7000" "reg_ebp two_tasks = 0x7010"
  "kheap two_tasks = 0" "placement_address two_tasks = 0x200000" "next_pid two_tasks = 3"
  "kernel_directory two_tasks = 0x3000" "current_directory two_tasks = 0x3000"
  by (simp_all add: two_tasks_def tasks0_def vm.extend_def vm0_def dtables.extend_def)

lemma two_tasks_ok: "tasks_ok [0x5000, 0x5100] two_tasks"
proof -
  have "task_next (st32 (\<lambda>_. 0) 0x5018 0x5100) 0x5000 = 0x5100"
    and "task_next (st32 (\<lambda>_. 0) 0x5018 0x5100) 0x5100 = 0"
    by (simp_all add: task_next_def ld32_st32_other sep_def)
  then show ?thesis
    by (auto simp: tasks_ok_def queue_def apart_def sep_def less_Suc_eq)
qed

text \<open>
  C3. The scheduler is fair: on a well-formed ready queue every timer switch keeps the queue
  well-formed, and whatever task is running, each task of the queue is the current one after fewer
  switches than there are tasks.
\<close>
theorem scheduler_round_robin:
  assumes "tasks_ok ts s" and "t \<in> set ts"
  shows "\<exists>k < length ts. \<forall>eips. length eips = k \<longrightarrow> list_all (\<lambda>eip. eip \<noteq> 0x12345) eips \<longrightarrow>
    current_task (fold switch_task eips s) = t \<and> tasks_ok ts (fold switch_task eips s)"
  using sched.every_task_runs [OF assms] sched.ok_steps [OF assms(1)] by blast

theorem scheduler_round_robin_witness:
  "\<exists>k < 2. \<forall>eips. length eips = k \<longrightarrow> list_all (\<lambda>eip. eip \<noteq> 0x12345) eips \<longrightarrow>
    current_task (fold switch_task eips two_tasks) = 0x5100"
proof -
  have "0x5100 \<in> set [0x5000, 0x5100 :: u32]" by simp
  from scheduler_round_robin [OF two_tasks_ok this] obtain k where "k < length [0x5000, 0x5100 :: u32]"
    and k: "\<forall>eips. length eips = k \<longrightarrow> list_all (\<lambda>eip. eip \<noteq> 0x12345) eips \<longrightarrow>
      current_task (fold switch_task eips two_tasks) = 0x5100"
    by blast
  then have "k < 2" by simp
  then show ?thesis using k by blast
qed

text \<open>
  C10. Switching away and around the whole queue gives a task its context back: it is current again
  with the stack pointer and base pointer it had, and execution goes on at the instruction
  pointer that was saved.
\<close>
theorem context_survives_round:
  assumes "tasks_ok ts s" and "eip \<noteq> 0x12345" and "list_all (\<lambda>eip. eip \<noteq> 0x12345) eips"
    and "Suc (length eips) = length ts" and "u = fold switch_task (eip # eips) s"
  shows "current_task u = current_task s \<and> reg_esp u = reg_esp s \<and> reg_ebp u = reg_ebp s \<and> reg_eip u = eip"
  using context_round [OF assms] by blast

theorem context_survives_round_witness:
  "reg_esp (fold switch_task [0x100500, 0x100600] two_tasks) = 0x7000 \<and>
   reg_eip (fold switch_task [0x100500, 0x100600] two_tasks) = 0x100500"
  using context_survives_round [OF two_tasks_ok, of "0x100500" "[0x100600]"] by simp

text \<open>
  C12. When its allocations succeed, \<open>fork\<close> appends one task to the ready queue and returns its process id, the next one, in the
  parent, with interrupts back on. The timer switches reach the child after one for each task from the parent on, and then
  load the parent's stack pointers of the call, the instruction pointer \<open>read_eip\<close> gave, and the cloned directory. What
  the child then finds at these addresses is a matter of the cloned directory, which is not translated here; the pages
  that \<^verbatim>\<open>clone_table\<close> should have copied are missing from it.
\<close>
theorem fork_appends_child:
  assumes "clone_directory (kmalloc_ap n) (current_directory s) (s\<lparr>iflag := False\<rparr>) = Inr (dir, s1)"
    and "kmalloc n 28 s1 = Inr (t, s2)" and "tasks_ok ts s2" and "current_task s2 = current_task s"
    and "apart (t # ts)" and "t \<noteq> 0" and "t \<notin> set ts"
    and "j < length ts" and "current_task s = ts ! j"
    and "list_all (\<lambda>eip. eip \<noteq> 0x12345) eips" and "j + length eips = length ts"
  shows "\<exists>u. fork n eip s = Inr (next_pid s2, u) \<and> tasks_ok (ts @ [t]) u \<and>
    next_pid u = next_pid s2 + 1 \<and> current_task u = current_task s \<and> iflag u \<and> task_id (mem u) t = next_pid s2 \<and>
    (let v = fold switch_task eips u in current_task v = t \<and> reg_esp v = reg_esp s2 \<and> reg_ebp v = reg_ebp s2 \<and>
      reg_eip v = eip \<and> current_directory v = dir)"
proof -
  obtain u where u: "fork n eip s = Inr (next_pid s2, u)" "tasks_ok (ts @ [t]) u" "next_pid u = next_pid s2 + 1"
    "current_task u = current_task s" "iflag u" "task_id (mem u) t = next_pid s2" "task_page_directory (mem u) t = dir"
    "task_eip (mem u) t = eip" "task_esp (mem u) t = reg_esp s2" "task_ebp (mem u) t = reg_ebp s2"
    using fork_spec [OF assms(1-7), of eip] by blast
  have e: "eips \<noteq> []" using assms(8,11) by auto
  have "current_task u = (ts @ [t]) ! j" using u(4) assms(8,9) by (simp add: nth_append)
  from waiting_task_loaded [OF u(2) _ this assms(10) e _ assms(11) refl] assms(8,11)
  have "current_task (fold switch_task eips u) = t" "reg_esp (fold switch_task eips u) = reg_esp s2"
    "reg_ebp (fold switch_task eips u) = reg_ebp s2" "reg_eip (fold switch_task eips u) = eip"
    "current_directory (fold switch_task eips u) = dir"
    using u(7-10) by auto
  then show ?thesis using u(1-6) by (intro exI [of _ u]) (simp add: Let_def)
qed

theorem fork_appends_child_witness:
  "\<exists>t u. fork 0 0x100700 two_tasks = Inr (3, u) \<and> tasks_ok [0x5000, 0x5100, t] u \<and> next_pid u = 4
     \<and> current_task (fold switch_task [0x100500, 0x100600] u) = t \<and> reg_eip (fold switch_task [0x100500, 0x100600] u) = 0x100700"
proof -
  let ?m0 = "st32 (\<lambda>_. 0) 0x5018 0x5100" and ?s = "two_tasks\<lparr>iflag := False\<rparr>"
  let ?p = "?s\<lparr>placement_address := 0x203004\<rparr>"
  have km: "kmalloc_ap 0 8196 ?s = Inr ((0x201000, 0x201000), ?p)"
    by (simp add: kmalloc_ap_def kmalloc_int_placement placed_at_def)
  have z: "oa_elem ?m0 0x3000 i = 0" if "i < 1024" for i
  proof -
    have "sep (0x5018 :: u32) 4 0x3000 4096" by (simp add: sep_def)
    moreover have "4 * i + 4 \<le> 4096" using that by linarith
    ultimately have "sep (0x5018 :: u32) 4 (0x3000 + of_nat (4 * i)) 4" by (rule sep_sub) simp_all
    then show ?thesis by (simp add: oa_elem_def ld32_st32_other)
  qed
  have "\<exists>m. clone_directory (kmalloc_ap 0) 0x3000 ?s = Inr (0x201000, ?p\<lparr>mem := m\<rparr>) \<and>
      cloned_upto 1024 0x3000 0x201000 (0x201000 + 4096) (mem ?p) m"
    using clone_directory_shared [of "kmalloc_ap 0" ?s "0x201000" "0x201000" ?p "0x3000"] km z by (auto simp: sep_def)
  then obtain m where m: "clone_directory (kmalloc_ap 0) 0x3000 ?s = Inr (0x201000, ?p\<lparr>mem := m\<rparr>)"
    and out: "\<forall>x. in_region 0x201000 8196 x \<or> m x = ?m0 x"
    by (auto simp: cloned_upto_def)
  let ?s2 = "?p\<lparr>mem := m, placement_address := 0x203020\<rparr>"
  have "kmalloc 0 28 (?p\<lparr>mem := m\<rparr>) = Inr (0x203004, ?s2)"
    by (simp add: kmalloc_def kmalloc_int_placement placed_at_def)
  moreover have "tasks_ok [0x5000, 0x5100] ?s2"
  proof -
    have "queue m 0x5000 [0x5000, 0x5100]"
    proof (rule queue_frame [of ?m0])
      show "queue ?m0 0x5000 [0x5000, 0x5100]" using two_tasks_ok by (simp add: tasks_ok_def)
      fix t :: u32 assume "t \<in> set [0x5000, 0x5100]"
      then have "sep 0x201000 8196 t 28" by (auto simp: sep_def)
      then show "task_next m t = task_next ?m0 t"
        using out by (intro task_frame(7)) (metis sep_not_in_region)
    qed
    then show ?thesis using two_tasks_ok by (simp add: tasks_ok_def)
  qed
  ultimately show ?thesis
    using fork_appends_child [of 0 two_tasks "0x201000" "?p\<lparr>mem := m\<rparr>" "0x203004" ?s2 "[0x5000, 0x5100]" 0 "[0x100500, 0x100600]"
        "0x100700"] m
    by (auto simp: apart_def sep_def Let_def)
qed

text \<open>
  \<open>switch_to_user_mode\<close> reaches ring 3 with the user selectors (but the old es), on the stack it was called on and
  at the label behind the \<^verbatim>\<open>iret\<close>, with the kernel stack of the current task in the TSS; but the
  interrupt flag is off there, whatever the flags were, because they are pushed after \<^verbatim>\<open>cli\<close>.
\<close>
theorem user_mode_without_interrupts:
  "seg_cs (switch_to_user_mode eflags resume s) = 0x1B \<and> seg_ss (switch_to_user_mode eflags resume s) = 0x23 \<and>
   seg_ds (switch_to_user_mode eflags resume s) = 0x23 \<and> seg_es (switch_to_user_mode eflags resume s) = seg_es s \<and>
   reg_esp (switch_to_user_mode eflags resume s) = reg_esp s \<and>
   reg_eip (switch_to_user_mode eflags resume s) = resume \<and>
   t_esp0 (tss_entry (switch_to_user_mode eflags resume s))
     = task_kernel_stack (mem s) (current_task s) + KERNEL_STACK_SIZE \<and>
   iflag (switch_to_user_mode eflags resume s) = False"
  by (simp add: switch_to_user_mode_def set_kernel_stack_def Let_def ld32_st32_other sep_def bit_simps)

text \<open>
  For a frequency of at least 19 Hz \<open>init_timer\<close> registers the callback on IRQ 0, selects channel 0
  in mode 3 and sends the divisor low byte first; the two bytes are the whole divisor.
\<close>
theorem timer_programs_divisor:
  assumes "19 \<le> unat frequency"
  shows "\<exists>lower upper. init_timer frequency s = Inr (0, s\<lparr>interrupt_handlers :=
      (interrupt_handlers s)(32 := Some Timer_callback),
      outs := (0x40, upper) # (0x40, lower) # (0x43, 0x36) # outs s\<rparr>) \<and>
    unat lower + 256 * unat upper = 1193180 div unat frequency"
proof -
  let ?d = "1193180 div frequency"
  have d: "unat ?d = 1193180 div unat frequency" by (simp add: unat_div_distrib)
  have "1193180 div unat frequency \<le> 1193180 div 19" using assms by (rule div_le_mono2 [rotated]) simp
  then have small: "unat ?d < 65536" using d by simp
  have byte: "unat (ucast (y AND 0xFF) :: u8) = unat y mod 256" for y :: u32
    by (simp add: unsigned_ucast_eq mask_numerals(2) unat_mod_distrib take_bit_eq_mod flip: take_bit_eq_mask)
  let ?l = "ucast (?d AND 0xFF) :: u8" and ?u = "ucast (drop_bit 8 ?d AND 0xFF) :: u8"
  have "unat ?u = unat ?d div 256 mod 256"
    unfolding byte by (simp add: drop_bit_eq_div unat_div_distrib)
  then have "unat ?l + 256 * unat ?u = unat ?d"
    using small byte [of ?d] by (simp add: div_less_dividend less_mult_imp_div_less)
  moreover have "frequency \<noteq> 0" using assms by auto
  ultimately show ?thesis
    using d by (intro exI [of _ ?l] exI [of _ ?u])
      (simp add: init_timer_def register_interrupt_handler_def outb_def Let_def)
qed

theorem timer_programs_divisor_witness:
  "\<exists>lower upper. init_timer 50 two_tasks = Inr (0, two_tasks\<lparr>interrupt_handlers :=
      (interrupt_handlers two_tasks)(32 := Some Timer_callback),
      outs := (0x40, upper) # (0x40, lower) # (0x43, 0x36) # outs two_tasks\<rparr>) \<and>
    unat lower + 256 * unat upper = 23863"
  using timer_programs_divisor [of 50 two_tasks] by simp

end
