(* ===== verification/Initrd.thy ===== *)
theory Initrd
  imports Task
begin

text \<open>
  The file system layer, sys/fs.c, and its only implementation, the initial ramdisk of
  sys/initrd.c. An \<^verbatim>\<open>fs_node_t\<close> is 184 bytes of the raw memory (name 0, mask 128, uid 132, gid 136,
  flags 140, inode 144, length 148, impl 152, read 156, write 160, open 164, close 168, readdir
  172, finddir 176, ptr 180), an \<^verbatim>\<open>initrd_file_header_t\<close> 76 bytes (magic 0, name 1, offset 68,
  length 72), a \<^verbatim>\<open>struct dirent\<close> 132 bytes (name 0, ino 128). Function pointers are addresses;
  \<open>image\<close> holds the addresses of the callbacks, of the static \<^verbatim>\<open>dirent\<close> and of the string literals.
  A call through a pointer that is not one of the callbacks is undefined.

  The main results: reading returns exactly the bytes of the file, clamped to its length, unless
  \<^verbatim>\<open>offset + size\<close> wraps; a lookup finds the first node with the name.
\<close>

section \<open>State and layout\<close>

record fs = tasks +
  fs_root :: u32
  initrd_header :: u32
  file_headers :: u32
  initrd_root :: u32
  initrd_dev :: u32
  root_nodes :: u32
  nroot_nodes :: u32

record image =
  fn_initrd_read :: u32
  fn_initrd_readdir :: u32
  fn_initrd_finddir :: u32
  dirent_addr :: u32
  str_dev :: u32
  str_initrd :: u32

definition FS_FILE :: u32 where "FS_FILE = 0x01"
definition FS_DIRECTORY :: u32 where "FS_DIRECTORY = 0x02"

definition sizeof_fs_node :: u32 where "sizeof_fs_node = 184"
definition sizeof_file_header :: u32 where "sizeof_file_header = 76"
definition sizeof_initrd_header :: u32 where "sizeof_initrd_header = 4"

definition node_flags :: "memory \<Rightarrow> u32 \<Rightarrow> u32" where "node_flags m n = ld32 m (n + 140)"
definition node_inode :: "memory \<Rightarrow> u32 \<Rightarrow> u32" where "node_inode m n = ld32 m (n + 144)"
definition node_length :: "memory \<Rightarrow> u32 \<Rightarrow> u32" where "node_length m n = ld32 m (n + 148)"
definition node_read :: "memory \<Rightarrow> u32 \<Rightarrow> u32" where "node_read m n = ld32 m (n + 156)"
definition node_write :: "memory \<Rightarrow> u32 \<Rightarrow> u32" where "node_write m n = ld32 m (n + 160)"
definition node_open :: "memory \<Rightarrow> u32 \<Rightarrow> u32" where "node_open m n = ld32 m (n + 164)"
definition node_close :: "memory \<Rightarrow> u32 \<Rightarrow> u32" where "node_close m n = ld32 m (n + 168)"
definition node_readdir :: "memory \<Rightarrow> u32 \<Rightarrow> u32" where "node_readdir m n = ld32 m (n + 172)"
definition node_finddir :: "memory \<Rightarrow> u32 \<Rightarrow> u32" where "node_finddir m n = ld32 m (n + 176)"

definition file_header :: "'a fs_scheme \<Rightarrow> u32 \<Rightarrow> u32" where
  "file_header s i = file_headers s + sizeof_file_header * i"

definition header_offset :: "memory \<Rightarrow> u32 \<Rightarrow> u32" where "header_offset m h = ld32 m (h + 68)"
definition header_length :: "memory \<Rightarrow> u32 \<Rightarrow> u32" where "header_length m h = ld32 m (h + 72)"

text \<open>The \<open>i\<close>-th element of the array \<^verbatim>\<open>root_nodes\<close>.\<close>

definition root_node :: "'a fs_scheme \<Rightarrow> u32 \<Rightarrow> u32" where
  "root_node s i = root_nodes s + sizeof_fs_node * i"

section \<open>The ramdisk\<close>

definition initrd_read :: "u32 \<Rightarrow> u32 \<Rightarrow> u32 \<Rightarrow> u32 \<Rightarrow> 'a fs_scheme \<Rightarrow> u32 \<times> 'a fs_scheme" where
  "initrd_read node offset sz buffer s =
     (let header = file_header s (node_inode (mem s) node);
          len = header_length (mem s) header;
          off = header_offset (mem s) header
      in if len < offset then (0, s)
         else
           (let sz = (if len < offset + sz then len - offset else sz)
            in (sz, s\<lparr>mem := memcpy (mem s) buffer (off + offset) sz\<rparr>)))"

definition initrd_readdir ::
  "image \<Rightarrow> u32 \<Rightarrow> u32 \<Rightarrow> 'a fs_scheme \<Rightarrow> ('a fs_scheme, u32 \<times> 'a fs_scheme) result" where
  "initrd_readdir im node index s =
     (if node = initrd_root s \<and> index = 0 then
        bind_res (ends (strcpy (mem s) (dirent_addr im) (str_dev im))) (\<lambda>m.
          let m = m(dirent_addr im + 3 := 0);
              m = st32 m (dirent_addr im + 128) 0
          in Inr (dirent_addr im, s\<lparr>mem := m\<rparr>))
      else if nroot_nodes s \<le> index - 1 then Inr (0, s)
      else
        (let name = root_node s (index - 1) in
         bind_res (ends (strcpy (mem s) (dirent_addr im) name)) (\<lambda>m.
         bind_res (ends (strlen m name)) (\<lambda>n.
           let m = m(dirent_addr im + n := 0);
               m = st32 m (dirent_addr im + 128) (node_inode m (root_node s (index - 1)))
           in Inr (dirent_addr im, s\<lparr>mem := m\<rparr>)))))"

fun finddir_loop :: "nat list \<Rightarrow> u32 \<Rightarrow> 'a fs_scheme \<Rightarrow> ('a fs_scheme, u32) result" where
  "finddir_loop [] name s = Inr 0"
| "finddir_loop (i # is) name s =
     bind_res (ends (strcmp (mem s) name (root_node s (of_nat i)))) (\<lambda>r.
       if r = 0 then Inr (root_node s (of_nat i)) else finddir_loop is name s)"

definition initrd_finddir :: "image \<Rightarrow> u32 \<Rightarrow> u32 \<Rightarrow> 'a fs_scheme \<Rightarrow> ('a fs_scheme, u32) result" where
  "initrd_finddir im node name s =
     bind_res (if node = initrd_root s then map_sum id (\<lambda>r. r = 0) (ends (strcmp (mem s) name (str_dev im)))
               else Inr False) (\<lambda>is_dev.
       if is_dev then Inr (initrd_dev s)
       else finddir_loop [0..<nat (sint (nroot_nodes s))] name s)"

text \<open>The fields of a directory node; the name is the literal at \<open>name\<close>.\<close>

definition dir_node :: "image \<Rightarrow> u32 \<Rightarrow> u32 \<Rightarrow> memory \<Rightarrow> memory option" where
  "dir_node im node name m = map_option (\<lambda>m.
     let m = fold (\<lambda>k m. st32 m (node + k) 0) [148, 144, 136, 132, 128] m;
         m = st32 m (node + 140) FS_DIRECTORY;
         m = fold (\<lambda>k m. st32 m (node + k) 0) [156, 160, 164, 168] m;
         m = st32 m (node + 172) (fn_initrd_readdir im);
         m = st32 m (node + 176) (fn_initrd_finddir im)
     in fold (\<lambda>k m. st32 m (node + k) 0) [180, 152] m) (strcpy m node name)"

text \<open>One round of the loop that makes the file nodes; \<open>ptr\<close> is not set.\<close>

definition file_node :: "image \<Rightarrow> u32 \<Rightarrow> u32 \<Rightarrow> 'a fs_scheme \<Rightarrow> ('a fs_scheme, 'a fs_scheme) result" where
  "file_node im location i s =
     (let header = file_header s i;
          node = root_node s i;
          m = st32 (mem s) (header + 68) (header_offset (mem s) header + location)
      in bind_res (ends (strcpy m node (header + 1))) (\<lambda>m.
           let m = fold (\<lambda>k m. st32 m (node + k) 0) [136, 132, 128] m;
               m = st32 m (node + 148) (header_length m header);
               m = st32 m (node + 144) i;
               m = st32 m (node + 140) FS_FILE;
               m = st32 m (node + 156) (fn_initrd_read im);
               m = fold (\<lambda>k m. st32 m (node + k) 0) [160, 172, 176, 164, 168, 152] m
           in Inr (s\<lparr>mem := m\<rparr>)))"

text \<open>
  The loop over the files reads \<^verbatim>\<open>nfiles\<close> anew in every round; the counter has 32 bits, so
  \<open>2 ^ 32\<close> rounds are as many as there can be.
\<close>

fun file_nodes_loop ::
  "nat \<Rightarrow> image \<Rightarrow> u32 \<Rightarrow> u32 \<Rightarrow> 'a fs_scheme \<Rightarrow> ('a fs_scheme, 'a fs_scheme) result" where
  "file_nodes_loop 0 im location counter s = Inl Out_of_fuel"
| "file_nodes_loop (Suc n) im location counter s =
     (if counter < ld32 (mem s) (initrd_header s)
      then bind_res (file_node im location counter s) (file_nodes_loop n im location (counter + 1))
      else Inr s)"

definition initialise_initrd ::
  "nat \<Rightarrow> image \<Rightarrow> u32 \<Rightarrow> 'a fs_scheme \<Rightarrow> ('a fs_scheme, u32 \<times> 'a fs_scheme) result" where
  "initialise_initrd n im location s =
     (let s = s\<lparr>initrd_header := location, file_headers := location + sizeof_initrd_header\<rparr> in
      bind_res (kmalloc n sizeof_fs_node s) (\<lambda>(a, s).
      let s = s\<lparr>initrd_root := a\<rparr> in
      bind_res (ends (dir_node im (initrd_root s) (str_initrd im) (mem s))) (\<lambda>m.
      let s = s\<lparr>mem := m\<rparr> in
      bind_res (kmalloc n sizeof_fs_node s) (\<lambda>(a, s).
      let s = s\<lparr>initrd_dev := a\<rparr> in
      bind_res (ends (dir_node im (initrd_dev s) (str_dev im) (mem s))) (\<lambda>m.
      let s = s\<lparr>mem := m\<rparr> in
      bind_res (kmalloc n (sizeof_fs_node * ld32 (mem s) (initrd_header s)) s) (\<lambda>(a, s).
      let s = s\<lparr>root_nodes := a, nroot_nodes := ld32 (mem s) (initrd_header s)\<rparr> in
      bind_res (file_nodes_loop (Suc (2 ^ 32)) im location 0 s) (\<lambda>s. Inr (initrd_root s, s))))))))"

section \<open>The file system layer\<close>

definition read_fs ::
  "image \<Rightarrow> u32 \<Rightarrow> u32 \<Rightarrow> u32 \<Rightarrow> u32 \<Rightarrow> 'a fs_scheme \<Rightarrow> ('a fs_scheme, u32 \<times> 'a fs_scheme) result" where
  "read_fs im node offset sz buffer s =
     (if node_read (mem s) node \<noteq> 0 then
        if node_read (mem s) node = fn_initrd_read im then Inr (initrd_read node offset sz buffer s)
        else Inl (Undefined ''read callback'')
      else Inr (0, s))"

text \<open>No callback for writing, opening or closing exists in the sources.\<close>

definition write_fs ::
  "u32 \<Rightarrow> u32 \<Rightarrow> u32 \<Rightarrow> u32 \<Rightarrow> 'a fs_scheme \<Rightarrow> ('a fs_scheme, u32 \<times> 'a fs_scheme) result" where
  "write_fs node offset sz buffer s =
     (if node_write (mem s) node \<noteq> 0 then Inl (Undefined ''write callback'') else Inr (0, s))"

definition open_fs :: "u32 \<Rightarrow> u8 \<Rightarrow> u8 \<Rightarrow> 'a fs_scheme \<Rightarrow> ('a fs_scheme, 'a fs_scheme) result" where
  "open_fs node rd wr s = (if node_open (mem s) node \<noteq> 0 then Inl (Undefined ''open callback'') else Inr s)"

definition close_fs :: "u32 \<Rightarrow> 'a fs_scheme \<Rightarrow> ('a fs_scheme, 'a fs_scheme) result" where
  "close_fs node s = (if node_close (mem s) node \<noteq> 0 then Inl (Undefined ''close callback'') else Inr s)"

definition readdir_fs ::
  "image \<Rightarrow> u32 \<Rightarrow> u32 \<Rightarrow> 'a fs_scheme \<Rightarrow> ('a fs_scheme, u32 \<times> 'a fs_scheme) result" where
  "readdir_fs im node index s =
     (if node_flags (mem s) node AND 0x7 = FS_DIRECTORY \<and> node_readdir (mem s) node \<noteq> 0 then
        if node_readdir (mem s) node = fn_initrd_readdir im then initrd_readdir im node index s
        else Inl (Undefined ''readdir callback'')
      else Inr (0, s))"

definition finddir_fs :: "image \<Rightarrow> u32 \<Rightarrow> u32 \<Rightarrow> 'a fs_scheme \<Rightarrow> ('a fs_scheme, u32) result" where
  "finddir_fs im node name s =
     (if node_flags (mem s) node AND 0x7 = FS_DIRECTORY \<and> node_finddir (mem s) node \<noteq> 0 then
        if node_finddir (mem s) node = fn_initrd_finddir im then initrd_finddir im node name s
        else Inl (Undefined ''finddir callback'')
      else Inr 0)"

section \<open>Nodes\<close>

lemmas node_defs = node_flags_def node_inode_def node_length_def node_read_def node_write_def
  node_open_def node_close_def node_readdir_def node_finddir_def

lemma node_word_outside:
  assumes "\<not> in_region node 184 x" and "unat k + 4 \<le> 184"
  shows "st32 m (node + k) v x = m x"
  using in_region_offset [of node "unat k" 4 x 184] assms by (intro st32_outside) auto

text \<open>A word store leaves the bytes in front of it alone.\<close>

lemma st32_behind:
  assumes "j < unat k" and "unat k + 4 \<le> 4294967296 + j"
  shows "st32 m (a + k) v (a + of_nat j) = m (a + of_nat j)"
proof (rule st32_outside)
  have "j < 4294967296" using assms(1) unat_lt_u32 [of k] by linarith
  then have "unat (of_nat j - k) = 4294967296 + j - unat k"
    using assms unat_sub_wrap32 [of "of_nat j" k] by (simp add: unat_of_nat_small)
  then show "\<not> in_region (a + k) 4 (a + of_nat j)"
    using assms by (simp add: in_region_def algebra_simps)
qed

definition file_node_at :: "image \<Rightarrow> memory \<Rightarrow> u32 \<Rightarrow> u32 \<Rightarrow> u32 \<Rightarrow> bool" where
  "file_node_at im m node i len \<longleftrightarrow> node_flags m node = FS_FILE \<and> node_inode m node = i
     \<and> node_length m node = len \<and> node_read m node = fn_initrd_read im \<and> node_write m node = 0
     \<and> node_open m node = 0 \<and> node_close m node = 0 \<and> node_readdir m node = 0 \<and> node_finddir m node = 0"

lemma file_node_at_frame:
  assumes "file_node_at im m node i len" and "\<And>x. in_region node 184 x \<Longrightarrow> m' x = m x"
  shows "file_node_at im m' node i len"
proof -
  have "ld32 m' (node + k) = ld32 m (node + k)" if "unat k + 4 \<le> 184" for k
    using in_region_offset [of node "unat k" 4 _ 184] that by (intro ld32_frame assms(2)) simp
  then show ?thesis using assms(1) by (simp add: file_node_at_def node_defs)
qed

lemma header_outside_node:
  assumes "sep h 76 nd 184" and "in_region (h + of_nat k) n x" and "k + n \<le> 76"
  shows "\<not> in_region nd 184 x"
proof -
  have "in_region h 76 x" using assms(2,3) by (intro in_region_offset [of h k n x]) auto
  then show ?thesis using sep_not_in_region [of nd 184 h 76 x] assms(1) by (simp add: sep_commute)
qed

text \<open>The name is copied after the offset of the header has been changed; the node holds it without a terminator.\<close>

lemma file_name_copied:
  assumes name: "cstr m (h + 1) nm" "nm \<noteq> []" "length nm < 64" and away: "sep h 76 nd 184"
  shows "strcpy (st32 m (h + 68) v) nd (h + 1) = Some (\<lambda>x.
    if in_region nd (length nm) x then nm ! unat (x - nd) else st32 m (h + 68) v x)"
proof -
  have "cstr (st32 m (h + 68) v) (h + 1) nm"
  proof (rule cstr_frame [OF name(1)])
    fix x assume "in_region (h + 1) (Suc (length nm)) x"
    then obtain k where "k < Suc (length nm)" "x = h + of_nat (Suc k)"
      by (auto elim!: in_regionE simp: add.assoc)
    then show "st32 m (h + 68) v x = m x" using name(3) st32_behind [of "Suc k" 68] by simp
  qed (use name(3) in simp)
  moreover have "Suc (length nm) \<le> unat (nd - (h + 1))"
  proof -
    have "76 \<le> unat (nd - h)" using away by (simp add: sep_def)
    then have "unat (nd - (h + 1)) = unat (nd - h) - 1"
      using unat_sub_lem32 [of 1 "nd - h"] by (simp add: diff_diff_eq)
    with \<open>76 \<le> unat (nd - h)\<close> show ?thesis using name(3) by simp
  qed
  ultimately show ?thesis
    using strcpy_cstr [of _ "h + 1" _ _ nd] name(2) by (cases nm) blast+
qed

text \<open>The words of a file node, as the loop stores them behind the name.\<close>

definition put_file_node :: "image \<Rightarrow> u32 \<Rightarrow> u32 \<Rightarrow> u32 \<Rightarrow> memory \<Rightarrow> memory" where
  "put_file_node im nd i h m = (let m = fold (\<lambda>k m. st32 m (nd + k) 0) [136, 132, 128] m
     in fold (\<lambda>k m. st32 m (nd + k) 0) [160, 172, 176, 164, 168, 152]
       (st32 (st32 (st32 (st32 m (nd + 148) (header_length m h)) (nd + 144) i) (nd + 140) FS_FILE)
         (nd + 156) (fn_initrd_read im)))"

lemma put_file_node_outside: "\<not> in_region nd 184 x \<Longrightarrow> put_file_node im nd i h m x = m x"
  by (simp add: put_file_node_def Let_def node_word_outside)

lemma put_file_node_low: "k < 64 \<Longrightarrow> put_file_node im nd i h m (nd + of_nat k) = m (nd + of_nat k)"
  by (simp add: put_file_node_def Let_def st32_behind)

lemma put_file_node_header:
  assumes "sep h 76 nd 184" and "k + 4 \<le> 76"
  shows "ld32 (put_file_node im nd i h m) (h + of_nat k) = ld32 m (h + of_nat k)"
  using header_outside_node [OF assms(1), of k 4] assms(2)
  by (intro ld32_frame put_file_node_outside) blast

lemma put_file_node_at:
  assumes "sep h 76 nd 184"
  shows "file_node_at im (put_file_node im nd i h m) nd i (header_length m h)"
proof -
  let ?m = "fold (\<lambda>k m. st32 m (nd + k) 0) [136, 132, 128] m"
  have "ld32 ?m (h + 72) = ld32 m (h + 72)"
    using header_outside_node [OF assms, of 72 4] by (intro ld32_frame) (simp add: node_word_outside)
  then show ?thesis
    by (simp add: put_file_node_def Let_def file_node_at_def node_defs header_length_def ld32_st32_other sep_def)
qed

text \<open>
  One round of the loop: the node of the file is filled in, its header now has the absolute
  offset, and nothing else changes.
\<close>

lemma file_node_result:
  fixes s :: "'a fs_scheme" and i :: u32
  defines "h \<equiv> file_header s i" and "nd \<equiv> root_node s i"
  assumes name: "cstr (mem s) (h + 1) nm" "nm \<noteq> []" "length nm < 64"
    and away: "sep h 76 nd 184"
  shows "\<exists>m. file_node im location i s = Inr (s\<lparr>mem := m\<rparr>)
    \<and> file_node_at im m nd i (header_length (mem s) h)
    \<and> header_offset m h = header_offset (mem s) h + location
    \<and> (\<forall>k < length nm. m (nd + of_nat k) = nm ! k)
    \<and> m (nd + of_nat (length nm)) = mem s (nd + of_nat (length nm))
    \<and> (\<forall>x. \<not> in_region nd 184 x \<longrightarrow> \<not> in_region (h + 68) 4 x \<longrightarrow> m x = mem s x)"
proof -
  define m1 where "m1 = st32 (mem s) (h + 68) (header_offset (mem s) h + location)"
  define m2 where "m2 = (\<lambda>x. if in_region nd (length nm) x then nm ! unat (x - nd) else m1 x)"
  define m where "m = put_file_node im nd i h m2"
  have "strcpy m1 nd (h + 1) = Some m2"
    unfolding m2_def unfolding m1_def by (rule file_name_copied [OF name away])
  then have run: "file_node im location i s = Inr (s\<lparr>mem := m\<rparr>)"
    by (simp add: file_node_def put_file_node_def Let_def h_def [symmetric] nd_def [symmetric] m1_def m_def ends_def)
  have m2_out: "m2 x = m1 x" if "\<not> in_region nd 184 x" for x
    using that name(3) by (simp add: m2_def in_region_def)
  have word: "ld32 m2 (h + of_nat k) = ld32 m1 (h + of_nat k)" if "k + 4 \<le> 76" for k
    using header_outside_node [OF away, of k 4] that by (intro ld32_frame m2_out) blast
  have len: "header_length m2 h = header_length (mem s) h"
    using word [of 72] by (simp add: m1_def header_length_def ld32_st32_other sep_def)
  have off: "header_offset m h = header_offset (mem s) h + location"
    using word [of 68] put_file_node_header [OF away, of 68 im i m2] by (simp add: header_offset_def m_def m1_def)
  have low: "m (nd + of_nat k) = (if k < length nm then nm ! k else mem s (nd + of_nat k))" if k: "k < 64" for k
  proof -
    have "\<not> in_region (h + 68) 4 (nd + of_nat k)"
      using header_outside_node [OF away, of 68 4 "nd + of_nat k"] in_region_of_nat [of k 184 nd] k by auto
    then show ?thesis
      using k by (simp add: m_def put_file_node_low m2_def m1_def in_region_def [of nd] unat_of_nat_small st32_outside)
  qed
  have "m x = mem s x" if "\<not> in_region nd 184 x" "\<not> in_region (h + 68) 4 x" for x
    using that m2_out by (simp add: m_def put_file_node_outside m1_def st32_outside)
  then show ?thesis using run put_file_node_at [OF away, of im i m2] off low name(3) by (auto simp: len m_def)
qed

section \<open>Lookup and reading\<close>

lemma finddir_loop_first:
  assumes "cstr (mem s) name nm"
    and "\<And>i. i \<in> set is \<Longrightarrow> cstr (mem s) (root_node s (of_nat i)) (names i)"
  shows "finddir_loop is name s =
    Inr (case find (\<lambda>i. names i = nm) is of None \<Rightarrow> 0 | Some i \<Rightarrow> root_node s (of_nat i))"
  using assms(2)
proof (induction "is")
  case (Cons i "is")
  have "strcmp (mem s) name (root_node s (of_nat i)) = Some (if nm = names i then 0 else 1)"
    using strcmp_loop_cstr [of "mem s" name 0 nm "root_node s (of_nat i)" "names i"] assms(1) Cons.prems [of i]
    by (auto simp: strcmp_def)
  then show ?case using Cons by (auto simp: ends_def)
qed simp

text \<open>The number of bytes a read gives: never past the end of the file.\<close>

definition readable :: "u32 \<Rightarrow> u32 \<Rightarrow> u32 \<Rightarrow> nat" where
  "readable len offset sz = min (unat sz) (unat len - unat offset)"

lemma initrd_read_result:
  fixes s :: "'a fs_scheme" and node :: u32
  defines "h \<equiv> file_header s (node_inode (mem s) node)"
  defines "src \<equiv> header_offset (mem s) h"
  assumes "unat offset + unat sz < 4294967296"
    and "readable (header_length (mem s) h) offset sz \<le> unat (buffer - (src + offset))"
  shows "initrd_read node offset sz buffer s =
    (of_nat (readable (header_length (mem s) h) offset sz),
     s\<lparr>mem := \<lambda>x. if in_region buffer (readable (header_length (mem s) h) offset sz) x
        then mem s (src + offset + (x - buffer)) else mem s x\<rparr>)"
proof (cases "header_length (mem s) h < offset")
  case True
  then have "readable (header_length (mem s) h) offset sz = 0"
    by (simp add: readable_def word_less_nat_alt)
  then show ?thesis using True by (simp add: initrd_read_def Let_def h_def [symmetric])
next
  case False
  let ?len = "header_length (mem s) h"
  let ?sz = "if ?len < offset + sz then ?len - offset else sz"
  have le: "unat offset \<le> unat ?len" using False by (simp add: word_less_nat_alt)
  have "unat ?sz = readable ?len offset sz"
    using unat_add_lem32 [OF assms(3)] unat_sub_lem32 [OF le]
    by (auto simp: readable_def word_less_nat_alt)
  moreover have "?sz = of_nat (unat ?sz)" by simp
  ultimately show ?thesis
    using False assms(4) memcpy_eq [of ?sz buffer "src + offset" "mem s"]
    by (simp add: initrd_read_def Let_def h_def [symmetric] src_def [symmetric])
qed

section \<open>Properties\<close>

text \<open>
  C21. A read through the file system layer, when the offset plus the size do not wrap, stores exactly the bytes
  of the file from the offset on in the buffer, no more than requested and none beyond the end of the file,
  returns their number and changes nothing else; past the end it returns 0.
\<close>
theorem read_fs_clamps:
  assumes "node_read (mem s) node = fn_initrd_read im" and "fn_initrd_read im \<noteq> 0"
    and "h = file_header s (node_inode (mem s) node)"
    and "n = readable (header_length (mem s) h) offset sz"
    and "unat offset + unat sz < 4294967296"
    and "n \<le> unat (buffer - (header_offset (mem s) h + offset))"
  shows "read_fs im node offset sz buffer s = Inr (of_nat n,
    s\<lparr>mem := \<lambda>x. if in_region buffer n x
       then mem s (header_offset (mem s) h + offset + (x - buffer)) else mem s x\<rparr>)"
  using assms(1,2) initrd_read_result [of offset sz s node buffer] assms(5,6)
  unfolding read_fs_def assms(4) assms(3) by presburger

definition image0 :: image where
  "image0 = \<lparr>fn_initrd_read = 0x100100, fn_initrd_readdir = 0x100200, fn_initrd_finddir = 0x100300,
     dirent_addr = 0x9000, str_dev = 0x9100, str_initrd = 0x9110\<rparr>"

definition fs0 :: "memory \<Rightarrow> u32 \<Rightarrow> fs" where
  "fs0 m n = tasks.extend (two_tasks\<lparr>mem := m\<rparr>)
     \<lparr>fs_root = 0x6000, initrd_header = 0x10000, file_headers = 0x10004, initrd_root = 0x6000,
      initrd_dev = 0x6100, root_nodes = 0x8000, nroot_nodes = n\<rparr>"

lemma fs0_simps [simp]:
  "mem (fs0 m n) = m" "initrd_header (fs0 m n) = 0x10000" "file_headers (fs0 m n) = 0x10004"
  "initrd_root (fs0 m n) = 0x6000" "root_nodes (fs0 m n) = 0x8000" "nroot_nodes (fs0 m n) = n"
  "initrd_dev (fs0 m n) = 0x6100"
  by (simp_all add: fs0_def tasks.extend_def)

lemma image0_simps [simp]:
  "fn_initrd_read image0 = 0x100100" "str_dev image0 = 0x9100"
  by (simp_all add: image0_def)

definition one_file :: memory where
  "one_file = st32 (st32 (st32 (\<lambda>_. 0) 0x809C 0x100100) 0x10048 0x11304) 0x1004C 5"

lemma one_file_fields:
  "node_inode one_file 0x8000 = 0" "node_read one_file 0x8000 = 0x100100"
  "header_length one_file 0x10004 = 5" "header_offset one_file 0x10004 = 0x11304"
  by (simp_all add: one_file_def node_defs header_length_def header_offset_def ld32_st32_other sep_def)

theorem read_fs_clamps_witness:
  "\<exists>s. read_fs image0 0x8000 1 100 0x20000 (fs0 one_file 1) = Inr (4, s)"
proof -
  have "read_fs image0 0x8000 1 100 0x20000 (fs0 one_file 1) = Inr (of_nat 4, (fs0 one_file 1)\<lparr>mem :=
      \<lambda>x. if in_region 0x20000 4 x then mem (fs0 one_file 1)
        (header_offset (mem (fs0 one_file 1)) 0x10004 + 1 + (x - 0x20000)) else mem (fs0 one_file 1) x\<rparr>)"
    by (rule read_fs_clamps) (simp_all add: one_file_fields file_header_def readable_def)
  then show ?thesis by (auto simp only: of_nat_numeral)
qed

text \<open>
  When the offset plus the size wrap, the clamp is missed: a read of \<open>2 ^ 32 - offset\<close> bytes from a valid
  offset is granted in full, far beyond the end of the file.
\<close>
theorem initrd_read_overruns:
  assumes "len = header_length (mem s) (file_header s (node_inode (mem s) node))"
    and "0 < offset" and "offset \<le> len"
  shows "fst (initrd_read node offset (- offset) buffer s) = - offset \<and> len - offset < - offset"
proof -
  have "unat (- offset) = 4294967296 - unat offset"
    using assms(2) unat_sub_wrap32 [of 0 offset] by (simp add: word_less_nat_alt)
  moreover have "unat (len - offset) = unat len - unat offset"
    using assms(3) by (simp add: unat_sub_lem32 word_le_nat_alt)
  ultimately have "len - offset < - offset"
    using assms(3) unat_lt_u32 [of len] unfolding word_less_nat_alt word_le_nat_alt by linarith
  then show ?thesis using assms leD [OF assms(3)] by (simp add: initrd_read_def Let_def)
qed

theorem initrd_read_overruns_witness:
  "fst (initrd_read 0x8000 1 (- 1) 0x20000 (fs0 (st32 (\<lambda>_. 0) 0x1004C 5) 1)) = - 1"
  using initrd_read_overruns [of 5 "fs0 (st32 (\<lambda>_. 0) 0x1004C 5) 1" "0x8000" 1 "0x20000"]
  by (simp add: file_header_def node_defs header_length_def ld32_st32_other sep_def)

text \<open>
  C27. A lookup in a directory whose nodes have NUL-terminated names finds \<^verbatim>\<open>dev\<close> in the root directory, otherwise
  the first file node with the name, and returns the null pointer when there is none.
\<close>
theorem initrd_finddir_finds_first:
  assumes "cstr (mem s) name nm" and "cstr (mem s) (str_dev im) (bytes ''dev'')"
    and "n = nat (sint (nroot_nodes s))"
    and "\<And>i. i < n \<Longrightarrow> cstr (mem s) (root_node s (of_nat i)) (names i)"
  shows "initrd_finddir im node name s = Inr
    (if node = initrd_root s \<and> nm = bytes ''dev'' then initrd_dev s
     else case find (\<lambda>i. names i = nm) [0..<n] of None \<Rightarrow> 0 | Some i \<Rightarrow> root_node s (of_nat i))"
proof -
  have "strcmp (mem s) name (str_dev im) = Some (if nm = bytes ''dev'' then 0 else 1)"
    using strcmp_loop_cstr [of "mem s" name 0 nm "str_dev im" "bytes ''dev''"] assms(1,2)
    by (auto simp: strcmp_def)
  moreover have "finddir_loop [0..<n] name s
      = Inr (case find (\<lambda>i. names i = nm) [0..<n] of None \<Rightarrow> 0 | Some i \<Rightarrow> root_node s (of_nat i))"
    using assms(1,4) by (intro finddir_loop_first) auto
  ultimately show ?thesis by (auto simp: initrd_finddir_def ends_def assms(3) [symmetric])
qed

definition two_names :: memory where
  "two_names = (\<lambda>_. 0)(0x9100 := 100, 0x9101 := 101, 0x9102 := 118, 0x80B8 := 97, 0xA000 := 97)"

lemma two_names_cstr:
  "cstr two_names 0x9100 (bytes ''dev'')" "cstr two_names 0xA000 [97]"
  "cstr two_names 0x8000 []" "cstr two_names 0x80B8 [97]"
  by (simp_all add: two_names_def bytes_def of_char_def)

theorem initrd_finddir_finds_first_witness:
  "initrd_finddir image0 0x6000 0xA000 (fs0 two_names 2) = Inr 0x80B8"
proof -
  let ?names = "\<lambda>i :: nat. if i = 1 then [97] else [] :: u8 list"
  have "cstr (mem (fs0 two_names 2)) (root_node (fs0 two_names 2) (of_nat i)) (?names i)" if "i < 2" for i
    using less_2_cases [OF that] two_names_cstr by (auto simp: root_node_def sizeof_fs_node_def)
  moreover have "[0..<2] = [0 :: nat, 1]" by (simp add: upt_rec)
  moreover have "[97] \<noteq> bytes ''dev''" by (simp add: bytes_def)
  moreover have "initrd_finddir image0 0x6000 0xA000 (fs0 two_names 2) = Inr
    (if 0x6000 = initrd_root (fs0 two_names 2) \<and> [97] = bytes ''dev'' then initrd_dev (fs0 two_names 2)
     else case find (\<lambda>i. ?names i = [97]) [0..<2] of None \<Rightarrow> 0 | Some i \<Rightarrow> root_node (fs0 two_names 2) (of_nat i))"
    by (rule initrd_finddir_finds_first) (use two_names_cstr calculation(1) in simp_all)
  ultimately show ?thesis by (simp add: root_node_def sizeof_fs_node_def)
qed

end
