(* ===== verification/Mkinit.thy ===== *)
theory Mkinit
  imports Prelude
begin

text \<open>
  utils/mkinit.c, the host program that builds the ramdisk image. The 64 headers are an array of
  \<open>64 * 76\<close> bytes on the stack (magic at 0, name at 1, offset at 68, length at 72 of each), not
  initialised; \<open>junk\<close> is what they hold at the start. A file is its name in the image and, if it
  can be opened, its contents. \<^verbatim>\<open>main\<close> takes \<^verbatim>\<open>argc\<close> as a \<^verbatim>\<open>char\<close>, so the number of files is
  computed from the signed low byte.
\<close>

section \<open>The program\<close>

datatype mkinit_error = File_not_found | Array_overflow

type_synonym input_file = "u8 list \<times> u8 list option"

definition le32 :: "u32 \<Rightarrow> u8 list" where
  "le32 v = [ucast v, ucast (drop_bit 8 v), ucast (drop_bit 16 v), ucast (drop_bit 24 v)]"

definition patch :: "u8 list \<Rightarrow> nat \<Rightarrow> u8 list \<Rightarrow> u8 list" where
  "patch xs p bs = take p xs @ bs @ drop (p + length bs) xs"

definition put_file_header :: "nat \<Rightarrow> u8 list \<Rightarrow> u32 \<Rightarrow> u32 \<Rightarrow> u8 list \<Rightarrow> u8 list" where
  "put_file_header i name off len headers =
     (let headers = patch headers (76 * i + 1) (name @ [0]);
          headers = patch headers (76 * i + 68) (le32 off);
          headers = patch headers (76 * i + 72) (le32 len)
      in patch headers (76 * i) [0xBF])"

fun header_loop :: "nat \<Rightarrow> input_file list \<Rightarrow> u32 \<Rightarrow> u8 list \<Rightarrow> mkinit_error + u8 list" where
  "header_loop i [] off headers = Inr headers"
| "header_loop i ((name, contents) # files) off headers =
     (if 64 \<le> i \<or> 64 \<le> length name then Inl Array_overflow
      else case contents of
        None \<Rightarrow> Inl File_not_found
      | Some cs \<Rightarrow>
          header_loop (i + 1) files (off + of_nat (length cs))
            (put_file_header i name off (of_nat (length cs)) headers))"

definition nheaders :: "input_file list \<Rightarrow> int" where
  "nheaders files = (let argc = of_nat (2 * length files + 1) :: u8 in (sint argc - 1) div 2)"

definition mkinit_main :: "u8 list \<Rightarrow> input_file list \<Rightarrow> mkinit_error + u8 list" where
  "mkinit_main junk files =
     (let n = nheaders files;
          used = take (nat n) files;
          off = 76 * 64 + 4
      in case header_loop 0 used off junk of
           Inl e \<Rightarrow> Inl e
         | Inr headers \<Rightarrow> Inr (le32 (of_int n) @ headers @ concat (map (the \<circ> snd) used)))"

section \<open>Patching and slicing\<close>

definition segment :: "'a list \<Rightarrow> nat \<Rightarrow> nat \<Rightarrow> 'a list" where
  "segment xs p n = take n (drop p xs)"

lemma length_le32 [simp]: "length (le32 v) = 4"
  by (simp add: le32_def)

lemma length_patch [simp]: "p + length bs \<le> length xs \<Longrightarrow> length (patch xs p bs) = length xs"
  by (simp add: patch_def)

lemma segment_patch_same: "p + length bs \<le> length xs \<Longrightarrow> n = length bs \<Longrightarrow> segment (patch xs p bs) p n = bs"
  by (simp add: patch_def segment_def)

lemma nth_patch_other:
  assumes "p + length bs \<le> length xs" and "i < p \<or> p + length bs \<le> i" and "i < length xs"
  shows "patch xs p bs ! i = xs ! i"
  using assms by (auto simp: patch_def nth_append)

lemma segment_patch_other:
  assumes "p + length bs \<le> length xs" and "q + n \<le> p \<or> p + length bs \<le> q" and "q + n \<le> length xs"
  shows "segment (patch xs p bs) q n = segment xs q n"
  unfolding segment_def
  by (rule nth_equalityI) (use assms in \<open>auto simp: nth_patch_other\<close>)

lemma segment_append_left: "p + n \<le> length xs \<Longrightarrow> segment (xs @ ys) p n = segment xs p n"
  by (simp add: segment_def)

lemma segment_append_right: "length xs \<le> p \<Longrightarrow> segment (xs @ ys) p n = segment ys (p - length xs) n"
  by (simp add: segment_def)

text \<open>The \<open>j\<close>-th part of a concatenation starts behind the parts before it.\<close>

lemma segment_concat:
  "j < length xss \<Longrightarrow>
   segment (concat xss) (sum_list (map length (take j xss))) (length (xss ! j)) = xss ! j"
proof (induction xss arbitrary: j)
  case (Cons xs xss)
  then show ?case
    by (cases j) (simp_all add: segment_append_right segment_def)
qed simp

section \<open>The headers\<close>

definition well_formed_file :: "input_file \<Rightarrow> bool" where
  "well_formed_file f \<longleftrightarrow> length (fst f) < 64 \<and> 0 \<notin> set (fst f) \<and> snd f \<noteq> None"

definition contents :: "input_file \<Rightarrow> u8 list" where
  "contents f = the (snd f)"

definition total :: "input_file list \<Rightarrow> nat" where
  "total files = sum_list (map (length \<circ> contents) files)"

definition file_header_at :: "u8 list \<Rightarrow> nat \<Rightarrow> u8 list \<Rightarrow> u32 \<Rightarrow> u32 \<Rightarrow> bool" where
  "file_header_at h p name off len \<longleftrightarrow>
     segment h p 1 = [0xBF] \<and> segment h (p + 1) (Suc (length name)) = name @ [0]
   \<and> segment h (p + 68) 4 = le32 off \<and> segment h (p + 72) 4 = le32 len"

lemma total_simps [simp]: "total [] = 0" "total (f # fs) = length (contents f) + total fs"
  by (simp_all add: total_def)

lemma length_put_file_header [simp]:
  "76 * i + 76 \<le> length h \<Longrightarrow> length name < 64 \<Longrightarrow> length (put_file_header i name off len h) = length h"
  by (simp add: put_file_header_def Let_def)

lemma put_file_header_at:
  assumes "76 * i + 76 \<le> length h" and "length name < 64"
  shows "file_header_at (put_file_header i name off len h) (76 * i) name off len"
  using assms by (simp add: file_header_at_def put_file_header_def Let_def segment_patch_same segment_patch_other)

lemma put_file_header_other:
  assumes "76 * i + 76 \<le> length h" and "length name < 64" and "q + n \<le> 76 * i"
  shows "segment (put_file_header i name off len h) q n = segment h q n"
  using assms by (simp add: put_file_header_def Let_def segment_patch_other)

lemma header_loop_writes:
  assumes "\<And>f. f \<in> set files \<Longrightarrow> well_formed_file f"
    and "i + length files \<le> 64" and "length h = 76 * 64"
  shows "\<exists>h'. header_loop i files off h = Inr h' \<and> length h' = length h
    \<and> (\<forall>q n. q + n \<le> 76 * i \<longrightarrow> segment h' q n = segment h q n)
    \<and> (\<forall>j < length files. file_header_at h' (76 * (i + j)) (fst (files ! j))
          (off + of_nat (total (take j files))) (of_nat (length (contents (files ! j)))))"
  using assms
proof (induction files arbitrary: i off h)
  case (Cons f files)
  obtain name cs where f: "f = (name, Some cs)" and name: "length name < 64"
    using Cons.prems(1) [of f] by (cases f) (auto simp: well_formed_file_def)
  let ?h = "put_file_header i name off (of_nat (length cs)) h"
  have i: "76 * i + 76 \<le> length h" using Cons.prems(2,3) by simp
  have "length ?h = 76 * 64" using length_put_file_header [OF i name] Cons.prems(3) by simp
  moreover have "i + 1 + length files \<le> 64" using Cons.prems(2) by simp
  moreover have "well_formed_file g" if "g \<in> set files" for g using Cons.prems(1) that by simp
  ultimately obtain h' where h': "header_loop (i + 1) files (off + of_nat (length cs)) ?h = Inr h'"
    and len: "length h' = length h"
    and old: "\<And>q n. q + n \<le> 76 * (i + 1) \<Longrightarrow> segment h' q n = segment ?h q n"
    and new: "\<And>j. j < length files \<Longrightarrow> file_header_at h' (76 * (i + 1 + j)) (fst (files ! j))
          (off + of_nat (length cs) + of_nat (total (take j files)))
          (of_nat (length (contents (files ! j))))"
    using Cons.IH [of "i + 1" ?h "off + of_nat (length cs)"] Cons.prems(3) by auto
  have "file_header_at h' (76 * i) name off (of_nat (length cs))"
    using put_file_header_at [OF i name, of off "of_nat (length cs)"] name
    by (simp add: file_header_at_def old)
  then have "file_header_at h' (76 * (i + j)) (fst ((f # files) ! j))
      (off + of_nat (total (take j (f # files)))) (of_nat (length (contents ((f # files) ! j))))"
    if "j < length (f # files)" for j
    using that new [of "j - 1"] by (cases j) (simp_all add: f contents_def algebra_simps)
  moreover have "segment h' q n = segment h q n" if "q + n \<le> 76 * i" for q n
    using that old [of q n] put_file_header_other [OF i name that] by simp
  moreover have "header_loop i (f # files) off h = Inr h'"
    using h' f name Cons.prems(2) by simp
  ultimately show ?case using len by blast
qed simp

section \<open>The image\<close>

text \<open>\<open>image_of img files\<close>: \<open>img\<close> is a ramdisk image of the files.\<close>

definition file_offset :: "input_file list \<Rightarrow> nat \<Rightarrow> nat" where
  "file_offset files j = 4868 + total (take j files)"

definition image_of :: "u8 list \<Rightarrow> input_file list \<Rightarrow> bool" where
  "image_of img files \<longleftrightarrow>
     length img = 4868 + total files
   \<and> segment img 0 4 = le32 (of_nat (length files))
   \<and> (\<forall>j < length files.
        file_header_at img (4 + 76 * j) (fst (files ! j)) (of_nat (file_offset files j))
          (of_nat (length (contents (files ! j))))
      \<and> segment img (file_offset files j) (length (contents (files ! j))) = contents (files ! j))"

lemma nheaders_small: "length files \<le> 63 \<Longrightarrow> nheaders files = int (length files)"
proof -
  assume n: "length files \<le> 63"
  then have "sint (of_nat (2 * length files + 1) :: u8) = int (2 * length files + 1)"
    by (simp add: signed_of_nat signed_take_bit_int_eq_self del: of_nat_add of_nat_mult of_nat_Suc)
  then show ?thesis unfolding nheaders_def Let_def by simp
qed

lemma file_header_at_shift:
  assumes "file_header_at h p name off len" and "p + 76 \<le> length h" and "length name < 64" and "length w = 4"
  shows "file_header_at (w @ h @ ds) (4 + p) name off len"
  using assms
  by (simp add: file_header_at_def segment_append_right segment_append_left) (simp add: add.commute)

lemma mkinit_image:
  assumes "length files \<le> 63" and "\<And>f. f \<in> set files \<Longrightarrow> well_formed_file f"
    and "length junk = 76 * 64"
  shows "\<exists>img. mkinit_main junk files = Inr img \<and> image_of img files"
proof -
  obtain h where h: "header_loop 0 files 4868 junk = Inr h" and len: "length h = 76 * 64"
    and hd: "\<And>j. j < length files \<Longrightarrow> file_header_at h (76 * j) (fst (files ! j))
          (4868 + of_nat (total (take j files))) (of_nat (length (contents (files ! j))))"
    using header_loop_writes [of files 0 junk 4868] assms by auto
  let ?ds = "map contents files"
  let ?img = "le32 (of_nat (length files)) @ h @ concat ?ds"
  have "mkinit_main junk files = Inr ?img"
    using h nheaders_small [OF assms(1)]
    by (simp add: mkinit_main_def contents_def [abs_def] comp_def)
  moreover have "file_header_at ?img (4 + 76 * j) (fst (files ! j)) (of_nat (file_offset files j))
      (of_nat (length (contents (files ! j))))" if "j < length files" for j
    using hd [OF that] assms(2) [of "files ! j"] that len assms(1)
    by (intro file_header_at_shift) (simp_all add: file_offset_def well_formed_file_def)
  moreover have "segment ?img (file_offset files j) (length (contents (files ! j))) = contents (files ! j)"
    if "j < length files" for j
    using segment_concat [of j ?ds] that len
    by (simp add: file_offset_def segment_append_right total_def take_map)
  moreover have "length ?img = 4868 + total files" using len by (simp add: total_def length_concat comp_def)
  moreover have "segment ?img 0 4 = le32 (of_nat (length files))" by (simp add: segment_def)
  ultimately show ?thesis unfolding image_of_def by blast
qed

text \<open>
  C24. For at most 63 readable files with names of fewer than 64 characters, mkinit writes an image that
  starts with the number of files; header \<open>j\<close> holds the magic number, the name, the offset and the
  length of file \<open>j\<close>, and the contents of the file are found at that offset.
\<close>
theorem mkinit_writes_image:
  assumes "length files \<le> 63" and "\<And>f. f \<in> set files \<Longrightarrow> well_formed_file f"
    and "length junk = 76 * 64"
  shows "\<exists>img. mkinit_main junk files = Inr img \<and> image_of img files"
  using assms by (rule mkinit_image)

theorem mkinit_writes_image_witness:
  "\<exists>img. mkinit_main (replicate 4864 0) [([97], Some [1, 2, 3]), ([98], Some [4])] = Inr img
    \<and> image_of img [([97], Some [1, 2, 3]), ([98], Some [4])]"
  by (rule mkinit_writes_image) (auto simp: well_formed_file_def)

text \<open>
  \<^verbatim>\<open>main\<close> declares \<^verbatim>\<open>argc\<close> as a \<^verbatim>\<open>char\<close>: for 64 files, the number of headers there are, it overflows,
  no header and no file is written, and the image announces \<open>2 ^ 32 - 64\<close> files.
\<close>
theorem mkinit_argc_overflow:
  assumes "length files = 64"
  shows "mkinit_main junk files = Inr (le32 (- 64) @ junk)"
proof -
  have "sint (of_nat (2 * length files + 1) :: u8) = - 127" by (simp add: assms)
  then have "nheaders files = - 64" unfolding nheaders_def Let_def by simp
  then show ?thesis by (simp add: mkinit_main_def)
qed

theorem mkinit_argc_overflow_witness:
  "mkinit_main [7] (replicate 64 ([97], Some [1])) = Inr (le32 (- 64) @ [7])"
  using mkinit_argc_overflow [of "replicate 64 ([97], Some [1])" "[7]"] by simp

end
