(* ===== verification/Ramdisk.thy ===== *)
theory Ramdisk
  imports Initrd Mkinit
begin

text \<open>
  The two ends of the ramdisk together: the image that utils/mkinit.c writes, loaded anywhere in
  memory by the boot loader, and the file nodes that sys/initrd.c makes from it. Looking up and
  reading a file through sys/fs.c gives back the contents that went into the image.
\<close>

section \<open>Bytes of an image in memory\<close>

definition loaded :: "memory \<Rightarrow> u32 \<Rightarrow> u8 list \<Rightarrow> bool" where
  "loaded m location img \<longleftrightarrow> (\<forall>k < length img. m (location + of_nat k) = img ! k)"

lemma in_region_nat:
  assumes "k < 4294967296" and "a + n \<le> 4294967296" and "a < 4294967296"
  shows "in_region (b + of_nat a) n (b + of_nat k) \<longleftrightarrow> a \<le> k \<and> k < a + n"
proof (cases "a \<le> k")
  case True
  then have "unat (of_nat k - of_nat a :: u32) = k - a"
    using assms by (subst unat_sub_lem32) (simp_all add: unat_of_nat_small)
  then show ?thesis using True by (auto simp: in_region_def)
next
  case False
  then have "unat (of_nat k - of_nat a :: u32) = 4294967296 + k - a"
    using assms by (subst unat_sub_wrap32) (simp_all add: unat_of_nat_small)
  then show ?thesis using False assms by (simp add: in_region_def)
qed

lemma ld32_le32:
  assumes "\<And>t. t < 4 \<Longrightarrow> m (a + of_nat t) = le32 v ! t"
  shows "ld32 m a = v"
proof -
  have "ld32 m a = ld32 (st32 m a v) a"
    using assms [of 0] assms [of 1] assms [of 2] assms [of 3]
    by (intro ld32_cong) (simp_all add: le32_def st32_def)
  then show ?thesis by simp
qed

lemma cstr_bytes:
  "0 \<notin> set nm \<Longrightarrow> (\<And>t. t < Suc (length nm) \<Longrightarrow> m (a + of_nat t) = (nm @ [0]) ! t) \<Longrightarrow> cstr m a nm"
proof (induction nm arbitrary: a)
  case Nil
  then show ?case using Nil.prems(2) [of 0] by simp
next
  case (Cons c nm)
  have "m (a + 1 + of_nat t) = (nm @ [0]) ! t" if "t < Suc (length nm)" for t
    using Cons.prems(2) [of "Suc t"] that by (simp add: algebra_simps)
  then have "cstr m (a + 1) nm" using Cons.prems(1) by (intro Cons.IH) auto
  then show ?case using Cons.prems(1) Cons.prems(2) [of 0] by auto
qed

lemma segment_nth:
  assumes "segment img p n = xs" and "p + n \<le> length img" and "t < n"
  shows "img ! (p + t) = xs ! t"
  using assms by (auto simp: segment_def)

section \<open>The loop that makes the nodes\<close>

text \<open>
  After \<open>i\<close> rounds the offsets of the first \<open>i\<close> headers are absolute, the rest of the image is as
  loaded, the first \<open>i\<close> nodes describe their files, and the byte behind each name to come is zero.
\<close>

definition mounted :: "image \<Rightarrow> u32 \<Rightarrow> u32 \<Rightarrow> u8 list \<Rightarrow> input_file list \<Rightarrow> nat \<Rightarrow> memory \<Rightarrow> bool" where
  "mounted im loc nodes img files i m \<longleftrightarrow>
     (\<forall>k < length img. (\<forall>j < i. \<not> (76 * j + 72 \<le> k \<and> k < 76 * j + 76)) \<longrightarrow> m (loc + of_nat k) = img ! k)
   \<and> (\<forall>j < i. ld32 m (loc + of_nat (76 * j + 72)) = of_nat (file_offset files j) + loc
        \<and> file_node_at im m (nodes + of_nat (184 * j)) (of_nat j) (of_nat (length (contents (files ! j))))
        \<and> cstr m (nodes + of_nat (184 * j)) (fst (files ! j)))
   \<and> (\<forall>j. i \<le> j \<and> j < length files \<longrightarrow>
        m (nodes + of_nat (184 * j + length (fst (files ! j)))) = 0)"

text \<open>What the loader and \<^verbatim>\<open>kmalloc\<close> have to provide.\<close>

definition mountable :: "u32 \<Rightarrow> u32 \<Rightarrow> u8 list \<Rightarrow> input_file list \<Rightarrow> bool" where
  "mountable loc nodes img files \<longleftrightarrow>
     length files \<le> 63 \<and> (\<forall>f \<in> set files. well_formed_file f \<and> fst f \<noteq> [])
   \<and> image_of img files \<and> length img < 4294967296
   \<and> sep loc (length img) nodes (184 * length files)"

lemma mounted_intact:
  assumes "mounted im loc nodes img files i m" and "p + l \<le> length img"
    and "\<And>j. j < i \<Longrightarrow> p + l \<le> 76 * j + 72 \<or> 76 * j + 76 \<le> p" and "t < l"
  shows "m (loc + of_nat (p + t)) = img ! (p + t)"
proof -
  have "\<not> (76 * j + 72 \<le> p + t \<and> p + t < 76 * j + 76)" if "j < i" for j
    using assms(3) [OF that] assms(4) by linarith
  moreover have "p + t < length img" using assms(2,4) by simp
  ultimately show ?thesis using assms(1) unfolding mounted_def by blast
qed

lemma image_length: "image_of img files \<Longrightarrow> length img = 4868 + total files"
  by (simp add: image_of_def)

lemma mounted_word:
  assumes "mounted im loc nodes img files i m" and "segment img p 4 = le32 v" and "p + 4 \<le> length img"
    and "\<And>j. j < i \<Longrightarrow> p + 4 \<le> 76 * j + 72 \<or> 76 * j + 76 \<le> p"
  shows "ld32 m (loc + of_nat p) = v"
proof (rule ld32_le32)
  fix t :: nat assume "t < 4"
  then show "m (loc + of_nat p + of_nat t) = le32 v ! t"
    using mounted_intact [OF assms(1,3,4)] segment_nth [OF assms(2,3)] by (simp add: add.assoc)
qed

lemma mounted_nfiles:
  assumes "mountable loc nodes img files" and "mounted im loc nodes img files i m"
  shows "ld32 m loc = of_nat (length files)"
  using mounted_word [OF assms(2), of 0 "of_nat (length files)"] assms(1)
  by (simp add: mountable_def image_of_def)

lemma mounted_header:
  assumes "mountable loc nodes img files" and "mounted im loc nodes img files i m" and "j < length files"
  shows "i \<le> j \<Longrightarrow> ld32 m (loc + of_nat (76 * j + 72)) = of_nat (file_offset files j)"
    and "ld32 m (loc + of_nat (76 * j + 76)) = of_nat (length (contents (files ! j)))"
    and "i \<le> j \<Longrightarrow> cstr m (loc + of_nat (76 * j + 5)) (fst (files ! j))"
proof -
  let ?f = "files ! j"
  have hd: "file_header_at img (4 + 76 * j) (fst ?f) (of_nat (file_offset files j)) (of_nat (length (contents ?f)))"
    and len: "4868 \<le> length img" and n: "j < 63"
    using assms(1,3) by (auto simp: mountable_def image_of_def)
  have name: "length (fst ?f) < 64" "0 \<notin> set (fst ?f)"
    using assms(1,3) by (auto simp: mountable_def well_formed_file_def)
  have p: "4 + 76 * j + 68 = 76 * j + 72" "4 + 76 * j + 72 = 76 * j + 76" "4 + 76 * j + 1 = 76 * j + 5" by simp_all
  note hd = hd [unfolded file_header_at_def p]
  show "ld32 m (loc + of_nat (76 * j + 76)) = of_nat (length (contents ?f))"
    using hd len n by (intro mounted_word [OF assms(2)]) auto
  show "ld32 m (loc + of_nat (76 * j + 72)) = of_nat (file_offset files j)" if "i \<le> j"
    using hd len n that by (intro mounted_word [OF assms(2)]) auto
  show "cstr m (loc + of_nat (76 * j + 5)) (fst ?f)" if "i \<le> j"
  proof (rule cstr_bytes [OF name(2)])
    fix t assume t: "t < Suc (length (fst ?f))"
    have "m (loc + of_nat (76 * j + 5 + t)) = img ! (76 * j + 5 + t)"
      using len n name(1) that t by (intro mounted_intact [OF assms(2), of _ 65]) auto
    then show "m (loc + of_nat (76 * j + 5) + of_nat t) = (fst ?f @ [0]) ! t"
      using segment_nth [of img "76 * j + 5" "Suc (length (fst ?f))" "fst ?f @ [0]" t] hd t len n name(1)
      by (simp add: add.assoc)
  qed
qed

lemma header_word:
  "file_headers s = loc + 4 \<Longrightarrow> file_header s (of_nat j) + 68 = loc + of_nat (76 * j + 72)"
  "file_headers s = loc + 4 \<Longrightarrow> file_header s (of_nat j) + 72 = loc + of_nat (76 * j + 76)"
  "file_headers s = loc + 4 \<Longrightarrow> file_header s (of_nat j) + 1 = loc + of_nat (76 * j + 5)"
  "file_headers s = loc + 4 \<Longrightarrow> file_header s (of_nat j) = loc + of_nat (76 * j + 4)"
  by (simp_all add: file_header_def sizeof_file_header_def algebra_simps)

lemma node_address: "root_node s (of_nat j) = root_nodes s + of_nat (184 * j)"
  by (simp add: root_node_def sizeof_fs_node_def)

lemma nodes_apart:
  assumes "i \<noteq> j" and "i < 63" and "j < 63"
  shows "\<not> (in_region (nodes + of_nat (184 * i)) 184 x \<and> in_region (nodes + of_nat (184 * j)) 184 x)"
  using sep_index [of i j 184 nodes] sep_not_in_region assms by fastforce

lemma mountable_apart:
  assumes "mountable loc nodes img files" and "j < length files" and "k < length img"
  shows "\<not> in_region (nodes + of_nat (184 * j)) 184 (loc + of_nat k)"
proof
  assume "in_region (nodes + of_nat (184 * j)) 184 (loc + of_nat k)"
  then have "in_region nodes (184 * length files) (loc + of_nat k)"
    using assms(1,2) by (intro in_region_offset [of nodes "184 * j" 184]) (auto simp: mountable_def)
  moreover have "in_region loc (length img) (loc + of_nat k)"
    using assms(1,3) by (intro in_region_of_nat) (auto simp: mountable_def)
  ultimately show False using sep_not_in_region assms(1) unfolding mountable_def by blast
qed

text \<open>The headers lie in front of the nodes' memory or behind it, never across it.\<close>

lemma header_apart:
  assumes "mountable loc nodes img files" and "j < length files"
  shows "sep (loc + of_nat (76 * j + 4)) 76 (nodes + of_nat (184 * j)) 184"
proof -
  have b: "184 * j + 184 \<le> 184 * length files" "76 * j + 4 + 76 \<le> length img"
    using assms by (auto simp: mountable_def image_of_def)
  have "sep loc (length img) (nodes + of_nat (184 * j)) 184"
    using assms b(1,2) by (intro sep_sub [of _ _ _ "184 * length files"]) (auto simp: mountable_def)
  then have "sep (nodes + of_nat (184 * j)) 184 (loc + of_nat (76 * j + 4)) 76"
    using b(2) by (intro sep_sub [of _ _ _ "length img"]) (auto simp: sep_commute)
  then show ?thesis by (simp add: sep_commute)
qed

text \<open>
  A round changes node \<open>i\<close> and the offset field of header \<open>i\<close> only (\<open>round_frame\<close>), so the other
  nodes, the other fields and the contents stay.
\<close>

definition round_frame :: "u32 \<Rightarrow> u32 \<Rightarrow> nat \<Rightarrow> memory \<Rightarrow> memory \<Rightarrow> bool" where
  "round_frame loc nodes i m0 m \<longleftrightarrow> (\<forall>x. \<not> in_region (nodes + of_nat (184 * i)) 184 x \<longrightarrow>
     \<not> in_region (loc + of_nat (76 * i + 72)) 4 x \<longrightarrow> m x = m0 x)"

lemma round_keeps_node:
  assumes able: "mountable loc nodes img files" and i: "i < length files" and "round_frame loc nodes i m0 m"
    and j: "j \<noteq> i" "j < length files" and x: "in_region (nodes + of_nat (184 * j)) 184 x"
  shows "m x = m0 x"
proof -
  have n: "length files \<le> 63" and len: "4868 \<le> length img" "length img < 4294967296"
    using able by (auto simp: mountable_def image_of_def)
  have "\<not> in_region (nodes + of_nat (184 * i)) 184 x"
    using nodes_apart [of i j nodes x] j x i n by auto
  moreover have "in_region (loc + of_nat (76 * i + 72)) 4 x \<Longrightarrow> in_region loc (length img) x"
    using len i n by (intro in_region_offset [of loc "76 * i + 72" 4 x]) auto
  moreover have "in_region nodes (184 * length files) x"
    using j x n by (intro in_region_offset [of nodes "184 * j" 184 x]) auto
  ultimately show ?thesis
    using sep_not_in_region able assms(3) unfolding mountable_def round_frame_def by blast
qed

lemma round_keeps_image:
  assumes able: "mountable loc nodes img files" and i: "i < length files" and "round_frame loc nodes i m0 m"
    and "k < length img" and "k < 76 * i + 72 \<or> 76 * i + 76 \<le> k"
  shows "m (loc + of_nat k) = m0 (loc + of_nat k)"
proof -
  have "length files \<le> 63" "length img < 4294967296" using able by (auto simp: mountable_def)
  then have "\<not> in_region (loc + of_nat (76 * i + 72)) 4 (loc + of_nat k)"
    using assms(4,5) i by (subst in_region_nat) auto
  then show ?thesis using assms(3) mountable_apart [OF able i assms(4)] unfolding round_frame_def by blast
qed

definition disk_frame :: "u32 \<Rightarrow> u32 \<Rightarrow> u8 list \<Rightarrow> input_file list \<Rightarrow> memory \<Rightarrow> memory \<Rightarrow> bool" where
  "disk_frame loc nodes img files m0 m \<longleftrightarrow> (\<forall>x. \<not> in_region loc (length img) x \<longrightarrow>
     \<not> in_region nodes (184 * length files) x \<longrightarrow> m x = m0 x)"

lemma round_disk_frame:
  assumes "mountable loc nodes img files" and "i < length files" and "round_frame loc nodes i m0 m"
  shows "disk_frame loc nodes img files m0 m"
proof -
  have n: "length files \<le> 63" and len: "4868 \<le> length img" "length img < 4294967296"
    using assms(1) by (auto simp: mountable_def image_of_def)
  have "in_region nodes (184 * length files) x" if "in_region (nodes + of_nat (184 * i)) 184 x" for x
    using assms(2) n by (intro in_region_offset [OF that]) auto
  moreover have "in_region loc (length img) x" if "in_region (loc + of_nat (76 * i + 72)) 4 x" for x
    using assms(2) n len by (intro in_region_offset [OF that]) auto
  ultimately show ?thesis using assms(3) unfolding disk_frame_def round_frame_def by blast
qed

lemma round_keeps_earlier:
  assumes able: "mountable loc nodes img files" and inv: "mounted im loc nodes img files i m0"
    and i: "i < length files" and frame: "round_frame loc nodes i m0 m" and j: "j < i"
  shows "ld32 m (loc + of_nat (76 * j + 72)) = of_nat (file_offset files j) + loc"
    and "file_node_at im m (nodes + of_nat (184 * j)) (of_nat j) (of_nat (length (contents (files ! j))))"
    and "cstr m (nodes + of_nat (184 * j)) (fst (files ! j))"
proof -
  have old: "ld32 m0 (loc + of_nat (76 * j + 72)) = of_nat (file_offset files j) + loc"
    "file_node_at im m0 (nodes + of_nat (184 * j)) (of_nat j) (of_nat (length (contents (files ! j))))"
    "cstr m0 (nodes + of_nat (184 * j)) (fst (files ! j))"
    using inv j unfolding mounted_def by blast+
  have jn: "j \<noteq> i" "j < length files" using i j by simp_all
  have nj: "length (fst (files ! j)) < 64" and len: "4868 \<le> length img" and n: "length files \<le> 63"
    using able jn(2) by (auto simp: mountable_def well_formed_file_def image_of_def)
  note kept = round_keeps_node [OF able i frame jn]
  have "m x = m0 x" if x: "in_region (loc + of_nat (76 * j + 72)) 4 x" for x
  proof -
    obtain t where t: "t < 4" "x = loc + of_nat (76 * j + 72 + t)"
      using x by (auto elim!: in_regionE simp: algebra_simps)
    show ?thesis
      unfolding t(2) using t(1) len jn n j by (intro round_keeps_image [OF able i frame]) auto
  qed
  then show "ld32 m (loc + of_nat (76 * j + 72)) = of_nat (file_offset files j) + loc"
    unfolding old(1) [symmetric] by (rule ld32_frame)
  show "file_node_at im m (nodes + of_nat (184 * j)) (of_nat j) (of_nat (length (contents (files ! j))))"
    using file_node_at_frame [OF old(2) kept] .
  show "cstr m (nodes + of_nat (184 * j)) (fst (files ! j))"
    using nj by (intro cstr_frame [OF old(3)] kept) (auto simp: in_region_def)
qed

lemma round_keeps_zero:
  assumes able: "mountable loc nodes img files" and inv: "mounted im loc nodes img files i m0"
    and i: "i < length files" and frame: "round_frame loc nodes i m0 m" and j: "Suc i \<le> j" "j < length files"
  shows "m (nodes + of_nat (184 * j + length (fst (files ! j)))) = 0"
proof -
  have "length (fst (files ! j)) < 64" using able j(2) by (auto simp: mountable_def well_formed_file_def)
  then have "in_region (nodes + of_nat (184 * j)) 184 (nodes + of_nat (184 * j) + of_nat (length (fst (files ! j))))"
    by (intro in_region_of_nat) auto
  then have "m (nodes + of_nat (184 * j + length (fst (files ! j))))
      = m0 (nodes + of_nat (184 * j + length (fst (files ! j))))"
    using round_keeps_node [OF able i frame, of j] j by (simp add: add.assoc)
  then show ?thesis using inv j unfolding mounted_def by simp
qed

lemma mounted_step:
  fixes s :: "'a fs_scheme"
  assumes able: "mountable loc (root_nodes s) img files" and inv: "mounted im loc (root_nodes s) img files i (mem s)"
    and hs: "file_headers s = loc + 4" and i: "i < length files"
  shows "\<exists>m. file_node im loc (of_nat i) s = Inr (s\<lparr>mem := m\<rparr>)
    \<and> mounted im loc (root_nodes s) img files (Suc i) m \<and> disk_frame loc (root_nodes s) img files (mem s) m"
proof -
  let ?R = "root_nodes s" and ?f = "files ! i"
  let ?nd = "?R + of_nat (184 * i)"
  have name: "length (fst ?f) < 64" "fst ?f \<noteq> []" "0 \<notin> set (fst ?f)"
    using able i by (auto simp: mountable_def well_formed_file_def)
  note hdr = mounted_header [OF able inv i]
  note result = file_node_result [where s = s and i = "of_nat i" and nm = "fst ?f" and im = im and location = loc,
      unfolded header_offset_def header_length_def header_word(1,2,3) [OF hs],
      unfolded header_word(4) [OF hs] node_address,
      OF hdr(3) [OF order_refl] name(2,1) header_apart [OF able i], unfolded hdr(1) [OF order_refl] hdr(2)]
  obtain m where run: "file_node im loc (of_nat i) s = Inr (s\<lparr>mem := m\<rparr>)"
    and node: "file_node_at im m ?nd (of_nat i) (of_nat (length (contents ?f)))"
    and off: "ld32 m (loc + of_nat (76 * i + 72)) = of_nat (file_offset files i) + loc"
    and nm: "\<And>k. k < length (fst ?f) \<Longrightarrow> m (?nd + of_nat k) = fst ?f ! k"
    and nul: "m (?nd + of_nat (length (fst ?f))) = mem s (?nd + of_nat (length (fst ?f)))"
    and frame: "round_frame loc ?R i (mem s) m"
    unfolding round_frame_def using result by blast
  have "m (loc + of_nat k) = img ! k"
    if k: "k < length img" "\<forall>j < Suc i. \<not> (76 * j + 72 \<le> k \<and> k < 76 * j + 76)" for k
  proof -
    have "k < 76 * i + 72 \<or> 76 * i + 76 \<le> k" using k(2) by auto
    then show ?thesis
      using round_keeps_image [OF able i frame k(1)] inv k unfolding mounted_def by auto
  qed
  moreover have "cstr m ?nd (fst ?f)"
  proof (rule cstr_bytes [OF name(3)])
    fix t assume "t < Suc (length (fst ?f))"
    then show "m (?nd + of_nat t) = (fst ?f @ [0]) ! t"
      using nm [of t] nul inv i by (auto simp: nth_append less_Suc_eq mounted_def add.assoc)
  qed
  ultimately have "mounted im loc ?R img files (Suc i) m"
    unfolding mounted_def
    using round_keeps_earlier [OF able inv i frame] round_keeps_zero [OF able inv i frame] off node
    by (metis less_Suc_eq)
  then show ?thesis using run round_disk_frame [OF able i frame] by blast
qed

lemma mounted_loop:
  fixes s :: "'a fs_scheme"
  assumes "mountable loc (root_nodes s) img files" and "mounted im loc (root_nodes s) img files i (mem s)"
    and "file_headers s = loc + 4" and "initrd_header s = loc" and "i \<le> length files"
    and "length files - i < fuel"
  shows "\<exists>m. file_nodes_loop fuel im loc (of_nat i) s = Inr (s\<lparr>mem := m\<rparr>)
    \<and> mounted im loc (root_nodes s) img files (length files) m \<and> disk_frame loc (root_nodes s) img files (mem s) m"
  using assms
proof (induction fuel arbitrary: i s)
  case (Suc fuel)
  have n: "length files < 4294967296" using Suc.prems(1) by (auto simp: mountable_def)
  have nf: "ld32 (mem s) loc = of_nat (length files)"
    using mounted_nfiles [OF Suc.prems(1,2)] .
  show ?case
  proof (cases "i = length files")
    case True
    then have "file_nodes_loop (Suc fuel) im loc (of_nat i) s = Inr (s\<lparr>mem := mem s\<rparr>)"
      using nf Suc.prems(4) by simp
    then show ?thesis using Suc.prems(2) True unfolding disk_frame_def by blast
  next
    case False
    then have i: "i < length files" using Suc.prems(5) by simp
    obtain m where m: "file_node im loc (of_nat i) s = Inr (s\<lparr>mem := m\<rparr>)"
      "mounted im loc (root_nodes s) img files (Suc i) m" "disk_frame loc (root_nodes s) img files (mem s) m"
      using mounted_step [OF Suc.prems(1,2,3) i] by blast
    have "\<exists>m'. file_nodes_loop fuel im loc (of_nat (Suc i)) (s\<lparr>mem := m\<rparr>) = Inr ((s\<lparr>mem := m\<rparr>)\<lparr>mem := m'\<rparr>)
        \<and> mounted im loc (root_nodes (s\<lparr>mem := m\<rparr>)) img files (length files) m'
        \<and> disk_frame loc (root_nodes (s\<lparr>mem := m\<rparr>)) img files (mem (s\<lparr>mem := m\<rparr>)) m'"
      by (rule Suc.IH) (use Suc.prems i m(2) in simp_all)
    moreover have "(of_nat i :: u32) < of_nat (length files)"
      using i n by (simp add: word_less_nat_alt unat_of_nat_small)
    ultimately show ?thesis
      using m(1,3) nf Suc.prems(4) by (auto simp: algebra_simps disk_frame_def)
  qed
qed simp

section \<open>Reading back\<close>

lemma file_in_image:
  assumes "image_of img files" and "j < length files"
  shows "file_offset files j + length (contents (files ! j)) \<le> length img"
proof -
  have "total files = total (take j files) + total (drop j files)"
    unfolding total_def by (metis append_take_drop_id map_append sum_list_append)
  moreover have "drop j files = files ! j # drop (Suc j) files" using assms(2) by (simp add: Cons_nth_drop_Suc)
  ultimately show ?thesis using image_length [OF assms(1)] by (simp add: file_offset_def)
qed

lemma mounted_contents:
  assumes "mountable loc nodes img files" and "mounted im loc nodes img files i m" and "i \<le> length files"
    and "j < length files" and "k < length (contents (files ! j))"
  shows "m (loc + of_nat (file_offset files j + k)) = contents (files ! j) ! k"
proof -
  have seg: "segment img (file_offset files j) (length (contents (files ! j))) = contents (files ! j)"
    and len: "length img = 4868 + total files" and n: "length files \<le> 63"
    using assms(1,4) by (auto simp: mountable_def image_of_def)
  have "file_offset files j + length (contents (files ! j)) \<le> length img"
    using assms(1,4) by (intro file_in_image) (auto simp: mountable_def)
  moreover have "76 * j' + 76 \<le> file_offset files j" if "j' < i" for j'
    using that assms(3) n by (simp add: file_offset_def)
  ultimately show ?thesis
    using mounted_intact [OF assms(2), of "file_offset files j" "length (contents (files ! j))" k]
      segment_nth [OF seg, of k] assms(5) by simp
qed

lemma mounted_read:
  fixes s :: "'a fs_scheme"
  defines "nodes \<equiv> root_nodes s"
  assumes able: "mountable loc nodes img files" and inv: "mounted im loc nodes img files (length files) (mem s)"
    and hs: "file_headers s = loc + 4" and fn: "fn_initrd_read im \<noteq> 0" and j: "j < length files"
    and nowrap: "unat offset + unat sz < 4294967296"
    and buf: "sep loc (length img) buffer (unat sz)"
    and ys: "ys = take (unat sz) (drop (unat offset) (contents (files ! j)))"
  shows "\<exists>m. read_fs im (root_node s (of_nat j)) offset sz buffer s = Inr (of_nat (length ys), s\<lparr>mem := m\<rparr>)
    \<and> (\<forall>k < length ys. m (buffer + of_nat k) = ys ! k)"
proof -
  let ?cs = "contents (files ! j)" and ?nd = "nodes + of_nat (184 * j)"
  let ?src = "of_nat (file_offset files j) + loc + offset"
  have node: "node_inode (mem s) ?nd = of_nat j" "node_read (mem s) ?nd = fn_initrd_read im"
    and off: "ld32 (mem s) (loc + of_nat (76 * j + 72)) = of_nat (file_offset files j) + loc"
    using inv j by (auto simp: mounted_def file_node_at_def)
  have inside: "file_offset files j + length ?cs \<le> length img" and len: "length img < 4294967296"
    using file_in_image [of img files j] able j by (auto simp: mountable_def)
  let ?n = "readable (of_nat (length ?cs)) offset sz"
  have n: "?n = length ys"
    using inside len by (simp add: readable_def ys unat_of_nat_small)
  have fits: "?n \<le> unat (buffer - ?src)"
  proof (cases "length ys = 0")
    case False
    then have less: "unat offset < length ?cs" and l: "length ys \<le> length ?cs - unat offset" "length ys \<le> unat sz"
      by (auto simp: ys)
    have "?src = loc + of_nat (file_offset files j + unat offset)" by simp
    moreover have "sep buffer (length ys) (loc + of_nat (file_offset files j + unat offset)) (length ys)"
      using buf l False inside less
      by (intro sep_sub [of _ _ _ "length img"]) (auto simp: sep_def)
    ultimately show ?thesis by (simp only: n sep_def)
  qed (simp add: n)
  have at: "mem s (?src + of_nat k) = ys ! k" if "k < length ys" for k
  proof -
    have k: "unat offset + k < length ?cs" using that by (auto simp: ys)
    then have "mem s (?src + of_nat k) = ?cs ! (unat offset + k)"
      using mounted_contents [OF able inv order_refl j k] by (simp add: algebra_simps)
    then show ?thesis using that k by (simp add: ys)
  qed
  have "initrd_read ?nd offset sz buffer s = (of_nat ?n, s\<lparr>mem := \<lambda>x. if in_region buffer ?n x
      then mem s (?src + (x - buffer)) else mem s x\<rparr>)"
    using initrd_read_result [of offset sz s ?nd buffer] nowrap fits
    unfolding node header_offset_def header_length_def header_word(1,2) [OF hs] off
      mounted_header(2) [OF able inv j] by blast
  moreover have "in_region buffer ?n (buffer + of_nat k) \<and> buffer + of_nat k - buffer = of_nat k" if "k < length ys" for k
  proof -
    have "length ys \<le> unat sz" by (simp add: ys)
    then have "length ys \<le> 4294967296" using unat_lt_u32 [of sz] by linarith
    then show ?thesis using that unfolding n by (simp add: in_region_of_nat)
  qed
  ultimately show ?thesis
    using node(2) fn at n by (auto simp: read_fs_def node_address nodes_def [symmetric])
qed

lemma mounted_lookup:
  fixes s :: "'a fs_scheme"
  assumes able: "mountable loc (root_nodes s) img files"
    and inv: "mounted im loc (root_nodes s) img files (length files) (mem s)"
    and "nroot_nodes s = of_nat (length files)" and "distinct (map fst files)"
    and "cstr (mem s) name (fst (files ! j))" and "j < length files"
    and "cstr (mem s) (str_dev im) (bytes ''dev'')" and "fst (files ! j) \<noteq> bytes ''dev''"
  shows "initrd_finddir im node name s = Inr (root_node s (of_nat j))"
proof -
  let ?names = "\<lambda>i. fst (files ! i)"
  have n: "length files \<le> 63" using able by (simp add: mountable_def)
  then have "sint (of_nat (length files) :: u32) = int (length files)"
    by (simp add: signed_of_nat signed_take_bit_int_eq_self)
  then have nn: "nat (sint (nroot_nodes s)) = length files" using assms(3) by simp
  have "find (\<lambda>i. ?names i = ?names j) [0..<length files] = Some j"
    unfolding find_Some_iff
    using assms(4,6) by (intro exI [of _ j]) (auto simp: distinct_conv_nth)
  moreover have "strcmp (mem s) name (str_dev im) = Some 1"
    using strcmp_loop_cstr [of "mem s" name 0 _ "str_dev im"] assms(5,7,8) by (fastforce simp: strcmp_def)
  moreover have "finddir_loop [0..<length files] name s = Inr (case find (\<lambda>i. ?names i = ?names j) [0..<length files]
      of None \<Rightarrow> 0 | Some i \<Rightarrow> root_node s (of_nat i))"
    using inv by (intro finddir_loop_first assms(5)) (simp add: mounted_def node_address)
  ultimately show ?thesis by (auto simp: initrd_finddir_def ends_def nn)
qed

end
