(* ===== verification/Mount.thy ===== *)
theory Mount
  imports Ramdisk Heap_Blocks
begin

text \<open>
  Mounting the initial ramdisk (sys/initrd.c, \<^verbatim>\<open>initialise_initrd\<close>) on the kernel heap (sys/kheap.c). The first part
  extends the block view of the heap with what the holes hold: an allocation from a hole of zeros gives a block of zeros.
  The second part is the contract a client of \<^verbatim>\<open>kmalloc\<close> relies on, \<open>heap_ready\<close>: a fresh block away from all others,
  and nothing else changed below the heap or in the blocks in use. The rest follows \<^verbatim>\<open>initialise_initrd\<close>: the two
  directories, the array of file nodes, the loop over the headers, and the lookup and the reads that follow.
\<close>

section \<open>Fresh memory from the heap\<close>

text \<open>A heap whose holes hold zeros between their tags.\<close>

primrec clean :: "memory \<Rightarrow> u32 \<Rightarrow> chunk list \<Rightarrow> bool" where
  "clean m a [] \<longleftrightarrow> True"
| "clean m a (c # cs) \<longleftrightarrow>
     (snd c = 1 \<longrightarrow> (\<forall>x. in_region (a + 12) (unat (fst c - 20)) x \<longrightarrow> m x = 0)) \<and> clean m (a + fst c) cs"

lemma clean_append: "chain m e a us y \<Longrightarrow> clean m' a (us @ vs) \<longleftrightarrow> clean m' a us \<and> clean m' y vs"
  by (induction us arbitrary: a) auto

lemma payload_interval:
  assumes "chunk_at m e a (n, f)"
  shows "in_region (a + 12) (unat (n - 20)) x \<longleftrightarrow> unat a + 12 \<le> unat x \<and> unat x + 8 < unat a + unat n"
proof -
  note p = payload_bounds [OF assms]
  have "unat (a + 12) + unat (n - 20) \<le> 4294967296" using p unat_lt_u32 [of e] by linarith
  then show ?thesis using in_region_interval [of "a + 12" "unat (n - 20)" x] p by auto
qed

lemma clean_frame:
  assumes "chain m e a cs z" and "unat a \<le> unat e" and "\<And>x. unat a \<le> unat x \<Longrightarrow> unat x < unat z \<Longrightarrow> m'' x = m' x"
  shows "clean m' a cs \<Longrightarrow> clean m'' a cs"
  using assms
proof (induction cs arbitrary: a)
  case (Cons c cs)
  obtain n f where c: "c = (n, f)" by fastforce
  then have ch: "chunk_at m e a (n, f)" and rest: "chain m e (a + n) cs z" using Cons.prems(2) by simp_all
  note p = payload_bounds [OF ch]
  have u: "unat (a + n) = unat a + unat n" "unat (a + n) \<le> unat e" using chunk_end [OF ch] p(3) by simp_all
  have z: "unat (a + n) \<le> unat z" using chain_bounds [OF rest u(2)] by simp
  have "clean m'' (a + n) cs" using Cons.prems(1,4) u c by (intro Cons.IH [OF _ rest u(2)]) auto
  moreover have "m'' x = m' x" if "in_region (a + 12) (unat (n - 20)) x" for x
    using that payload_interval [OF ch, of x] z u(1) by (intro Cons.prems(4)) auto
  ultimately show ?case using Cons.prems(1) c by auto
qed simp

text \<open>The payloads of the block and of the rest lie in the payload of the hole, away from the new tags.\<close>

lemma carve_payload:
  assumes hole: "chunk_at m e a (hs, 1)" and n: "n \<le> hs" "20 \<le> unat n" and bs: "bs = block_size hs n"
    and x: "in_region (a + 12) (unat (bs - 20)) x \<or> bs \<noteq> hs \<and> in_region (a + bs + 12) (unat (hs - bs - 20)) x"
  shows "in_region (a + 12) (unat (hs - 20)) x \<and> \<not> carve_tag a hs n x"
proof -
  note b = block_size_bounds [OF n, folded bs]
  note p = payload_bounds [OF hole]
  have le: "unat bs \<le> unat hs" using b(2) by (simp add: word_le_nat_alt)
  have lt: "unat a + unat hs < 4294967296" using p(3) unat_lt_u32 [of e] by linarith
  have u: "unat (a + bs) = unat a + unat bs" "unat (a + hs) = unat a + unat hs"
    using lt le by (intro unat_add_lem32; linarith)+
  have f: "unat (a + bs - 8) = unat a + unat bs - 8" "unat (a + bs + (hs - bs) - 8) = unat a + unat hs - 8"
    using u b(3) le unat_sub_lem32 [of 8 "a + bs"] unat_sub_lem32 [of 8 "a + hs"] by simp_all
  have i: "in_region c k x \<longleftrightarrow> unat c \<le> unat x \<and> unat x < unat c + k" if "unat c + k \<le> unat a + unat hs" for c :: u32 and k
    using lt that by (intro in_region_interval) linarith
  have blk: "in_region (a + 12) (unat (bs - 20)) x \<longleftrightarrow> unat a + 12 \<le> unat x \<and> unat x + 8 < unat a + unat bs"
    using b(3) le p(1) unat_sub_lem32 [of 20 bs] by (subst i) auto
  have hole': "in_region (a + 12) (unat (hs - 20)) x \<longleftrightarrow> unat a + 12 \<le> unat x \<and> unat x + 8 < unat a + unat hs"
    by (rule payload_interval [OF hole])
  have t1: "tag_byte a bs x \<longleftrightarrow> unat a \<le> unat x \<and> unat x < unat a + 12 \<or> unat a + unat bs \<le> unat x + 8 \<and> unat x < unat a + unat bs"
    unfolding tag_byte_def using b(3) le f(1) by (subst (1 2) i) auto
  show ?thesis
  proof (cases "bs = hs")
    case True
    then have "carve_tag a hs n x = tag_byte a hs x" by (simp add: carve_tag_def bs [symmetric])
    then show ?thesis using x True t1 hole' blk by auto
  next
    case False
    then have r: "20 \<le> unat (hs - bs)" "unat (hs - bs) = unat hs - unat bs" using b by simp_all
    have "unat (a + bs + 12) = unat a + unat bs + 12" using u(1) r le lt unat_add_lem32 [of "a + bs" 12] by simp
    then have rest: "in_region (a + bs + 12) (unat (hs - bs - 20)) x \<longleftrightarrow> unat a + unat bs + 12 \<le> unat x \<and> unat x + 8 < unat a + unat hs"
      using r le unat_sub_lem32 [of 20 "hs - bs"] by (subst i) auto
    have t2: "tag_byte (a + bs) (hs - bs) x \<longleftrightarrow> unat a + unat bs \<le> unat x \<and> unat x < unat a + unat bs + 12
        \<or> unat a + unat hs \<le> unat x + 8 \<and> unat x < unat a + unat hs"
      unfolding tag_byte_def using r le f(2) u(1) by (subst (1 2) i) auto
    have "carve_tag a hs n x \<longleftrightarrow> tag_byte a bs x \<or> tag_byte (a + bs) (hs - bs) x"
      using False by (simp add: carve_tag_def bs [symmetric])
    then show ?thesis using x b(3) r le unfolding hole' t1 t2 blk rest by linarith
  qed
qed

text \<open>A block in use, as a position in the list of chunks.\<close>

lemma live_split:
  assumes "chain m e b cs z" and "(q, l) \<in> set (live b cs)"
  shows "\<exists>us n vs a. cs = us @ (n, 0) # vs \<and> chain m e b us a \<and> q = a + 12 \<and> l = n - 20"
  using assms
proof (induction cs arbitrary: b)
  case (Cons c cs)
  obtain n f where c: "c = (n, f)" by fastforce
  show ?case
  proof (cases "(q, l) \<in> set (live (b + n) cs)")
    case True
    then obtain us k vs a where "cs = us @ (k, 0) # vs" "chain m e (b + n) us a" "q = a + 12" "l = k - 20"
      using Cons.IH [of "b + n"] Cons.prems(1) c by auto
    then have "c # cs = (c # us) @ (k, 0) # vs" "chain m e b (c # us) a" "q = a + 12" "l = k - 20"
      using Cons.prems(1) c by simp_all
    then show ?thesis by blast
  next
    case False
    then have "q = b + 12" "l = n - 20" "f = 0" using Cons.prems(2) c by (auto split: if_splits)
    then have "c # cs = [] @ (n, 0) # cs" "chain m e b [] b" "q = b + 12" "l = n - 20" using c by simp_all
    then show ?thesis by blast
  qed
qed simp

text \<open>A caller writes into its block.\<close>

lemma caller_writes:
  assumes inv: "heap_inv cs hp s" and b: "b = hp_start_address (heaps s hp)" and q: "(q, l) \<in> set (live b cs)"
    and same: "\<And>x. \<not> in_region q (unat l) x \<Longrightarrow> m x = mem s x"
  shows "heap_inv cs hp (s\<lparr>mem := m\<rparr>)" and "clean (mem s) b cs \<Longrightarrow> clean m b cs"
proof -
  let ?e = "hp_end_address (heaps s hp)"
  note D = heap_invD [OF inv b refl]
  obtain us n vs a where cs: "cs = us @ (n, 0) # vs" and us: "chain (mem s) ?e b us a" and a: "q = a + 12" "l = n - 20"
    using live_split [OF D(3) q] by blast
  have c: "chunk_at (mem s) ?e a (n, 0)" and vs: "chain (mem s) ?e (a + n) vs ?e"
    using heap_inv_split [OF inv [unfolded cs] us [unfolded b]] by simp_all
  show "heap_inv cs hp (s\<lparr>mem := m\<rparr>)"
    unfolding cs by (rule heap_inv_payload [OF inv [unfolded cs] us [unfolded b]]) (use same a in simp)
  have u: "unat (a + n) = unat a + unat n" "unat (a + n) \<le> unat ?e" using chunk_end [OF c] payload_bounds [OF c] by simp_all
  have keep: "m x = mem s x" if "unat x < unat a \<or> unat (a + n) \<le> unat x" for x
    using that payload_interval [OF c, of x] a u by (intro same) auto
  assume "clean (mem s) b cs"
  then have "clean (mem s) b us" "clean (mem s) (a + n) vs" by (simp_all add: cs clean_append [OF us])
  then have "clean m b us" "clean m (a + n) vs"
    using clean_frame [OF us D(1), of m] clean_frame [OF vs u(2), of m] keep by simp_all
  then show "clean m b cs" by (simp add: cs clean_append [OF us])
qed

text \<open>
  An allocation from a heap with clean holes: the block holds zeros, the holes are clean, the blocks in use
  and the memory outside the heap are as before.
\<close>

definition off_heap :: "u32 \<Rightarrow> 'a vm_scheme \<Rightarrow> u32 \<Rightarrow> bool" where
  "off_heap hp s x \<longleftrightarrow> unat x < unat (oa_array (hp_index (heaps s hp))) \<or> unat (hp_end_address (heaps s hp)) \<le> unat x"

lemma carve_clean:
  assumes inv: "heap_inv cs hp s" and b: "b = hp_start_address (heaps s hp)" and cl: "clean (mem s) b cs"
    and cs: "cs = us @ (hs, 1) # vs" and us: "chain (mem s) (hp_end_address (heaps s hp)) b us a"
    and n: "n \<le> hs" "20 \<le> unat n" and bs: "bs = block_size hs n"
    and same: "\<And>x. outside_index hp s x \<Longrightarrow> \<not> in_region a (unat hs) x \<Longrightarrow> mem t x = mem s x"
    and inside: "\<And>x. outside_index hp s x \<Longrightarrow> \<not> carve_tag a hs n x \<Longrightarrow> mem t x = mem s x"
  shows "clean (mem t) b (us @ carve hs n @ vs)"
    and "in_region (a + 12) (unat (bs - 20)) x \<Longrightarrow> mem t x = 0"
    and "off_heap hp s x \<Longrightarrow> mem t x = mem s x"
proof -
  let ?e = "hp_end_address (heaps s hp)"
  note D = heap_invD [OF inv b refl]
  have hole: "chunk_at (mem s) ?e a (hs, 1)" and vs: "chain (mem s) ?e (a + hs) vs ?e"
    using heap_inv_split [OF inv [unfolded cs] us [unfolded b]] by simp_all
  have ub: "unat b \<le> unat a" using chain_bounds [OF us D(1)] by simp
  have u: "unat (a + hs) = unat a + unat hs" "unat (a + hs) \<le> unat ?e"
    using chunk_end [OF hole] payload_bounds [OF hole] by simp_all
  have fresh: "mem t x = 0"
    if "in_region (a + 12) (unat (bs - 20)) x \<or> bs \<noteq> hs \<and> in_region (a + bs + 12) (unat (hs - bs - 20)) x" for x
  proof -
    note c = carve_payload [OF hole n bs that]
    have "unat a \<le> unat x" using c payload_interval [OF hole, of x] by simp
    then have "outside_index hp s x" using ub b by (simp add: outside_index_def)
    then show ?thesis using inside [of x] c cl by (simp add: cs clean_append [OF us])
  qed
  then show "in_region (a + 12) (unat (bs - 20)) x \<Longrightarrow> mem t x = 0" by blast
  have keep: "mem t x = mem s x" if "unat b \<le> unat x" "unat x < unat a \<or> unat (a + hs) \<le> unat x" for x
    using that chunk_region [OF hole, of x] u b by (intro same) (auto simp: outside_index_def)
  have "clean (mem t) b us" "clean (mem t) (a + hs) vs"
    using clean_frame [OF us D(1), of "mem t"] clean_frame [OF vs u(2), of "mem t"] keep cl ub u
    by (simp_all add: cs clean_append [OF us])
  then show "clean (mem t) b (us @ carve hs n @ vs)"
    using clean_append [OF us, of "mem t" "carve hs n @ vs"] fresh by (simp add: carve_def bs [symmetric])
  show "mem t x = mem s x" if "off_heap hp s x"
  proof (rule same)
    have "unat (oa_array (hp_index (heaps s hp))) \<le> unat b" using D(2) b by (simp add: index_holds_def Let_def)
    then show "outside_index hp s x" "\<not> in_region a (unat hs) x"
      using that D(1) ub u b chunk_region [OF hole, of x] by (auto simp: off_heap_def outside_index_def)
  qed
qed

lemma alloc_clean:
  assumes inv: "heap_inv cs hp s" and b: "b = hp_start_address (heaps s hp)" and cl: "clean (mem s) b cs"
    and fits: "(m, 1) \<in> set cs" "unat sz + 20 + (r + 20) \<le> unat m"
    and room: "unat (oa_size (hp_index (heaps s hp))) + (2 + r') \<le> unat (oa_max_size (hp_index (heaps s hp)))"
  shows "\<exists>p k t ds m' j. alloc (Suc n) sz 0 hp s = Inr (p, t) \<and> heap_inv ds hp t \<and> index_grown j hp s t \<and> clean (mem t) b ds
    \<and> mset (live b ds) = add_mset (p, k) (mset (live b cs)) \<and> sz \<le> k
    \<and> (\<forall>x. in_region p (unat k) x \<longrightarrow> mem t x = 0)
    \<and> (\<forall>(q, l) \<in> set (live b cs). \<forall>x. in_region q (unat l) x \<longrightarrow> mem t x = mem s x)
    \<and> (\<forall>x. off_heap hp s x \<longrightarrow> mem t x = mem s x)
    \<and> (m', 1) \<in> set ds \<and> r + 20 \<le> unat m'
    \<and> unat (oa_size (hp_index (heaps t hp))) + r' \<le> unat (oa_max_size (hp_index (heaps t hp)))"
proof -
  let ?e = "hp_end_address (heaps s hp)" and ?n = "sz + 20"
  note D = heap_invD [OF inv b refl]
  have sz: "unat sz + 20 < 4294967296" using fits(2) unat_lt_u32 [of m] by linarith
  then have n: "unat ?n = unat sz + 20" using unat_add_lem32 [of sz 20] by simp
  then have "?n \<le> m" using fits(2) by (simp add: word_le_nat_alt)
  moreover have "unat (oa_size (hp_index (heaps s hp))) + 2 \<le> unat (oa_max_size (hp_index (heaps s hp)))" using room by simp
  ultimately obtain us hs vs a j t where cs: "cs = us @ (hs, 1) # vs" and best: "best_fit cs ?n hs"
    and us: "chain (mem s) ?e b us a" and t: "alloc (Suc n) sz 0 hp s = Inr (a + 12, t)" "index_grown j hp s t" "j \<le> 2"
    and inv': "heap_inv (us @ carve hs ?n @ vs) hp t"
    and same: "\<And>x. outside_index hp s x \<Longrightarrow> \<not> in_region a (unat hs) x \<Longrightarrow> mem t x = mem s x"
    and inside: "\<And>x. outside_index hp s x \<Longrightarrow> \<not> carve_tag a hs ?n x \<Longrightarrow> mem t x = mem s x"
    using alloc_heap_inv [OF inv sz fits(1), of n] b by blast
  define bs where "bs = block_size hs ?n"
  note split = heap_inv_split [OF inv [unfolded cs] us [unfolded b], unfolded fst_conv]
  have le: "?n \<le> hs" and big: "20 \<le> unat ?n" using best n by (simp_all add: best_fit_def)
  note bb = block_size_bounds [OF le big, folded bs_def]
  note cl' = carve_clean [OF inv b cl cs us le big bs_def same inside]
  obtain m' where m': "(m', 1) \<in> set (us @ carve hs ?n @ vs)" "r + 20 \<le> unat m'"
    using large_hole_left [OF fits(1) [unfolded cs] fits(2) le] by blast
  have lives: "live b cs = live b us @ live (a + hs) vs"
    "live b (us @ carve hs ?n @ vs) = live b us @ (a + 12, bs - 20) # live (a + hs) vs"
    using live_append [OF us, of "(hs, 1) # vs"] live_append [OF us, of "carve hs ?n @ vs"] by (simp_all add: cs carve_def bs_def)
  have "mem t x = mem s x" if q: "(q, l) \<in> set (live b cs)" and x: "in_region q (unat l) x" for q l x
    using same live_away [OF us split D(1) q [unfolded lives] x] b by (simp add: outside_index_def)
  moreover have "sz \<le> bs - 20" using bb(1,3) n unat_sub_lem32 [of 20 bs] by (simp add: word_le_nat_alt)
  ultimately show ?thesis
    using t inv' cl' lives m' index_grown_room [OF t(2,3) room]
    by (intro exI [of _ "a + 12"] exI [of _ "bs - 20"] exI [of _ t] exI [of _ "us @ carve hs ?n @ vs"] exI [of _ m'] exI [of _ j]) auto
qed

section \<open>The heap as its clients see it\<close>

text \<open>
  \<open>heap_ready L r c s\<close>: the kernel heap of \<open>s\<close> has the blocks \<open>L\<close> in use, its holes are clean, one of them has room
  for \<open>r\<close> bytes and a further header and footer, and the index for \<open>c\<close> more entries.
\<close>

definition heap_ready :: "(u32 \<times> u32) multiset \<Rightarrow> nat \<Rightarrow> nat \<Rightarrow> 'a vm_scheme \<Rightarrow> bool" where
  "heap_ready L r c s \<longleftrightarrow> kheap s \<noteq> 0 \<and> (\<exists>cs m. heap_inv cs (kheap s) s
     \<and> clean (mem s) (hp_start_address (heaps s (kheap s))) cs \<and> mset (live (hp_start_address (heaps s (kheap s))) cs) = L
     \<and> (m, 1) \<in> set cs \<and> r + 20 \<le> unat m
     \<and> unat (oa_size (hp_index (heaps s (kheap s)))) + c \<le> unat (oa_max_size (hp_index (heaps s (kheap s)))))"

lemma heap_ready_cong:
  "mem t = mem s \<Longrightarrow> heaps t = heaps s \<Longrightarrow> kheap t = kheap s \<Longrightarrow> heap_ready L r c t \<longleftrightarrow> heap_ready L r c s"
  by (simp add: heap_ready_def heap_inv_def index_holds_def null_size_ok_def)

definition heap_low :: "'a vm_scheme \<Rightarrow> u32 \<Rightarrow> bool" where
  "heap_low s x \<longleftrightarrow> unat x < unat (oa_array (hp_index (heaps s (kheap s))))"

lemma heap_low_mem [simp]: "heap_low (s\<lparr>mem := m\<rparr>) = heap_low s"
  by (simp add: heap_low_def fun_eq_iff)

lemma kmalloc_ready:
  assumes "heap_ready L (unat sz + 20 + r) (2 + c) s"
  shows "\<exists>p k t m h. kmalloc (Suc n) sz s = Inr (p, t) \<and> t = s\<lparr>mem := m, heaps := h\<rparr> \<and> heap_ready (add_mset (p, k) L) r c t \<and> sz \<le> k
    \<and> heap_low t = heap_low s \<and> (\<forall>x. in_region p (unat k) x \<longrightarrow> mem t x = 0)
    \<and> (\<forall>q l x. (q, l) \<in># L \<longrightarrow> in_region q (unat l) x \<longrightarrow> mem t x = mem s x)
    \<and> (\<forall>x. heap_low s x \<longrightarrow> mem t x = mem s x)"
proof -
  let ?hp = "kheap s"
  let ?b = "hp_start_address (heaps s ?hp)"
  obtain cs m where s: "?hp \<noteq> 0" "heap_inv cs ?hp s" "clean (mem s) ?b cs" and L: "mset (live ?b cs) = L"
    and m: "(m, 1) \<in> set cs" "unat sz + 20 + (r + 20) \<le> unat m"
    and room: "unat (oa_size (hp_index (heaps s ?hp))) + (2 + c) \<le> unat (oa_max_size (hp_index (heaps s ?hp)))"
    using assms by (auto simp: heap_ready_def add.assoc)
  obtain p k t ds m' j where t: "alloc (Suc n) sz 0 ?hp s = Inr (p, t)" "heap_inv ds ?hp t" and g: "index_grown j ?hp s t"
    and new: "clean (mem t) ?b ds" "mset (live ?b ds) = add_mset (p, k) (mset (live ?b cs))" "sz \<le> k"
      "\<forall>x. in_region p (unat k) x \<longrightarrow> mem t x = 0"
      "\<forall>(q, l) \<in> set (live ?b cs). \<forall>x. in_region q (unat l) x \<longrightarrow> mem t x = mem s x"
      "\<forall>x. off_heap ?hp s x \<longrightarrow> mem t x = mem s x"
      "(m', 1) \<in> set ds" "r + 20 \<le> unat m'"
      "unat (oa_size (hp_index (heaps t ?hp))) + c \<le> unat (oa_max_size (hp_index (heaps t ?hp)))"
    using alloc_clean [OF s(2) refl s(3) m room, of n] by blast
  note f = index_grown_fields [OF g]
  have "kmalloc (Suc n) sz s = Inr (p, t)" using t(1) kmalloc_heap [OF s(1)] by simp
  moreover have "heap_ready (add_mset (p, k) L) r c t" using s(1) t(2) new L f by (auto simp: heap_ready_def)
  moreover have "heap_low t = heap_low s" by (simp add: heap_low_def fun_eq_iff f)
  moreover have "\<forall>q l x. (q, l) \<in># L \<longrightarrow> in_region q (unat l) x \<longrightarrow> mem t x = mem s x" using new(5) L by fastforce
  moreover have "\<forall>x. heap_low s x \<longrightarrow> mem t x = mem s x" using new(6) by (simp add: off_heap_def heap_low_def)
  ultimately show ?thesis using g new(3,4) unfolding index_grown_def by blast
qed

lemma ready_write:
  assumes "heap_ready L r c s" and "(q, l) \<in># L" and "\<And>x. \<not> in_region q (unat l) x \<Longrightarrow> m x = mem s x"
  shows "heap_ready L r c (s\<lparr>mem := m\<rparr>)"
proof -
  let ?hp = "kheap s"
  let ?b = "hp_start_address (heaps s ?hp)"
  obtain cs k where s: "heap_inv cs ?hp s" "clean (mem s) ?b cs" "mset (live ?b cs) = L" "(k, 1) \<in> set cs"
    and rest: "?hp \<noteq> 0" "r + 20 \<le> unat k"
      "unat (oa_size (hp_index (heaps s ?hp))) + c \<le> unat (oa_max_size (hp_index (heaps s ?hp)))"
    using assms(1) by (auto simp: heap_ready_def)
  have "(q, l) \<in> set (live ?b cs)" using assms(2) s(3) by auto
  note w = caller_writes [OF s(1) refl this assms(3)]
  have "heap_inv cs ?hp (s\<lparr>mem := m\<rparr>)" "clean m ?b cs" using w s(2) by blast+
  then show ?thesis using s(3,4) rest unfolding heap_ready_def by auto
qed

lemma ready_block:
  assumes "heap_ready L r c s" and "(q, l) \<in># L"
  shows "unat q + unat l < 4294967296" and "12 \<le> unat q" and "heap_low s x \<Longrightarrow> unat x < unat q"
proof -
  let ?hp = "kheap s"
  let ?b = "hp_start_address (heaps s ?hp)" and ?e = "hp_end_address (heaps s ?hp)"
  obtain cs where s: "heap_inv cs ?hp s" "mset (live ?b cs) = L" using assms(1) by (auto simp: heap_ready_def)
  note D = heap_invD [OF s(1) refl refl]
  have "(q, l) \<in> set (live ?b cs)" using assms(2) s(2) by auto
  then have q: "unat ?b + 12 \<le> unat q \<and> unat q + unat l + 8 \<le> unat ?e" by (rule live_bounds [OF D(3,1)])
  then show "unat q + unat l < 4294967296" "12 \<le> unat q" using unat_lt_u32 [of ?e] by linarith+
  show "unat x < unat q" if "heap_low s x"
    using that q D(2) by (auto simp: heap_low_def index_holds_def Let_def)
qed

lemma ready_apart:
  assumes "heap_ready (add_mset (p, k) L) r c s" and "(q, l) \<in># L"
  shows "unat p + unat k \<le> unat q \<or> unat q + unat l \<le> unat p"
proof -
  let ?b = "hp_start_address (heaps s (kheap s))"
  obtain cs where s: "heap_inv cs (kheap s) s" "mset (live ?b cs) = add_mset (p, k) L" using assms(1) by (auto simp: heap_ready_def)
  note D = heap_invD [OF s(1) refl refl]
  have "(p, k) \<in># mset (live ?b cs)" using s(2) by simp
  then obtain ys zs where xs: "live ?b cs = ys @ (p, k) # zs" by (metis in_set_conv_decomp set_mset_mset)
  then have "mset (ys @ zs) = L" using s(2) by simp
  then have "(q, l) \<in> set ys \<union> set zs" using assms(2) by (metis set_append set_mset_mset)
  then show ?thesis using live_apart [OF D(3,1)] unfolding xs by (auto simp: sorted_wrt_append)
qed

section \<open>Directory nodes\<close>

definition dir_node_at :: "image \<Rightarrow> memory \<Rightarrow> u32 \<Rightarrow> bool" where
  "dir_node_at im m node \<longleftrightarrow> node_flags m node = FS_DIRECTORY
     \<and> node_readdir m node = fn_initrd_readdir im \<and> node_finddir m node = fn_initrd_finddir im"

lemma dir_node_at_frame:
  assumes "dir_node_at im m node" and "\<And>x. in_region node 184 x \<Longrightarrow> m' x = m x"
  shows "dir_node_at im m' node"
proof -
  have "ld32 m' (node + k) = ld32 m (node + k)" if "unat k + 4 \<le> 184" for k
    using in_region_offset [of node "unat k" 4 _ 184] that by (intro ld32_frame assms(2)) simp
  then show ?thesis using assms(1) by (simp add: dir_node_at_def node_defs)
qed

lemma dir_node_result:
  assumes "cstr m name nm" and "nm \<noteq> []" and "length nm \<le> 128" and "Suc (length nm) \<le> unat (node - name)"
  shows "\<exists>m'. dir_node im node name m = Some m' \<and> dir_node_at im m' node \<and> (\<forall>x. \<not> in_region node 184 x \<longrightarrow> m' x = m x)"
proof -
  let ?m = "\<lambda>x. if in_region node (length nm) x then nm ! unat (x - node) else m x"
  have copy: "strcpy m node name = Some ?m" using strcpy_cstr [of m name] assms by (cases nm) blast+
  obtain m' where m': "dir_node im node name m = Some m'" by (simp add: dir_node_def copy)
  have "m' x = m x" if "\<not> in_region node 184 x" for x
  proof -
    have "\<not> in_region node (length nm) x" using that in_region_mono [of node "length nm" x 184] assms(3) by auto
    then show ?thesis using m' that by (auto simp: dir_node_def copy Let_def node_word_outside)
  qed
  moreover have "dir_node_at im m' node"
    using m' by (auto simp: dir_node_def copy Let_def dir_node_at_def node_defs ld32_st32_other sep_def)
  ultimately show ?thesis using m' by blast
qed

text \<open>A string below the heap.\<close>

definition low_string :: "'a vm_scheme \<Rightarrow> u32 \<Rightarrow> u8 list \<Rightarrow> bool" where
  "low_string s a cs \<longleftrightarrow> cstr (mem s) a cs \<and> cs \<noteq> [] \<and> length cs \<le> 128
     \<and> unat a + length cs < unat (oa_array (hp_index (heaps s (kheap s))))"

lemma low_string_end:
  assumes "low_string s a cs"
  shows "unat a + length cs < 4294967295" and "unat (a + of_nat (length cs)) = unat a + length cs"
proof -
  have "unat a + length cs < unat (oa_array (hp_index (heaps s (kheap s))))" using assms by (simp add: low_string_def)
  then show "unat a + length cs < 4294967295" using unat_lt_u32 [of "oa_array (hp_index (heaps s (kheap s)))"] by linarith
  then show "unat (a + of_nat (length cs)) = unat a + length cs" by (intro unat_add_of_nat) linarith
qed

lemma low_string_byte:
  assumes "low_string s a cs" and "in_region a (Suc (length cs)) x"
  shows "heap_low s x"
  using assms low_string_end(1) [OF assms(1)] in_region_interval [of a "Suc (length cs)" x]
  by (simp add: low_string_def heap_low_def)

lemma low_string_frame:
  assumes "low_string s a cs" and "heap_low t = heap_low s" and "\<And>x. in_region a (Suc (length cs)) x \<Longrightarrow> mem t x = mem s x"
  shows "low_string t a cs"
proof -
  have "heap_low s (a + of_nat (length cs))"
    using low_string_byte [OF assms(1), of "a + of_nat (length cs)"] assms(1) by (simp add: low_string_def in_region_of_nat)
  then have "heap_low t (a + of_nat (length cs))" by (simp add: assms(2))
  moreover have "cstr (mem t) a cs" using assms(1) by (intro cstr_frame [OF _ assms(3)]) (simp_all add: low_string_def)
  ultimately show ?thesis using assms(1) low_string_end(2) [OF assms(1)] by (simp add: low_string_def heap_low_def)
qed

section \<open>The image and the steps of the code\<close>

lemma loaded_nfiles:
  assumes "loaded m loc img" and "image_of img files"
  shows "ld32 m loc = of_nat (length files)"
proof (rule ld32_le32)
  fix t :: nat assume t: "t < 4"
  have "segment img 0 4 = le32 (of_nat (length files))" "4868 \<le> length img" using assms(2) by (simp_all add: image_of_def)
  then show "m (loc + of_nat t) = le32 (of_nat (length files)) ! t"
    using t assms(1) segment_nth [of img 0 4 _ t] by (simp add: loaded_def)
qed

text \<open>The image below the heap, and the memory that the allocations before the loop leave alone.\<close>

definition disk_below :: "u32 \<Rightarrow> u8 list \<Rightarrow> 'a vm_scheme \<Rightarrow> bool" where
  "disk_below loc img s \<longleftrightarrow> loaded (mem s) loc img \<and> unat loc + length img \<le> unat (oa_array (hp_index (heaps s (kheap s))))"

lemma disk_below_byte:
  assumes "disk_below loc img s"
  shows "in_region loc (length img) x \<Longrightarrow> heap_low s x" and "length img < 4294967296"
proof -
  have le: "unat loc + length img \<le> unat (oa_array (hp_index (heaps s (kheap s))))" using assms by (simp add: disk_below_def)
  then have lt: "unat loc + length img < 4294967296" using unat_lt_u32 [of "oa_array (hp_index (heaps s (kheap s)))"] by linarith
  then show "length img < 4294967296" by simp
  show "heap_low s x" if "in_region loc (length img) x"
    using that le lt in_region_interval [of loc "length img" x] by (simp add: heap_low_def)
qed

lemma disk_below_frame:
  assumes "disk_below loc img s" and "heap_low t = heap_low s" and "\<And>x. heap_low s x \<Longrightarrow> mem t x = mem s x" and "0 < length img"
  shows "disk_below loc img t"
proof -
  note lt = disk_below_byte [OF assms(1)]
  have le: "unat loc + length img \<le> unat (oa_array (hp_index (heaps s (kheap s))))" using assms(1) by (simp add: disk_below_def)
  have u: "unat (loc + of_nat (length img - 1)) = unat loc + length img - 1"
    using le assms(4) unat_lt_u32 [of "oa_array (hp_index (heaps s (kheap s)))"] unat_add_of_nat [of loc "length img - 1"] by linarith
  have "heap_low s (loc + of_nat (length img - 1))" unfolding heap_low_def using le u assms(4) by linarith
  then have "unat loc + length img \<le> unat (oa_array (hp_index (heaps t (kheap t))))"
    using u assms(4) unfolding assms(2) [symmetric] heap_low_def by linarith
  moreover have "mem t (loc + of_nat k) = mem s (loc + of_nat k)" if "k < length img" for k
    using that lt(2) by (intro assms(3) lt(1) in_region_of_nat) simp_all
  ultimately show ?thesis using assms(1) by (simp add: disk_below_def loaded_def)
qed

text \<open>The part of \<^verbatim>\<open>initialise_initrd\<close> that makes the two directories.\<close>

definition make_directories :: "nat \<Rightarrow> image \<Rightarrow> 'a fs_scheme \<Rightarrow> ('a fs_scheme, 'a fs_scheme) result" where
  "make_directories n im s =
     bind_res (kmalloc n sizeof_fs_node s) (\<lambda>(a, s).
     let s = s\<lparr>initrd_root := a\<rparr> in
     bind_res (ends (dir_node im (initrd_root s) (str_initrd im) (mem s))) (\<lambda>m.
     let s = s\<lparr>mem := m\<rparr> in
     bind_res (kmalloc n sizeof_fs_node s) (\<lambda>(a, s).
     let s = s\<lparr>initrd_dev := a\<rparr> in
     bind_res (ends (dir_node im (initrd_dev s) (str_dev im) (mem s))) (\<lambda>m. Inr (s\<lparr>mem := m\<rparr>)))))"

lemma initialise_initrd_parts:
  "initialise_initrd n im location s =
     bind_res (make_directories n im (s\<lparr>initrd_header := location, file_headers := location + sizeof_initrd_header\<rparr>)) (\<lambda>s.
     bind_res (kmalloc n (sizeof_fs_node * ld32 (mem s) (initrd_header s)) s) (\<lambda>(a, s).
     bind_res (file_nodes_loop (Suc (2 ^ 32)) im location 0
       (s\<lparr>root_nodes := a, nroot_nodes := ld32 (mem s) (initrd_header s)\<rparr>)) (\<lambda>s. Inr (initrd_root s, s))))"
  by (simp add: initialise_initrd_def make_directories_def Let_def bind_res_assoc split_def del: file_nodes_loop.simps)

section \<open>The contract of the allocator\<close>

text \<open>
  What the code that mounts the ramdisk relies on, as an interface: from a ready heap \<^verbatim>\<open>kmalloc\<close> returns a block of zeros away from the blocks in
  use and leaves those and the memory below the heap alone, and a caller may write into its block.
\<close>

locale block_allocator =
  fixes ready :: "(u32 \<times> u32) multiset \<Rightarrow> nat \<Rightarrow> nat \<Rightarrow> 'a fs_scheme \<Rightarrow> bool"
  assumes fresh_block: "ready L (unat sz + 20 + r) (2 + c) s \<Longrightarrow>
      \<exists>p k t m h. kmalloc (Suc n) sz s = Inr (p, t) \<and> t = s\<lparr>mem := m, heaps := h\<rparr> \<and> ready (add_mset (p, k) L) r c t \<and> sz \<le> k
        \<and> heap_low t = heap_low s \<and> (\<forall>x. in_region p (unat k) x \<longrightarrow> mem t x = 0)
        \<and> (\<forall>q l x. (q, l) \<in># L \<longrightarrow> in_region q (unat l) x \<longrightarrow> mem t x = mem s x)
        \<and> (\<forall>x. heap_low s x \<longrightarrow> mem t x = mem s x)"
    and write_own_block: "ready L r c s \<Longrightarrow> (q, l) \<in># L \<Longrightarrow> (\<And>x. \<not> in_region q (unat l) x \<Longrightarrow> m x = mem s x) \<Longrightarrow>
      ready L r c (s\<lparr>mem := m\<rparr>)"
    and block_range: "ready L r c s \<Longrightarrow> (q, l) \<in># L \<Longrightarrow> unat q + unat l < 4294967296"
      "ready L r c s \<Longrightarrow> (q, l) \<in># L \<Longrightarrow> 12 \<le> unat q"
      "ready L r c s \<Longrightarrow> (q, l) \<in># L \<Longrightarrow> heap_low s x \<Longrightarrow> unat x < unat q"
    and blocks_apart: "ready (add_mset (p, k) L) r c s \<Longrightarrow> (q, l) \<in># L \<Longrightarrow> unat p + unat k \<le> unat q \<or> unat q + unat l \<le> unat p"
    and same_heap: "mem t = mem s \<Longrightarrow> heaps t = heaps s \<Longrightarrow> kheap t = kheap s \<Longrightarrow> ready L r c t \<longleftrightarrow> ready L r c s"
begin

lemma dir_stage:
  assumes ready: "ready L (204 + r) (2 + c) s" and name: "low_string s a nm"
  shows "\<exists>p k m h m'. kmalloc (Suc n) sizeof_fs_node s = Inr (p, s\<lparr>mem := m, heaps := h\<rparr>)
    \<and> dir_node im p a m = Some m' \<and> ready (add_mset (p, k) L) r c (s\<lparr>mem := m', heaps := h\<rparr>) \<and> 184 \<le> unat k
    \<and> dir_node_at im m' p \<and> heap_low (s\<lparr>mem := m', heaps := h\<rparr>) = heap_low s
    \<and> (\<forall>q l x. (q, l) \<in># L \<longrightarrow> in_region q (unat l) x \<longrightarrow> m' x = mem s x) \<and> (\<forall>x. heap_low s x \<longrightarrow> m' x = mem s x)"
proof -
  have "ready L (unat sizeof_fs_node + 20 + r) (2 + c) s" using ready by (simp add: sizeof_fs_node_def)
  from fresh_block [OF this, of n] obtain p k m h where
    run: "kmalloc (Suc n) sizeof_fs_node s = Inr (p, s\<lparr>mem := m, heaps := h\<rparr>)" and k: "sizeof_fs_node \<le> k"
    and t: "ready (add_mset (p, k) L) r c (s\<lparr>mem := m, heaps := h\<rparr>)" "heap_low (s\<lparr>mem := m, heaps := h\<rparr>) = heap_low s"
    and same: "\<forall>q l x. (q, l) \<in># L \<longrightarrow> in_region q (unat l) x \<longrightarrow> m x = mem s x" "\<forall>x. heap_low s x \<longrightarrow> m x = mem s x"
    by auto
  have k: "184 \<le> unat k" using k by (simp add: sizeof_fs_node_def word_le_nat_alt)
  have name': "low_string (s\<lparr>mem := m, heaps := h\<rparr>) a nm"
    using low_string_byte [OF name] same(2) by (intro low_string_frame [OF name t(2)]) simp
  note blk = block_range [OF t(1), of p k]
  have "heap_low s x \<Longrightarrow> unat x < unat p" for x using blk(3) [of x] unfolding t(2) by simp
  then have "unat (a + of_nat (length nm)) < unat p"
    using low_string_byte [OF name, of "a + of_nat (length nm)"] name by (simp add: low_string_def in_region_of_nat)
  then have far: "Suc (length nm) \<le> unat (p - a)" using unat_sub_lem32 [of a p] low_string_end(2) [OF name] by simp
  obtain m' where m': "dir_node im p a m = Some m'" "dir_node_at im m' p" and out: "\<And>x. \<not> in_region p 184 x \<Longrightarrow> m' x = m x"
    using dir_node_result [of m a nm p im] name' far by (auto simp: low_string_def)
  have out': "m' x = m x" if "\<not> in_region p (unat k) x" for x
    using that out in_region_mono [of p 184 x "unat k"] k by blast
  have "ready (add_mset (p, k) L) r c (s\<lparr>mem := m, heaps := h\<rparr>\<lparr>mem := m'\<rparr>)"
    using out' by (intro write_own_block [OF t(1), of p k]) simp_all
  then have ready': "ready (add_mset (p, k) L) r c (s\<lparr>mem := m', heaps := h\<rparr>)"
    using same_heap [of "s\<lparr>mem := m', heaps := h\<rparr>" "s\<lparr>mem := m, heaps := h\<rparr>\<lparr>mem := m'\<rparr>"] by simp
  have apart: "m' x = m x" if "(q, l) \<in># L" "in_region q (unat l) x" for q l x
  proof (rule out')
    have "unat q + unat l < 4294967296" using block_range(1) [OF t(1), of q l] that(1) by simp
    then show "\<not> in_region p (unat k) x"
      using blocks_apart [OF t(1) that(1)] that(2) in_region_interval [of q "unat l" x] in_region_interval [of p "unat k" x] blk(1) by auto
  qed
  have low: "m' x = m x" if "heap_low s x" for x
    using that \<open>\<And>x. heap_low s x \<Longrightarrow> unat x < unat p\<close> [of x] in_region_interval [of p "unat k" x] blk(1) by (intro out') auto
  have "\<forall>q l x. (q, l) \<in># L \<longrightarrow> in_region q (unat l) x \<longrightarrow> m' x = mem s x" using same(1) apart by simp
  moreover have "\<forall>x. heap_low s x \<longrightarrow> m' x = mem s x" using same(2) low by simp
  moreover have "heap_low (s\<lparr>mem := m', heaps := h\<rparr>) = heap_low s" using t(2) by (simp add: heap_low_def fun_eq_iff)
  ultimately show ?thesis using run m' ready' k by blast
qed

lemma disk_apart:
  assumes "disk_below loc img s" and "ready L r c s" and "(q, l) \<in># L" and "n \<le> unat l" and "0 < length img"
  shows "sep loc (length img) q n"
proof -
  have "in_region loc (length img) (loc + of_nat (length img - 1))"
    using assms(5) disk_below_byte(2) [OF assms(1)] by (intro in_region_of_nat) simp_all
  then have "unat (loc + of_nat (length img - 1)) < unat q"
    by (intro block_range(3) [OF assms(2,3)] disk_below_byte(1) [OF assms(1)])
  moreover have "unat loc + (length img - 1) < 4294967296"
    using assms(1) unat_lt_u32 [of "oa_array (hp_index (heaps s (kheap s)))"] unfolding disk_below_def by linarith
  then have "unat (loc + of_nat (length img - 1)) = unat loc + (length img - 1)" by (rule unat_add_of_nat)
  ultimately have "unat loc + length img \<le> unat q" by simp
  then show ?thesis
    using block_range(1) [OF assms(2,3)] assms(4,5) by (intro sepI_below) simp_all
qed

lemma two_directories:
  assumes ready: "ready L (408 + r) (4 + c) s"
    and names: "low_string s (str_initrd im) (bytes ''initrd'')" "low_string s (str_dev im) (bytes ''dev'')"
  shows "\<exists>p k q l t. make_directories (Suc n) im s = Inr t \<and> dir_node_at im (mem t) p
    \<and> ready (add_mset (q, l) (add_mset (p, k) L)) r c t \<and> 184 \<le> unat k
    \<and> heap_low t = heap_low s \<and> (\<forall>x. heap_low s x \<longrightarrow> mem t x = mem s x)
    \<and> initrd_root t = p \<and> initrd_header t = initrd_header s \<and> file_headers t = file_headers s"
proof -
  have "204 + (204 + r) = 408 + r" "2 + (2 + c) = 4 + c" by simp_all
  then have "ready L (204 + (204 + r)) (2 + (2 + c)) s" using ready by metis
  from dir_stage [OF this names(1), of n im] obtain p k m h m' where
    run1: "kmalloc (Suc n) sizeof_fs_node s = Inr (p, s\<lparr>mem := m, heaps := h\<rparr>)" "dir_node im p (str_initrd im) m = Some m'"
    and k: "184 \<le> unat k" and at: "dir_node_at im m' p"
    and s1: "ready (add_mset (p, k) L) (204 + r) (2 + c) (s\<lparr>mem := m', heaps := h\<rparr>)"
      "heap_low (s\<lparr>mem := m', heaps := h\<rparr>) = heap_low s" "\<forall>x. heap_low s x \<longrightarrow> m' x = mem s x"
    by blast
  define t1 where "t1 = s\<lparr>mem := m, heaps := h\<rparr>\<lparr>initrd_root := p, mem := m'\<rparr>"
  have t1: "ready (add_mset (p, k) L) (204 + r) (2 + c) t1" "heap_low t1 = heap_low s" "mem t1 = m'"
    using s1(1,2) same_heap [of t1 "s\<lparr>mem := m', heaps := h\<rparr>"] by (simp_all add: t1_def heap_low_def fun_eq_iff)
  have "low_string t1 (str_dev im) (bytes ''dev'')"
    using low_string_byte [OF names(2)] s1(3) t1(3) by (intro low_string_frame [OF names(2) t1(2)]) simp
  from dir_stage [OF t1(1) this, of n im] obtain q l m2 h2 m3 where
    run2: "kmalloc (Suc n) sizeof_fs_node t1 = Inr (q, t1\<lparr>mem := m2, heaps := h2\<rparr>)" "dir_node im q (str_dev im) m2 = Some m3"
    and s2: "ready (add_mset (q, l) (add_mset (p, k) L)) r c (t1\<lparr>mem := m3, heaps := h2\<rparr>)"
      "heap_low (t1\<lparr>mem := m3, heaps := h2\<rparr>) = heap_low t1"
    and same: "\<forall>q l x. (q, l) \<in># add_mset (p, k) L \<longrightarrow> in_region q (unat l) x \<longrightarrow> m3 x = mem t1 x"
      "\<forall>x. heap_low t1 x \<longrightarrow> m3 x = mem t1 x"
    by blast
  define t where "t = t1\<lparr>mem := m2, heaps := h2\<rparr>\<lparr>initrd_dev := q, mem := m3\<rparr>"
  have t: "ready (add_mset (q, l) (add_mset (p, k) L)) r c t" "heap_low t = heap_low s" "mem t = m3"
    using s2 t1(2) same_heap [of t "t1\<lparr>mem := m3, heaps := h2\<rparr>"] by (simp_all add: t_def heap_low_def fun_eq_iff)
  have "dir_node_at im (mem t) p"
    using dir_node_at_frame [OF at, of m3] same(1) in_region_mono [of p 184 _ "unat k"] k t1(3) t(3) by simp
  moreover have "\<forall>x. heap_low s x \<longrightarrow> mem t x = mem s x" using same(2) s1(3) t1(2,3) t(3) by simp
  moreover have "initrd_root t = p" "initrd_header t = initrd_header s" "file_headers t = file_headers s"
    by (simp_all add: t_def t1_def)
  ultimately show ?thesis
    using t k run1 run2 make_directories_def [of "Suc n" im s] by (simp add: ends_def t1_def t_def) blast
qed

text \<open>Blocks and the image lie apart, so the loop over the files leaves the root directory alone.\<close>

lemma root_kept:
  assumes "ready L r c s" and "(p, k) \<in># L" and "disk_below loc img s" and "0 < length img" and "184 \<le> unat k"
    and "disk_frame loc nodes img files (mem s) m" and "sep p 184 nodes (184 * length files)" and "dir_node_at im (mem s) p"
  shows "dir_node_at im m p"
proof (rule dir_node_at_frame [OF assms(8)])
  fix x assume x: "in_region p 184 x"
  have "\<not> in_region loc (length img) x"
    using disk_apart [OF assms(3,1,2,5,4)] x by (rule sep_not_in_region)
  moreover have "\<not> in_region nodes (184 * length files) x"
    using assms(7) x by (intro sep_not_in_region [of nodes _ p 184]) (simp_all add: sep_commute)
  ultimately show "m x = mem s x" using assms(6) by (simp add: disk_frame_def)
qed

text \<open>The memory for the file nodes.\<close>

lemma nodes_stage:
  assumes ready: "ready (add_mset (p, k) L) (184 * length files + 20 + r) (2 + c) t1"
    and files: "image_of img files" "length files \<le> 63" "\<forall>f \<in> set files. well_formed_file f \<and> fst f \<noteq> []"
    and disk: "disk_below loc img t1" and k: "184 \<le> unat k" and some: "files \<noteq> []"
  shows "\<exists>nodes m h. kmalloc (Suc n) (sizeof_fs_node * of_nat (length files)) t1 = Inr (nodes, t1\<lparr>mem := m, heaps := h\<rparr>)
    \<and> mountable loc nodes img files \<and> mounted im loc nodes img files 0 m \<and> disk_below loc img (t1\<lparr>mem := m, heaps := h\<rparr>)
    \<and> (\<exists>K. ready K r c (t1\<lparr>mem := m, heaps := h\<rparr>) \<and> (p, k) \<in># K) \<and> sep p 184 nodes (184 * length files)
    \<and> (\<forall>x. in_region p (unat k) x \<or> heap_low t1 x \<longrightarrow> m x = mem t1 x)
    \<and> (\<forall>x. heap_low t1 x \<longrightarrow> \<not> in_region nodes (184 * length files) x)"
proof -
  let ?n = "length files" and ?z = "sizeof_fs_node * of_nat (length files)"
  have img: "0 < length img" "length img < 4294967296" using files(1) disk_below_byte(2) [OF disk] by (auto simp: image_of_def)
  have z: "unat ?z = 184 * ?n"
    using files(2) unat_of_nat_small [of "184 * ?n"] by (simp add: sizeof_fs_node_def)
  then have "ready (add_mset (p, k) L) (unat ?z + 20 + r) (2 + c) t1" using ready by simp
  from fresh_block [OF this, of n] obtain nodes j m h where
    run: "kmalloc (Suc n) ?z t1 = Inr (nodes, t1\<lparr>mem := m, heaps := h\<rparr>)" and j: "?z \<le> j"
    and r2: "ready (add_mset (nodes, j) (add_mset (p, k) L)) r c (t1\<lparr>mem := m, heaps := h\<rparr>)"
      "heap_low (t1\<lparr>mem := m, heaps := h\<rparr>) = heap_low t1"
    and zero: "\<forall>x. in_region nodes (unat j) x \<longrightarrow> m x = 0"
    and same: "\<forall>q l x. (q, l) \<in># add_mset (p, k) L \<longrightarrow> in_region q (unat l) x \<longrightarrow> m x = mem t1 x"
      "\<forall>x. heap_low t1 x \<longrightarrow> m x = mem t1 x"
    by auto
  let ?t = "t1\<lparr>mem := m, heaps := h\<rparr>"
  have j: "184 * ?n \<le> unat j" using j z by (simp add: word_le_nat_alt)
  have d: "disk_below loc img ?t" using r2(2) same(2) img(1) by (intro disk_below_frame [OF disk]) simp_all
  have sep: "sep loc (length img) nodes (184 * ?n)"
    using j img(1) by (intro disk_apart [OF d r2(1), of nodes j]) simp_all
  have "m (nodes + of_nat (184 * i + length (fst (files ! i)))) = 0" if "i < ?n" for i
  proof -
    have "length (fst (files ! i)) < 64" using files(3) that by (auto simp: well_formed_file_def)
    then have "184 * i + length (fst (files ! i)) < 184 * ?n" using that by linarith
    then show ?thesis using zero j unat_lt_u32 [of j] by (intro zero [rule_format] in_region_of_nat) linarith+
  qed
  then have m0: "mounted im loc nodes img files 0 m" using d by (simp add: mounted_def disk_below_def loaded_def)
  have blk: "unat p + unat k < 4294967296" "unat nodes + unat j < 4294967296"
    using block_range(1) [OF r2(1)] by simp_all
  have "unat nodes + unat j \<le> unat p \<or> unat p + unat k \<le> unat nodes" using blocks_apart [OF r2(1), of p k] by simp
  moreover have "0 < 184 * ?n" using some by simp
  ultimately have "sep p 184 nodes (184 * ?n)"
    using blk j k by (elim disjE; intro sepI_above sepI_below; linarith)
  moreover have "\<exists>K. ready K r c ?t \<and> (p, k) \<in># K" using r2(1) by (intro exI [of _ "add_mset (nodes, j) (add_mset (p, k) L)"]) simp
  moreover have "mountable loc nodes img files" using files img(2) sep by (simp add: mountable_def)
  moreover have "\<forall>x. in_region p (unat k) x \<or> heap_low t1 x \<longrightarrow> m x = mem t1 x" using same by auto
  moreover have "\<not> in_region nodes (184 * ?n) x" if "heap_low t1 x" for x
    using block_range(3) [OF r2(1), of nodes j x] that r2(2) blk(2) j in_region_interval [of nodes "184 * ?n" x] by simp
  ultimately show ?thesis using run m0 d by blast
qed

lemma mount_result:
  assumes ready: "ready L (408 + (184 * length files + 20 + r)) (4 + (2 + c)) s"
    and names: "low_string s (str_initrd im) (bytes ''initrd'')" "low_string s (str_dev im) (bytes ''dev'')"
    and files: "image_of img files" "length files \<le> 63" "\<forall>f \<in> set files. well_formed_file f \<and> fst f \<noteq> []" "files \<noteq> []"
    and disk: "disk_below loc img s"
  shows "\<exists>t. initialise_initrd (Suc n) im loc s = Inr (initrd_root t, t) \<and> initrd_root t \<noteq> 0
    \<and> dir_node_at im (mem t) (initrd_root t) \<and> file_headers t = loc + 4 \<and> nroot_nodes t = of_nat (length files)
    \<and> mountable loc (root_nodes t) img files \<and> mounted im loc (root_nodes t) img files (length files) (mem t)
    \<and> (\<forall>x. heap_low s x \<longrightarrow> \<not> in_region loc (length img) x \<longrightarrow> mem t x = mem s x)"
proof -
  let ?n = "length files"
  have img: "0 < length img" using files(1) by (auto simp: image_of_def)
  define s0 where "s0 = s\<lparr>initrd_header := loc, file_headers := loc + sizeof_initrd_header\<rparr>"
  have s0: "ready L (408 + (184 * ?n + 20 + r)) (4 + (2 + c)) s0" "heap_low s0 = heap_low s" "mem s0 = mem s"
    "low_string s0 (str_initrd im) (bytes ''initrd'')" "low_string s0 (str_dev im) (bytes ''dev'')" "disk_below loc img s0"
    using ready names disk same_heap [of s0 s] by (simp_all add: s0_def low_string_def disk_below_def heap_low_def fun_eq_iff)
  from two_directories [OF s0(1,4,5), of n] obtain p k q l t1 where
    run1: "make_directories (Suc n) im s0 = Inr t1" and at: "dir_node_at im (mem t1) p" and k: "184 \<le> unat k"
    and r1: "ready (add_mset (q, l) (add_mset (p, k) L)) (184 * ?n + 20 + r) (2 + c) t1" "heap_low t1 = heap_low s0"
      "\<forall>x. heap_low s0 x \<longrightarrow> mem t1 x = mem s0 x"
    and f0: "initrd_root t1 = p" "initrd_header t1 = initrd_header s0" "file_headers t1 = file_headers s0"
    by blast
  have f1: "initrd_header t1 = loc" "file_headers t1 = loc + 4" using f0 by (simp_all add: s0_def sizeof_initrd_header_def)
  have d1: "disk_below loc img t1" using r1(2,3) img by (intro disk_below_frame [OF s0(6)]) simp_all
  have nf: "ld32 (mem t1) loc = of_nat ?n" using d1 files(1) by (intro loaded_nfiles) (simp_all add: disk_below_def)
  from r1(1) have "ready (add_mset (p, k) (add_mset (q, l) L)) (184 * ?n + 20 + r) (2 + c) t1" by (simp add: add_mset_commute)
  from nodes_stage [OF this files(1,2,3) d1 k files(4), of n im] obtain nodes m h K where
    run2: "kmalloc (Suc n) (sizeof_fs_node * of_nat ?n) t1 = Inr (nodes, t1\<lparr>mem := m, heaps := h\<rparr>)"
    and mt: "mountable loc nodes img files" "mounted im loc nodes img files 0 m"
    and d2: "disk_below loc img (t1\<lparr>mem := m, heaps := h\<rparr>)"
    and r2: "ready K r c (t1\<lparr>mem := m, heaps := h\<rparr>)" "(p, k) \<in># K"
    and sp: "sep p 184 nodes (184 * ?n)" and m: "\<forall>x. in_region p (unat k) x \<or> heap_low t1 x \<longrightarrow> m x = mem t1 x"
    and low: "\<forall>x. heap_low t1 x \<longrightarrow> \<not> in_region nodes (184 * ?n) x"
    by blast
  have nf2: "ld32 m loc = of_nat ?n" using d2 files(1) by (intro loaded_nfiles) (simp_all add: disk_below_def)
  define s3 where "s3 = t1\<lparr>mem := m, heaps := h\<rparr>\<lparr>root_nodes := nodes, nroot_nodes := of_nat ?n\<rparr>"
  have s3: "root_nodes s3 = nodes" "mem s3 = m" "file_headers s3 = loc + 4" "initrd_header s3 = loc" "initrd_root s3 = p"
    "nroot_nodes s3 = of_nat ?n" using f0(1) f1 by (simp_all add: s3_def)
  from mounted_loop [of loc s3 img files im 0 "Suc (2 ^ 32)"] obtain m' where
    loop: "file_nodes_loop (Suc (2 ^ 32)) im loc 0 s3 = Inr (s3\<lparr>mem := m'\<rparr>)"
    and mt': "mounted im loc nodes img files ?n m'" and fr: "disk_frame loc nodes img files m m'"
    using mt files(2) unfolding s3(1,2,3,4) by auto
  have "dir_node_at im m p" using m k in_region_mono [of p 184 _ "unat k"] by (intro dir_node_at_frame [OF at]) blast
  then have at': "dir_node_at im m' p" using root_kept [OF r2 d2 img k _ sp, of m' im] fr by simp
  have "m' x = mem s x" if "heap_low s x" "\<not> in_region loc (length img) x" for x
    using that fr low m r1(2,3) s0(2,3) by (simp add: disk_frame_def)
  moreover have "p \<noteq> 0" using block_range(2) [OF r2] by auto
  moreover have "initialise_initrd (Suc n) im loc s = Inr (p, s3\<lparr>mem := m'\<rparr>)"
    unfolding initialise_initrd_parts s0_def [symmetric] run1 bind_res_simps(2) f1(1) nf run2 prod.case
    using nf2 loop s3(5) by (simp add: s3_def f1(1) del: file_nodes_loop.simps)
  ultimately show ?thesis using mt(1) mt' at' s3 by (intro exI [of _ "s3\<lparr>mem := m'\<rparr>"]) simp
qed

end

interpretation kh: block_allocator heap_ready
  by unfold_locales
    (fact kmalloc_ready, fact ready_write, fact ready_block, fact ready_block, fact ready_block, fact ready_apart, fact heap_ready_cong)

section \<open>A new heap\<close>

text \<open>A heap that \<^verbatim>\<open>create_heap\<close> has just made in memory holding zeros.\<close>

lemma new_heap_ready:
  assumes boot: "kheap s = 0" and al: "start mod 0x1000 = 0" "fin mod 0x1000 = 0"
    and lay: "12 \<le> unat start" "unat start + 0x80000 + r + 20 \<le> unat fin" and c: "c < 0x20000"
    and null: "h_size (mem s) 0 < 20 \<or> fin - (start + 0x80000) < h_size (mem s) 0"
    and zero: "\<And>x. unat start + 0x80000 \<le> unat x \<Longrightarrow> unat x < unat fin \<Longrightarrow> mem s x = 0"
    and hp: "hp = placement_address s" "hp \<noteq> 0"
  shows "\<exists>t. create_heap n start fin mx sv ro s = Inr (hp, t) \<and> heap_ready {#} r c (t\<lparr>kheap := hp\<rparr>)
    \<and> heap_low (t\<lparr>kheap := hp\<rparr>) = (\<lambda>x. unat x < unat start) \<and> oa_array (hp_index (heaps t hp)) = start
    \<and> (\<forall>x. unat x < unat start \<longrightarrow> mem t x = mem s x)"
proof -
  let ?h = "start + 0x80000"
  have lay': "unat start + 0x80000 + 20 \<le> unat fin" using lay(2) by simp
  from create_heap_inv [OF boot al lay(1) lay' null, of n mx sv ro] obtain t where
    run: "create_heap n start fin mx sv ro s = Inr (hp, t)" and inv: "heap_inv [(fin - ?h, 1)] hp t"
    and ht: "heaps t hp = \<lparr>hp_index = \<lparr>oa_array = start, oa_size = 1, oa_max_size = HEAP_INDEX_SIZE,
          oa_less_than = Some header_t_less_than\<rparr>, hp_start_address = ?h, hp_end_address = fin,
        hp_max_address = mx, hp_supervisor = sv, hp_readonly = ro\<rparr>" unfolding hp(1) by blast
  have same: "in_region start (0x80000 + 12) x \<or> mem t x = mem s x" for x
    using create_heap_spec [OF boot al, of n mx sv ro] run by auto
  have lt: "unat start + (0x80000 + 12) \<le> 4294967296" using lay' unat_lt_u32 [of fin] by linarith
  have h: "unat ?h = unat start + 0x80000" using lt unat_add_lem32 [of start "0x80000"] by simp
  have n: "unat (fin - ?h) = unat fin - unat ?h" using h lay' by (intro unat_sub_lem32) simp
  have keep: "mem t x = mem s x" if "unat x < unat start \<or> unat start + (0x80000 + 12) \<le> unat x" for x
    using same [of x] that in_region_interval [OF lt, of x] by auto
  have ch: "chunk_at (mem t) fin ?h (fin - ?h, 1)" using heap_invD(3) [OF inv refl refl] by (simp add: ht)
  have "mem t x = 0" if "in_region (?h + 12) (unat (fin - ?h - 20)) x" for x
    using that payload_interval [OF ch, of x] n h lay' keep [of x] zero [of x] by simp
  then have "clean (mem t) ?h [(fin - ?h, 1)]" by simp
  moreover have "heap_inv [(fin - ?h, 1)] hp (t\<lparr>kheap := hp\<rparr>)"
    using inv by (simp add: heap_inv_def index_holds_def null_size_ok_def)
  moreover have "r + 20 \<le> unat (fin - ?h)" using n h lay(2) by simp
  ultimately have "heap_ready {#} r c (t\<lparr>kheap := hp\<rparr>)"
    using hp(2) c unfolding heap_ready_def
    by (intro conjI exI [of _ "[(fin - ?h, 1)]"] exI [of _ "fin - ?h"]) (simp_all add: ht HEAP_INDEX_SIZE_def)
  then show ?thesis using run ht keep by (auto simp: heap_low_def)
qed

section \<open>Properties\<close>

text \<open>
  C4. The ramdisk from end to end: mkinit packs the files, the image lies below a kernel heap whose holes hold zeros
  and that has room for the nodes, and \<^verbatim>\<open>initialise_initrd\<close> allocates and fills them. Then the root node it returns is
  a directory in which the file system layer finds every file by its name, and reading the node found at any offset
  gives back the packed contents.
\<close>
theorem initrd_serves_packed_files:
  fixes s :: "'a fs_scheme"
  assumes made: "mkinit_main junk files = Inr img" "length junk = 76 * 64" "length files \<le> 63"
    and files: "\<forall>f \<in> set files. well_formed_file f \<and> fst f \<noteq> []" "distinct (map fst files)"
    and heap: "heap_ready L (428 + 184 * length files) 6 s"
    and placed: "disk_below loc img s" "low_string s (str_initrd im) (bytes ''initrd'')" "low_string s (str_dev im) (bytes ''dev'')"
      "sep loc (length img) (str_dev im) 4"
    and image: "fn_initrd_read im \<noteq> 0" "fn_initrd_finddir im \<noteq> 0"
    and nth: "j < length files" "nm = fst (files ! j)" "nm \<noteq> bytes ''dev''"
    and name: "low_string s name nm" "sep loc (length img) name (Suc (length nm))"
    and buffer: "unat offset + unat sz < 4294967296" "sep loc (length img) buffer (unat sz)"
    and ys: "ys = take (unat sz) (drop (unat offset) (contents (files ! j)))"
  shows "\<exists>root t node u. initialise_initrd (Suc n) im loc s = Inr (root, t) \<and> root \<noteq> 0
    \<and> finddir_fs im root name t = Inr node
    \<and> read_fs im node offset sz buffer t = Inr (of_nat (length ys), u)
    \<and> (\<forall>k < length ys. mem u (buffer + of_nat k) = ys ! k)"
proof -
  have img: "image_of img files" using mkinit_image [of files junk] made files(1) by auto
  have ne: "files \<noteq> []" using nth(1) by auto
  have "408 + (184 * length files + 20 + 0) = 428 + 184 * length files" "4 + (2 + 0) = (6 :: nat)" by simp_all
  then have ready: "heap_ready L (408 + (184 * length files + 20 + 0)) (4 + (2 + 0)) s" using heap by metis
  from kh.mount_result [OF ready placed(2,3) img made(3) files(1) ne placed(1), of n] obtain t where
    run: "initialise_initrd (Suc n) im loc s = Inr (initrd_root t, t)" "initrd_root t \<noteq> 0"
    and at: "dir_node_at im (mem t) (initrd_root t)" and hs: "file_headers t = loc + 4" and nr: "nroot_nodes t = of_nat (length files)"
    and able: "mountable loc (root_nodes t) img files" and inv: "mounted im loc (root_nodes t) img files (length files) (mem t)"
    and same: "\<forall>x. heap_low s x \<longrightarrow> \<not> in_region loc (length img) x \<longrightarrow> mem t x = mem s x" by blast
  have kept: "cstr (mem t) a cs" if "low_string s a cs" "sep loc (length img) a (Suc (length cs))" for a cs
  proof (rule cstr_frame)
    show "cstr (mem s) a cs" using that(1) by (simp add: low_string_def)
    show "mem t x = mem s x" if "in_region a (Suc (length cs)) x" for x
      using same low_string_byte [OF \<open>low_string s a cs\<close> that] sep_not_in_region [OF \<open>sep loc _ a _\<close> that] by blast
    show "length cs < 4294967295" using that(1) by (simp add: low_string_def)
  qed
  have "cstr (mem t) name nm" "cstr (mem t) (str_dev im) (bytes ''dev'')"
    using kept [OF name] kept [OF placed(3)] placed(4) by (simp_all add: bytes_def numeral_eq_Suc)
  then have "initrd_finddir im (initrd_root t) name t = Inr (root_node t (of_nat j))"
    using files(2) nth nr by (intro mounted_lookup [OF able inv]) simp_all
  then have "finddir_fs im (initrd_root t) name t = Inr (root_node t (of_nat j))"
    using at image(2) by (simp add: finddir_fs_def dir_node_at_def FS_DIRECTORY_def)
  moreover obtain m where "read_fs im (root_node t (of_nat j)) offset sz buffer t = Inr (of_nat (length ys), t\<lparr>mem := m\<rparr>)"
    "\<forall>k < length ys. mem (t\<lparr>mem := m\<rparr>) (buffer + of_nat k) = ys ! k"
    using mounted_read [OF able inv hs image(1) nth(1) buffer ys] by auto
  ultimately show ?thesis using run by blast
qed

text \<open>A memory with an image, the strings of the kernel and a name to look up.\<close>

definition low_memory :: "u8 list \<Rightarrow> memory" where
  "low_memory img = (\<lambda>x. if in_region 0x10000 (length img) x then img ! unat (x - 0x10000) else
     (two_names(0x9110 := 105, 0x9111 := 110, 0x9112 := 105, 0x9113 := 116, 0x9114 := 114, 0x9115 := 100)) x)"

lemma disk_heap:
  assumes len: "length img = 4871"
  shows "\<exists>t. create_heap 0 0xC0000000 0xC0100000 0xCFFFF000 0 0 (fs0 (low_memory img) 0) = Inr (0x200000, t)
    \<and> heap_ready {#} 612 6 (t\<lparr>kheap := 0x200000\<rparr>) \<and> disk_below 0x10000 img (t\<lparr>kheap := 0x200000\<rparr>)
    \<and> low_string (t\<lparr>kheap := 0x200000\<rparr>) 0x9100 (bytes ''dev'') \<and> low_string (t\<lparr>kheap := 0x200000\<rparr>) 0x9110 (bytes ''initrd'')
    \<and> low_string (t\<lparr>kheap := 0x200000\<rparr>) 0xA000 [97]"
proof -
  let ?s = "fs0 (low_memory img) 0"
  have region: "in_region 0x10000 4871 x \<longleftrightarrow> 65536 \<le> unat x \<and> unat x < 70407" for x :: u32
    using in_region_interval [of "0x10000" 4871 x] by simp
  have s: "kheap ?s = 0" "placement_address ?s = 0x200000" by (simp_all add: fs0_def tasks.extend_def)
  have zero: "low_memory img x = 0" if "unat (0xC0000000 :: u32) + 0x80000 \<le> unat x" for x :: u32
    using that by (auto simp: low_memory_def two_names_def len region)
  have "h_size (mem ?s) 0 < 20" by (simp add: h_size_def ld32_def low_memory_def two_names_def len region)
  then obtain t where t: "create_heap 0 0xC0000000 0xC0100000 0xCFFFF000 0 0 ?s = Inr (0x200000, t)"
    and ready: "heap_ready {#} 612 6 (t\<lparr>kheap := 0x200000\<rparr>)"
    and arr: "oa_array (hp_index (heaps t 0x200000)) = 0xC0000000"
    and same: "\<forall>x. unat x < unat (0xC0000000 :: u32) \<longrightarrow> mem t x = mem ?s x"
    using new_heap_ready [OF s(1), of "0xC0000000" "0xC0100000" 612 6 "0x200000" 0 "0xCFFFF000" 0 0] s(2) zero by auto
  let ?t = "t\<lparr>kheap := 0x200000\<rparr>"
  have str: "low_string ?t a cs" if "cstr (mem ?s) a cs" "cs \<noteq> []" "length cs \<le> 128" "unat a < 65536" for a cs
  proof -
    have "unat x < unat (0xC0000000 :: u32)" if "in_region a (Suc (length cs)) x" for x
      using that \<open>unat a < 65536\<close> \<open>length cs \<le> 128\<close> in_region_interval [of a "Suc (length cs)" x] by simp
    then have "cstr (mem ?t) a cs" using same that by (intro cstr_frame [OF that(1)]) simp_all
    then show ?thesis using that arr by (simp add: low_string_def)
  qed
  have "cstr (mem ?s) 0x9100 (bytes ''dev'')" "cstr (mem ?s) 0x9110 (bytes ''initrd'')" "cstr (mem ?s) 0xA000 [97]"
    by (simp_all add: low_memory_def two_names_def bytes_def of_char_def len region)
  then have names: "low_string ?t 0x9100 (bytes ''dev'')" "low_string ?t 0x9110 (bytes ''initrd'')" "low_string ?t 0xA000 [97]"
    by (intro str; simp add: bytes_def)+
  have "loaded (mem ?s) 0x10000 img"
    by (simp add: loaded_def low_memory_def in_region_of_nat len unat_of_nat take_bit_nat_eq_self)
  then have disk: "disk_below 0x10000 img ?t" using same arr len by (simp add: disk_below_def loaded_def unat_add_of_nat)
  then show ?thesis using t ready names by blast
qed

theorem initrd_serves_packed_files_witness:
  "\<exists>img s hp root t node u. mkinit_main (replicate 4864 0) [([97], Some [1, 2, 3])] = Inr img
    \<and> create_heap 0 0xC0000000 0xC0100000 0xCFFFF000 0 0 (fs0 (low_memory img) 0) = Inr (hp, s)
    \<and> initialise_initrd 1 image0 0x10000 (s\<lparr>kheap := hp\<rparr>) = Inr (root, t)
    \<and> finddir_fs image0 root 0xA000 t = Inr node
    \<and> read_fs image0 node 1 10 0x20000 t = Inr (2, u) \<and> mem u 0x20000 = 2 \<and> mem u 0x20001 = 3"
proof -
  let ?files = "[([97], Some [1, 2, 3])] :: input_file list"
  obtain img where img: "mkinit_main (replicate 4864 0) ?files = Inr img" and im: "image_of img ?files"
    using mkinit_image [of ?files "replicate 4864 0"] by (auto simp: well_formed_file_def)
  have len: "length img = 4871" using im by (simp add: image_of_def contents_def)
  from disk_heap [OF len] obtain t where t: "create_heap 0 0xC0000000 0xC0100000 0xCFFFF000 0 0 (fs0 (low_memory img) 0) = Inr (0x200000, t)"
    and ready: "heap_ready {#} 612 6 (t\<lparr>kheap := 0x200000\<rparr>)" and disk: "disk_below 0x10000 img (t\<lparr>kheap := 0x200000\<rparr>)"
    and names: "low_string (t\<lparr>kheap := 0x200000\<rparr>) 0x9100 (bytes ''dev'')"
      "low_string (t\<lparr>kheap := 0x200000\<rparr>) 0x9110 (bytes ''initrd'')" "low_string (t\<lparr>kheap := 0x200000\<rparr>) 0xA000 [97]" by blast
  let ?t = "t\<lparr>kheap := 0x200000\<rparr>"
  have ready: "heap_ready {#} (428 + 184 * length ?files) 6 ?t" using ready by simp
  have "\<exists>root t' node u. initialise_initrd (Suc 0) image0 0x10000 ?t = Inr (root, t') \<and> root \<noteq> 0
    \<and> finddir_fs image0 root 0xA000 t' = Inr node
    \<and> read_fs image0 node 1 10 0x20000 t' = Inr (of_nat (length [2, 3 :: u8]), u)
    \<and> (\<forall>k < length [2, 3 :: u8]. mem u (0x20000 + of_nat k) = [2, 3] ! k)"
    by (rule initrd_serves_packed_files [where j = 0 and files = ?files and nm = "[97]" and img = img, OF img _ _ _ _ ready disk])
      (use names len in \<open>simp_all add: well_formed_file_def sep_def contents_def bytes_def image0_def\<close>)
  then obtain root t' node u where "initialise_initrd (Suc 0) image0 0x10000 ?t = Inr (root, t')" "finddir_fs image0 root 0xA000 t' = Inr node"
    "read_fs image0 node 1 10 0x20000 t' = Inr (2, u)" "mem u 0x20000 = 2" "mem u 0x20001 = 3"
    by (fastforce simp: less_Suc_eq All_less_Suc)
  then show ?thesis using img t by fastforce
qed

end
