(* ===== verification/Keyboard.thy ===== *)
theory Keyboard
  imports Initrd
begin

text \<open>
  The keyboard driver, sys/keyboard.c: the key map of the US layout, the status of the control keys,
  and the circular buffer between the interrupt handler and \<^verbatim>\<open>keyboard_getchar\<close>. A \<^verbatim>\<open>keymap_t\<close> is a
  record, and a pointer to one an address into \<open>keymaps\<close>. The buffer is a list of 256
  bytes, its indices are 32-bit words as in the code.

  The results: as long as fewer than 255 characters wait the buffer is a queue (locale \<open>fifo\<close>), for
  any interleaving of key strokes and reads; keys that are not control keys enqueue the character
  of the case that the shift keys select. Two theorems record where the driver goes wrong.
\<close>

section \<open>Key maps\<close>

record keymap =
  scancodes :: "u8 list"
  shift_scancodes :: "u8 list"
  control_map :: "u8 list"
  controls :: u8

definition CONTROL :: u8 where "CONTROL = 0x1"
definition LSHIFT :: u8 where "LSHIFT = 0x8"
definition RSHIFT :: u8 where "RSHIFT = 0x10"
definition CAPSLOCK :: u8 where "CAPSLOCK = 0x20"
definition RELEASED_MASK :: u8 where "RELEASED_MASK = 0x80"

text \<open>An array initialiser: the elements that are not given are zero.\<close>

definition initialised :: "nat \<Rightarrow> u8 list \<Rightarrow> u8 list" where
  "initialised n xs = xs @ replicate (n - length xs) 0"

definition us :: keymap where
  "us = \<lparr>
     scancodes = initialised 128
       ([0, 27] @ bytes ''1234567890-='' @ [8]
        @ [9] @ bytes ''qwertyuiop[]'' @ [10]
        @ [0] @ bytes ''asdfghjkl;'' @ [92] @ bytes ''`''
        @ [0, 92] @ bytes ''zxcvbnm,./'' @ [0]
        @ bytes ''*''
        @ [0] @ bytes '' '' @ [0, 0, 0, 0, 0, 0, 0, 0, 0, 0, 0, 0, 0, 0, 0]
        @ bytes ''-'' @ [0, 0, 0] @ bytes ''+''),
     shift_scancodes = initialised 128
       ([0, 27] @ bytes ''!@#$%^&*()_+'' @ [8]
        @ [9] @ bytes ''QWERTYUIOP{}'' @ [10]
        @ [0] @ bytes ''ASDFGHJKL:'' @ [34] @ bytes ''~''
        @ [0] @ bytes ''|ZXCVBNM<>?'' @ [0]
        @ bytes ''*''
        @ [0] @ bytes '' '' @ [0, 0, 0, 0, 0, 0, 0, 0, 0, 0, 0, 0, 0, 0, 0]
        @ bytes ''-'' @ [0, 0, 0] @ bytes ''+''),
     control_map = [29, 56, 0, 42, 54, 58, 70, 69],
     controls = 0\<rparr>"

section \<open>The driver\<close>

record keyboard = fs +
  keymaps :: "u32 \<Rightarrow> keymap"
  current_layout :: u32
  keyboard_buffer_start :: u32
  keyboard_buffer_end :: u32
  keyboard_buffer :: "u8 list"

definition switch_layout :: "u32 \<Rightarrow> 'a keyboard_scheme \<Rightarrow> 'a keyboard_scheme" where
  "switch_layout layout s = s\<lparr>current_layout := layout\<rparr>"

text \<open>The argument is the address of the object \<^verbatim>\<open>us\<close>.\<close>

definition init_keyboard_driver :: "u32 \<Rightarrow> 'a keyboard_scheme \<Rightarrow> 'a keyboard_scheme" where
  "init_keyboard_driver us_addr s =
     (let s = register_interrupt_handler 33 Keyboard_handler s;
          s = switch_layout us_addr s
      in s\<lparr>keyboard_buffer_start := 0, keyboard_buffer_end := 0\<rparr>)"

definition keyboard_getchar :: "'a keyboard_scheme \<Rightarrow> u8 \<times> 'a keyboard_scheme" where
  "keyboard_getchar s =
     (if keyboard_buffer_start s \<noteq> keyboard_buffer_end s
      then (keyboard_buffer s ! unat (keyboard_buffer_start s),
            s\<lparr>keyboard_buffer_start := (keyboard_buffer_start s + 1) AND 255\<rparr>)
      else (0, s))"

text \<open>The two loops of the handler over the control map. The second one tells whether it returned.\<close>

fun release_loop :: "nat list \<Rightarrow> u8 \<Rightarrow> keymap \<Rightarrow> keymap" where
  "release_loop [] scancode km = km"
| "release_loop (i # is) scancode km =
     (if control_map km ! i = scancode AND NOT RELEASED_MASK
      then km\<lparr>controls := controls km AND NOT (push_bit i 1)\<rparr>
      else release_loop is scancode km)"

fun press_loop :: "nat list \<Rightarrow> u8 \<Rightarrow> keymap \<Rightarrow> bool \<times> keymap" where
  "press_loop [] scancode km = (False, km)"
| "press_loop (i # is) scancode km =
     (if control_map km ! i = scancode
      then if controls km AND push_bit i 1 \<noteq> 0
           then press_loop is scancode (km\<lparr>controls := controls km AND NOT (push_bit i 1)\<rparr>)
           else (True, km\<lparr>controls := controls km OR push_bit i 1\<rparr>)
      else press_loop is scancode km)"

text \<open>The end of the handler: store the character, unless the buffer looks full.\<close>

definition keyboard_put :: "u8 \<Rightarrow> 'a keyboard_scheme \<Rightarrow> 'a keyboard_scheme" where
  "keyboard_put c s =
     (if keyboard_buffer_end s \<noteq> keyboard_buffer_start s - 1
      then s\<lparr>keyboard_buffer := (keyboard_buffer s)[unat (keyboard_buffer_end s) := c],
             keyboard_buffer_end := (keyboard_buffer_end s + 1) AND 255\<rparr>
      else s)"

definition layout_scancodes :: "keymap \<Rightarrow> u8 list" where
  "layout_scancodes km =
     (if controls km AND (LSHIFT OR RSHIFT OR CAPSLOCK) \<noteq> 0 \<and> controls km AND CONTROL = 0
      then shift_scancodes km else scancodes km)"

definition set_layout :: "keymap \<Rightarrow> 'a keyboard_scheme \<Rightarrow> 'a keyboard_scheme" where
  "set_layout km s = s\<lparr>keymaps := (keymaps s)(current_layout s := km)\<rparr>"

definition keyboard_handler :: "'a keyboard_scheme \<Rightarrow> 'a keyboard_scheme" where
  "keyboard_handler s =
     (let scancode = inb 0x60 s;
          km = keymaps s (current_layout s)
      in if scancode AND RELEASED_MASK \<noteq> 0 then set_layout (release_loop [0..<5] scancode km) s
         else case press_loop [0..<8] scancode km of
           (True, km) \<Rightarrow> set_layout km s
         | (False, km) \<Rightarrow> keyboard_put (layout_scancodes km ! unat scancode) (set_layout km s))"

section \<open>Queues\<close>

text \<open>
  A bounded queue of characters seen from outside: \<open>items\<close> is what it holds. \<open>run\<close> performs a
  sequence of operations and collects what the reads return; \<open>spec_run\<close> does the same on a list.
\<close>

datatype 'c queue_op = Put 'c | Get

fun run :: "('c \<Rightarrow> 's \<Rightarrow> 's) \<Rightarrow> ('s \<Rightarrow> 'c \<times> 's) \<Rightarrow> 'c queue_op list \<Rightarrow> 's \<Rightarrow> 'c list \<times> 's" where
  "run put get [] s = ([], s)"
| "run put get (Put c # ops) s = run put get ops (put c s)"
| "run put get (Get # ops) s =
     (let (c, s) = get s; (cs, s) = run put get ops s in (c # cs, s))"

definition spec_get :: "'c \<Rightarrow> 'c list \<Rightarrow> 'c \<times> 'c list" where
  "spec_get nul xs = (case xs of [] \<Rightarrow> (nul, []) | c # xs \<Rightarrow> (c, xs))"

definition spec_run :: "'c \<Rightarrow> 'c queue_op list \<Rightarrow> 'c list \<Rightarrow> 'c list \<times> 'c list" where
  "spec_run nul = run (\<lambda>c xs. xs @ [c]) (spec_get nul)"

text \<open>No operation of the sequence meets a full queue.\<close>

fun never_full :: "nat \<Rightarrow> 'c queue_op list \<Rightarrow> nat \<Rightarrow> bool" where
  "never_full cap [] n \<longleftrightarrow> True"
| "never_full cap (Put c # ops) n \<longleftrightarrow> n < cap \<and> never_full cap ops (Suc n)"
| "never_full cap (Get # ops) n \<longleftrightarrow> never_full cap ops (n - 1)"

locale fifo =
  fixes put :: "'c \<Rightarrow> 's \<Rightarrow> 's" and get :: "'s \<Rightarrow> 'c \<times> 's"
    and items :: "'s \<Rightarrow> 'c list" and ok :: "'s \<Rightarrow> bool" and cap :: nat and nul :: 'c
  assumes put_ok: "ok s \<Longrightarrow> length (items s) < cap \<Longrightarrow> ok (put c s)"
    and put_items: "ok s \<Longrightarrow> length (items s) < cap \<Longrightarrow> items (put c s) = items s @ [c]"
    and get_ok: "ok s \<Longrightarrow> ok (snd (get s))"
    and get_items: "ok s \<Longrightarrow> (fst (get s), items (snd (get s))) = spec_get nul (items s)"
begin

lemma length_spec_get: "length (snd (spec_get nul xs)) = length xs - 1"
  by (simp add: spec_get_def split: list.split)

lemma run_refines:
  assumes "ok s" and "never_full cap ops (length (items s))"
  shows "ok (snd (run put get ops s))
    \<and> (fst (run put get ops s), items (snd (run put get ops s))) = spec_run nul ops (items s)"
  using assms
proof (induction ops arbitrary: s)
  case Nil
  then show ?case by (simp add: spec_run_def)
next
  case (Cons x ops)
  show ?case
  proof (cases x)
    case (Put c)
    then show ?thesis
      using Cons.IH [of "put c s"] Cons.prems put_ok [of s c] put_items [of s c] by (simp add: spec_run_def)
  next
    case Get
    let ?s = "snd (get s)"
    have items: "items ?s = snd (spec_get nul (items s))" and c: "fst (get s) = fst (spec_get nul (items s))"
      using get_items [OF Cons.prems(1)] by (metis fst_conv snd_conv)+
    have "never_full cap ops (length (items ?s))"
      using Cons.prems(2) Get items length_spec_get by simp
    from Cons.IH [OF get_ok [OF Cons.prems(1)] this] show ?thesis
      using Get items c by (auto simp: spec_run_def split: prod.splits)
  qed
qed

end

section \<open>The circular buffer is a queue\<close>

definition ring_ok :: "'a keyboard_scheme \<Rightarrow> bool" where
  "ring_ok s \<longleftrightarrow> unat (keyboard_buffer_start s) < 256 \<and> unat (keyboard_buffer_end s) < 256
     \<and> length (keyboard_buffer s) = 256"

definition ring_length :: "'a keyboard_scheme \<Rightarrow> nat" where
  "ring_length s = (unat (keyboard_buffer_end s) + 256 - unat (keyboard_buffer_start s)) mod 256"

definition ring_items :: "'a keyboard_scheme \<Rightarrow> u8 list" where
  "ring_items s = map (\<lambda>i. keyboard_buffer s ! ((unat (keyboard_buffer_start s) + i) mod 256)) [0..<ring_length s]"

lemma length_ring_items [simp]: "length (ring_items s) = ring_length s"
  by (simp add: ring_items_def)

lemma unat_and_255: "unat ((x :: u32) AND 255) = unat x mod 256"
proof -
  have "x AND 255 = take_bit 8 x" by (simp add: take_bit_eq_mask mask_eq_exp_minus_1)
  then show ?thesis by (simp add: take_bit_eq_mod unat_mod)
qed

lemma unat_inc_and_255:
  assumes "unat (x :: u32) < 256"
  shows "unat ((x + 1) AND 255) = Suc (unat x) mod 256"
  using assms unat_add_lem32 [of x 1] by (simp add: unat_and_255)

text \<open>
  Index arithmetic of the ring: \<open>a\<close> is the start, \<open>e\<close> the end.
\<close>

lemma ring_end: "a < 256 \<Longrightarrow> e < 256 \<Longrightarrow> (a + (e + 256 - a) mod 256) mod 256 = (e :: nat)"
  by (auto simp: mod_if)

lemma ring_put_length: "a < 256 \<Longrightarrow> e < 256 \<Longrightarrow> (e + 256 - a) mod 256 < 255 \<Longrightarrow>
    (Suc e mod 256 + 256 - a) mod 256 = Suc ((e + 256 - a) mod 256 :: nat)"
  by (auto simp: mod_if split: if_splits)

lemma ring_get_length: "a < 256 \<Longrightarrow> e < 256 \<Longrightarrow> a \<noteq> e \<Longrightarrow>
    Suc ((e + 256 - Suc a mod 256) mod 256) = ((e + 256 - a) mod 256 :: nat)"
  by (auto simp: mod_if split: if_splits)

lemma ring_slot:
  assumes "a < 256" and "e < 256" and "i < (e + 256 - a) mod 256"
  shows "(a + i) mod 256 \<noteq> (e :: nat)"
proof (cases "a \<le> e")
  case True
  then have "(e + 256 - a) mod 256 = e - a" using assms(2) by (simp add: mod_if)
  then show ?thesis using True assms by simp
next
  case False
  then have "(e + 256 - a) mod 256 = e + 256 - a" using assms(1) by simp
  then have "a + i < 512" and "a + i < e + 256" using assms by simp_all
  then show ?thesis using False by (simp add: mod_if) linarith
qed

lemma ring_full:
  assumes "a < 256" and "e < 256" and "0 < a"
  shows "(e + 256 - a) mod 256 = 255 \<longleftrightarrow> e = a - (1 :: nat)"
proof (cases "a \<le> e")
  case True
  then have "(e + 256 - a) mod 256 = e - a" using assms(2) by (simp add: mod_if)
  moreover have "e - a \<noteq> 255" and "e \<noteq> a - 1" using True assms by linarith+
  ultimately show ?thesis by simp
next
  case False
  then have "(e + 256 - a) mod 256 = e + 256 - a" using assms(1) by simp
  then show ?thesis using False assms by auto
qed

lemma ring_full_test:
  assumes "ring_ok s"
  shows "keyboard_buffer_end s = keyboard_buffer_start s - 1
    \<longleftrightarrow> ring_length s = 255 \<and> keyboard_buffer_start s \<noteq> 0"
proof (cases "keyboard_buffer_start s = 0")
  case True
  have "unat (- 1 :: u32) = 4294967295" by (simp add: unsigned_minus_1_eq_mask mask_eq_exp_minus_1)
  then have "keyboard_buffer_end s \<noteq> - 1" using assms by (auto simp: ring_ok_def)
  then show ?thesis using True by simp
next
  case False
  let ?a = "unat (keyboard_buffer_start s)" and ?e = "unat (keyboard_buffer_end s)"
  have a: "unat (keyboard_buffer_start s - 1) = ?a - 1" "0 < ?a"
    using False by (simp_all add: unat_dec unat_pos)
  then have "keyboard_buffer_end s = keyboard_buffer_start s - 1 \<longleftrightarrow> ?e = ?a - 1"
    by (metis word_unat_eq_iff)
  also have "\<dots> \<longleftrightarrow> (?e + 256 - ?a) mod 256 = 255"
    using assms a(2) by (simp add: ring_ok_def ring_full)
  finally show ?thesis using False by (simp add: ring_length_def)
qed

lemma ring_put:
  assumes "ring_ok s" and "ring_length s < 255"
  shows "ring_ok (keyboard_put c s)" and "ring_items (keyboard_put c s) = ring_items s @ [c]"
proof -
  let ?a = "unat (keyboard_buffer_start s)" and ?e = "unat (keyboard_buffer_end s)"
  have ae: "?a < 256" "?e < 256" and len: "length (keyboard_buffer s) = 256"
    using assms(1) by (simp_all add: ring_ok_def)
  have put: "keyboard_put c s = s\<lparr>keyboard_buffer := (keyboard_buffer s)[?e := c],
      keyboard_buffer_end := (keyboard_buffer_end s + 1) AND 255\<rparr>"
    using ring_full_test [OF assms(1)] assms(2) by (simp add: keyboard_put_def)
  show "ring_ok (keyboard_put c s)"
    using assms(1) by (simp add: put ring_ok_def unat_and_255)
  have "ring_length (keyboard_put c s) = Suc (ring_length s)"
    using ring_put_length [OF ae] assms(2) ae(2) by (simp add: put ring_length_def unat_inc_and_255)
  moreover have "(keyboard_buffer s)[?e := c] ! ((?a + i) mod 256) = keyboard_buffer s ! ((?a + i) mod 256)"
    if "i < ring_length s" for i
    using ring_slot [OF ae that [unfolded ring_length_def]] by (simp add: nth_list_update_neq [OF not_sym])
  moreover have "(keyboard_buffer s)[?e := c] ! ((?a + ring_length s) mod 256) = c"
    using ring_end [OF ae] ae(2) len by (simp add: ring_length_def)
  ultimately show "ring_items (keyboard_put c s) = ring_items s @ [c]"
    by (simp add: ring_items_def put)
qed

lemma ring_get:
  assumes "ring_ok s"
  shows "ring_ok (snd (keyboard_getchar s))"
    and "(fst (keyboard_getchar s), ring_items (snd (keyboard_getchar s))) = spec_get 0 (ring_items s)"
proof -
  let ?a = "unat (keyboard_buffer_start s)" and ?e = "unat (keyboard_buffer_end s)"
  have ae: "?a < 256" "?e < 256" using assms by (simp_all add: ring_ok_def)
  show "ring_ok (snd (keyboard_getchar s))"
    using assms by (simp add: keyboard_getchar_def ring_ok_def unat_and_255)
  show "(fst (keyboard_getchar s), ring_items (snd (keyboard_getchar s))) = spec_get 0 (ring_items s)"
  proof (cases "keyboard_buffer_start s = keyboard_buffer_end s")
    case True
    then show ?thesis by (simp add: keyboard_getchar_def ring_items_def ring_length_def spec_get_def)
  next
    case False
    then have ne: "?a \<noteq> ?e" by (simp add: word_unat_eq_iff)
    let ?t = "s\<lparr>keyboard_buffer_start := (keyboard_buffer_start s + 1) AND 255\<rparr>"
    have "ring_length s = Suc (ring_length ?t)"
      using ring_get_length [OF ae ne] ae(1) by (simp add: ring_length_def unat_inc_and_255)
    moreover have "(Suc ?a mod 256 + i) mod 256 = (?a + Suc i) mod 256" for i
      by (simp add: mod_add_left_eq)
    ultimately have "ring_items s = keyboard_buffer s ! ?a # ring_items ?t"
      using ae(1) by (simp add: ring_items_def unat_inc_and_255 map_upt_Suc del: upt_Suc)
    then show ?thesis using False by (simp add: keyboard_getchar_def spec_get_def)
  qed
qed

interpretation kbd: fifo keyboard_put keyboard_getchar ring_items ring_ok 255 0
  by unfold_locales (simp_all only: ring_put ring_get length_ring_items)

section \<open>Keys\<close>

text \<open>A layout as the handler expects it: eight different control keys, all press codes.\<close>

definition layout_ok :: "keymap \<Rightarrow> bool" where
  "layout_ok km \<longleftrightarrow> length (control_map km) = 8 \<and> distinct (control_map km)
     \<and> list_all (\<lambda>c. c < 0x80) (control_map km)"

lemma upt_split: "i < n \<Longrightarrow> [0..<n] = [0..<i] @ i # [Suc i..<n]"
  using upt_add_eq_append [of 0 i "n - i"] by (simp add: upt_conv_Cons)

lemma press_loop_other: "scancode \<notin> (\<lambda>i. control_map km ! i) ` set is \<Longrightarrow> press_loop is scancode km = (False, km)"
  by (induction "is") auto

lemma press_loop_plain:
  assumes "layout_ok km" and "code \<notin> set (control_map km)"
  shows "press_loop [0..<8] code km = (False, km)"
  using assms by (intro press_loop_other) (auto simp: layout_ok_def)

lemma press_loop_control:
  assumes "layout_ok km" and "i < 8"
  shows "press_loop [0..<8] (control_map km ! i) km =
    (if bit (controls km) i then (False, km\<lparr>controls := controls km AND NOT (push_bit i 1)\<rparr>)
     else (True, km\<lparr>controls := controls km OR push_bit i 1\<rparr>))"
proof -
  let ?c = "control_map km ! i"
  let ?km = "km\<lparr>controls := controls km AND NOT (push_bit i 1)\<rparr>"
  have before: "press_loop ([0..<j] @ xs) ?c km = press_loop xs ?c km" if "j \<le> i" for j xs
    using that
  proof (induction j arbitrary: xs)
    case (Suc j)
    then have "control_map km ! j \<noteq> ?c"
      using assms by (simp add: layout_ok_def nth_eq_iff_index_eq)
    then show ?case using Suc.IH [of "j # xs"] Suc.prems by simp
  qed simp
  have "?c \<noteq> control_map ?km ! j" if "j \<in> set [Suc i..<8]" for j
    using that assms by (simp add: layout_ok_def nth_eq_iff_index_eq)
  then have after: "press_loop [Suc i..<8] ?c ?km = (False, ?km)"
    by (intro press_loop_other) blast
  have "[0..<8] = [0..<i] @ i # [Suc i..<8]"
    using assms(2) by (rule upt_split)
  then have "press_loop [0..<8] ?c km = press_loop (i # [Suc i..<8]) ?c km"
    using before [OF order_refl] by simp
  moreover have "controls km AND push_bit i 1 \<noteq> 0 \<longleftrightarrow> bit (controls km) i"
    by (simp add: and_exp_eq_0_iff_not_bit push_bit_of_1)
  ultimately show ?thesis using after by simp
qed

lemma release_loop_control:
  assumes "layout_ok km" and "i < 5" and "scancode AND NOT RELEASED_MASK = control_map km ! i"
  shows "release_loop [0..<5] scancode km = km\<lparr>controls := controls km AND NOT (push_bit i 1)\<rparr>"
proof -
  have before: "release_loop ([0..<j] @ xs) scancode km = release_loop xs scancode km" if "j \<le> i" for j xs
    using that
  proof (induction j arbitrary: xs)
    case (Suc j)
    then have "control_map km ! j \<noteq> control_map km ! i"
      using assms by (simp add: layout_ok_def nth_eq_iff_index_eq)
    then show ?case using Suc.IH [of "j # xs"] Suc.prems assms(3) by simp
  qed simp
  have "[0..<5] = [0..<i] @ i # [Suc i..<5]"
    using assms(2) by (rule upt_split)
  then show ?thesis using before [OF order_refl, of "i # [Suc i..<5]"] assms(3) by simp
qed

lemma RELEASED_MASK_bit: "RELEASED_MASK = 2 ^ 7"
  by (simp add: RELEASED_MASK_def)

lemma bit_RELEASED_MASK [simp]: "bit RELEASED_MASK n \<longleftrightarrow> n = 7"
  unfolding RELEASED_MASK_bit bit_exp_iff by auto

lemma press_code_bit:
  assumes "(c :: u8) < 0x80"
  shows "\<not> bit c 7"
proof -
  have "unat c div 128 = 0" using assms by (simp add: word_less_nat_alt)
  then have "drop_bit 7 c = 0" by (simp add: word_unat_eq_iff drop_bit_eq_div unat_div)
  then show ?thesis by (simp add: bit_iff_odd_drop_bit)
qed

lemma press_code: "(c :: u8) < 0x80 \<Longrightarrow> c AND RELEASED_MASK = 0"
  using press_code_bit [of c] by (intro bit_word_eqI) (auto simp: bit_simps)

lemma release_code:
  assumes "(c :: u8) < 0x80"
  shows "(c OR RELEASED_MASK) AND RELEASED_MASK \<noteq> 0" and "(c OR RELEASED_MASK) AND NOT RELEASED_MASK = c"
proof -
  show "(c OR RELEASED_MASK) AND NOT RELEASED_MASK = c"
    using press_code_bit [OF assms] by (intro bit_word_eqI) (auto simp: bit_simps)
  have "bit ((c OR RELEASED_MASK) AND RELEASED_MASK) 7" by (simp add: bit_simps)
  then show "(c OR RELEASED_MASK) AND RELEASED_MASK \<noteq> 0" by (auto simp: RELEASED_MASK_def)
qed

lemma set_layout_same [simp]: "set_layout (keymaps s (current_layout s)) s = s"
  by (simp add: set_layout_def)

lemma ring_set_layout [simp]:
  "ring_ok (set_layout km s) = ring_ok s" "ring_items (set_layout km s) = ring_items s"
  "ring_length (set_layout km s) = ring_length s"
  by (simp_all add: set_layout_def ring_ok_def ring_items_def ring_length_def)

lemma modifier_bits: "LSHIFT = 2 ^ 3" "RSHIFT = 2 ^ 4" "CAPSLOCK = 2 ^ 5" "CONTROL = 2 ^ 0"
  by (simp_all add: LSHIFT_def RSHIFT_def CAPSLOCK_def CONTROL_def)

lemma shift_bits:
  "x AND (LSHIFT OR RSHIFT OR CAPSLOCK) = 0 \<longleftrightarrow> \<not> bit x 3 \<and> \<not> bit x 4 \<and> \<not> bit x 5"
  "x AND CONTROL = 0 \<longleftrightarrow> \<not> bit x 0"
  by (simp_all only: modifier_bits bit.conj_disj_distrib or_eq_0_iff and_exp_eq_0_iff_not_bit)

lemma toggle_bit: "\<not> bit (x :: u8) i \<Longrightarrow> (x OR push_bit i 1) AND NOT (push_bit i 1) = x"
  by (rule bit_word_eqI) (auto simp: bit_simps)

text \<open>The handler on a control key, pressed and released.\<close>

lemma control_press:
  assumes "layout_ok (keymaps s (current_layout s))" and "i < 8"
    and "inb 0x60 s = control_map (keymaps s (current_layout s)) ! i"
  shows "keyboard_handler s =
    (let km = keymaps s (current_layout s); on = km\<lparr>controls := controls km OR push_bit i 1\<rparr>;
         off = km\<lparr>controls := controls km AND NOT (push_bit i 1)\<rparr>
     in if bit (controls km) i then keyboard_put (layout_scancodes off ! unat (inb 0x60 s)) (set_layout off s)
        else set_layout on s)"
proof -
  have "inb 0x60 s < 0x80" using assms by (auto simp: layout_ok_def list_all_length)
  then show ?thesis
    using press_code [of "inb 0x60 s"] press_loop_control [OF assms(1,2)] assms(3)
    by (simp add: keyboard_handler_def Let_def)
qed

lemma control_release:
  assumes "layout_ok km" and "i < 5" and "keymaps s (current_layout s) = km"
    and "inb 0x60 s = control_map km ! i OR RELEASED_MASK"
  shows "keyboard_handler s = set_layout (km\<lparr>controls := controls km AND NOT (push_bit i 1)\<rparr>) s"
proof -
  have "control_map km ! i < 0x80" using assms(1,2) by (auto simp: layout_ok_def list_all_length)
  from release_code [OF this] show ?thesis
    using release_loop_control [OF assms(1,2)] assms(3,4) by (simp add: keyboard_handler_def Let_def)
qed

lemma put_keymaps [simp]: "keymaps (keyboard_put c s) = keymaps s"
  by (simp add: keyboard_put_def)

section \<open>The meaning of scancodes\<close>

text \<open>
  What scancodes mean, told from the map alone. \<open>modifiers\<close> are the control keys that are on. A press turns its
  control key over, a release turns it off if it is one of the first five; \<open>key_text\<close> is what a scancode
  gives: a press gives a character unless it turns a control key on.
\<close>

definition modifiers :: "keymap \<Rightarrow> nat set" where
  "modifiers km = set (filter (bit (controls km)) [0..<8])"

definition key_index :: "keymap \<Rightarrow> u8 \<Rightarrow> nat set" where
  "key_index km code = set (filter (\<lambda>i. control_map km ! i = code) [0..<8])"

definition key_status :: "keymap \<Rightarrow> u8 \<Rightarrow> nat set \<Rightarrow> nat set" where
  "key_status km code on =
     (if code < 0x80 then (on - key_index km code) \<union> (key_index km code - on)
      else on - key_index km (code - 0x80) \<inter> {..<5})"

definition key_char :: "keymap \<Rightarrow> u8 \<Rightarrow> nat set \<Rightarrow> u8" where
  "key_char km code on =
     (if (3 \<in> on \<or> 4 \<in> on \<or> 5 \<in> on) \<and> 0 \<notin> on then shift_scancodes km else scancodes km) ! unat code"

definition key_text :: "keymap \<Rightarrow> u8 \<Rightarrow> nat set \<Rightarrow> u8 list" where
  "key_text km code on =
     (if code < 0x80 \<and> key_index km code \<subseteq> on then [key_char km code (key_status km code on)] else [])"

fun typed :: "keymap \<Rightarrow> nat set \<Rightarrow> u8 list \<Rightarrow> u8 list" where
  "typed km on [] = []"
| "typed km on (code # codes) = key_text km code on @ typed km (key_status km code on) codes"

lemma typed_snoc: "typed km on (codes @ [code]) = typed km on codes @ key_text km code (fold (key_status km) codes on)"
  by (induction codes arbitrary: on) simp_all

lemma key_index_at: "layout_ok km \<Longrightarrow> i < 8 \<Longrightarrow> key_index km (control_map km ! i) = {i}"
  by (auto simp: key_index_def layout_ok_def nth_eq_iff_index_eq)

lemma key_index_none: "layout_ok km \<Longrightarrow> code \<notin> set (control_map km) \<Longrightarrow> key_index km code = {}"
  by (auto simp: key_index_def layout_ok_def)

lemma modifiers_iff: "i \<in> modifiers km \<longleftrightarrow> i < 8 \<and> bit (controls km) i"
  by (auto simp: modifiers_def)

lemma modifiers_set: "i < 8 \<Longrightarrow> modifiers (km\<lparr>controls := controls km OR 2 ^ i\<rparr>) = insert i (modifiers km)"
  by (auto simp: modifiers_iff bit_simps)

lemma modifiers_clear: "modifiers (km\<lparr>controls := controls km AND NOT (2 ^ i)\<rparr>) = modifiers km - {i}"
  by (auto simp: modifiers_iff bit_simps)

lemma layout_scancodes_char: "layout_scancodes km ! unat code = key_char km code (modifiers km)"
  by (auto simp: layout_scancodes_def key_char_def shift_bits modifiers_iff)

lemma key_char_same: "key_char (km\<lparr>controls := w\<rparr>) = key_char km"
  by (simp add: key_char_def fun_eq_iff)

lemma release_loop_other:
  "scancode AND NOT RELEASED_MASK \<notin> (\<lambda>i. control_map km ! i) ` set is \<Longrightarrow> release_loop is scancode km = km"
  by (induction "is") auto

lemma release_code_bits:
  assumes "\<not> (code :: u8) < 0x80"
  shows "code AND RELEASED_MASK \<noteq> 0" and "code AND NOT RELEASED_MASK = code - 0x80"
proof -
  have "unat code < 256" by (rule order_less_le_trans [OF unsigned_less]) simp
  then have "unat code div 128 = 1" using assms by (simp add: word_less_nat_alt)
  then have "drop_bit 7 code = 1" by (simp add: word_unat_eq_iff drop_bit_eq_div unat_div)
  then have b: "bit code 7" by (simp add: bit_iff_odd_drop_bit)
  then have m: "code AND RELEASED_MASK = RELEASED_MASK" by (intro bit_word_eqI) (auto simp: bit_simps)
  then show "code AND RELEASED_MASK \<noteq> 0" by (simp add: RELEASED_MASK_def)
  have "code = (code AND NOT RELEASED_MASK) OR RELEASED_MASK" using b by (intro bit_word_eqI) (auto simp: bit_simps)
  also have "\<dots> = (code AND NOT RELEASED_MASK) + RELEASED_MASK"
    by (rule disjunctive_add [symmetric]) (auto simp: bit_simps)
  finally show "code AND NOT RELEASED_MASK = code - 0x80" by (simp add: RELEASED_MASK_def eq_diff_eq)
qed

text \<open>The handler does what the map says: it stores the text of the scancode and keeps the status of the control keys.\<close>

lemma keyboard_handler_press:
  assumes km: "km = keymaps s (current_layout s)" "layout_ok km" and code: "code = inb 0x60 s" "code < 0x80"
  shows "\<exists>w. keyboard_handler s = fold keyboard_put (key_text km code (modifiers km)) (set_layout (km\<lparr>controls := w\<rparr>) s)
    \<and> modifiers (km\<lparr>controls := w\<rparr>) = key_status km code (modifiers km)"
proof (cases "code \<in> set (control_map km)")
  case True
  then obtain i where i: "i < 8" "code = control_map km ! i" using km(2) by (auto simp: in_set_conv_nth layout_ok_def)
  have ix: "key_index km code = {i}" using key_index_at [OF km(2) i(1)] i(2) by simp
  note press = control_press [of s i, folded km(1), OF km(2) i(1), folded code(1), OF i(2), unfolded Let_def]
  show ?thesis
  proof (cases "bit (controls km) i")
    case True
    then have "i \<in> modifiers km" using i(1) by (simp add: modifiers_iff)
    then show ?thesis
      using True ix code(2) by (intro exI [of _ "controls km AND NOT (push_bit i 1)"])
        (simp add: press key_text_def key_status_def layout_scancodes_char modifiers_clear key_char_same)
  next
    case False
    then have "i \<notin> modifiers km" by (simp add: modifiers_iff)
    then show ?thesis
      using False ix code(2) i(1) by (intro exI [of _ "controls km OR push_bit i 1"])
        (simp add: press key_text_def key_status_def modifiers_set)
  qed
next
  case False
  then have "keyboard_handler s = keyboard_put (layout_scancodes km ! unat code) s"
    using press_code [OF code(2)] press_loop_plain [OF km(2) False] code(1) km(1)
    by (simp add: keyboard_handler_def Let_def)
  then show ?thesis
    using key_index_none [OF km(2) False] code(2) km(1) by (intro exI [of _ "controls km"])
      (simp add: key_text_def key_status_def layout_scancodes_char)
qed

lemma keyboard_handler_release:
  assumes km: "km = keymaps s (current_layout s)" "layout_ok km" and code: "code = inb 0x60 s" "\<not> code < 0x80"
  shows "\<exists>w. keyboard_handler s = set_layout (km\<lparr>controls := w\<rparr>) s
    \<and> modifiers (km\<lparr>controls := w\<rparr>) = key_status km code (modifiers km)"
proof -
  note bits = release_code_bits [OF code(2)]
  have run: "keyboard_handler s = set_layout (release_loop [0..<5] code km) s"
    using bits(1) code(1) km(1) by (simp add: keyboard_handler_def Let_def)
  show ?thesis
  proof (cases "\<exists>i < 5. control_map km ! i = code - 0x80")
    case True
    then obtain i where i: "i < 5" "control_map km ! i = code - 0x80" by blast
    then have "key_index km (code - 0x80) \<inter> {..<5} = {i}" using key_index_at [OF km(2), of i] by auto
    then show ?thesis
      using release_loop_control [OF km(2) i(1)] i(2) bits(2) code(2) run
      by (intro exI [of _ "controls km AND NOT (push_bit i 1)"]) (simp add: key_status_def modifiers_clear)
  next
    case False
    then have "release_loop [0..<5] code km = km" by (intro release_loop_other) (auto simp: bits(2))
    moreover have "key_index km (code - 0x80) \<inter> {..<5} = {}" using False by (auto simp: key_index_def)
    ultimately show ?thesis using run code(2) by (intro exI [of _ "controls km"]) (simp add: key_status_def)
  qed
qed

lemma keyboard_handler_keys:
  assumes "km = keymaps s (current_layout s)" and "layout_ok km" and "code = inb 0x60 s"
  shows "\<exists>w. keyboard_handler s = fold keyboard_put (key_text km code (modifiers km)) (set_layout (km\<lparr>controls := w\<rparr>) s)
    \<and> modifiers (km\<lparr>controls := w\<rparr>) = key_status km code (modifiers km)"
proof (cases "code < 0x80")
  case True
  then show ?thesis using keyboard_handler_press [OF assms] by blast
next
  case False
  then show ?thesis using keyboard_handler_release [OF assms False] by (simp add: key_text_def)
qed

lemma ring_put_ok: "ring_ok s \<Longrightarrow> ring_ok (keyboard_put c s)"
  by (auto simp: keyboard_put_def ring_ok_def unat_and_255)

section \<open>Properties\<close>

text \<open>
  C7. The circular buffer is a first-in first-out queue: whatever the order in which characters arrive and are
  read, as long as none arrives while 255 wait, the reads return what they return from a list (0 when it is
  empty), and what remains in the buffer is what remains of the list.
\<close>
theorem keyboard_buffer_refines_queue:
  assumes "ring_ok s" and "never_full 255 ops (length (ring_items s))"
    and "run keyboard_put keyboard_getchar ops s = (cs, s')"
  shows "ring_ok s' \<and> spec_run 0 ops (ring_items s) = (cs, ring_items s')"
  using kbd.run_refines [OF assms(1,2)] assms(3) by simp

definition keyboard0 :: "u8 \<Rightarrow> u32 \<Rightarrow> u32 \<Rightarrow> keyboard" where
  "keyboard0 code a e = fs.extend ((fs0 (\<lambda>_. 0) 0)\<lparr>inp := \<lambda>_. code\<rparr>)
     \<lparr>keymaps = \<lambda>_. us, current_layout = 0x104000, keyboard_buffer_start = a,
      keyboard_buffer_end = e, keyboard_buffer = replicate 256 0\<rparr>"

lemma keyboard0_simps [simp]:
  "inb p (keyboard0 code a e) = code" "keymaps (keyboard0 code a e) l = us"
  "current_layout (keyboard0 code a e) = 0x104000" "keyboard_buffer_start (keyboard0 code a e) = a"
  "keyboard_buffer_end (keyboard0 code a e) = e" "keyboard_buffer (keyboard0 code a e) = replicate 256 0"
  by (simp_all add: keyboard0_def fs.extend_def inb_def fs0_def tasks.extend_def)

lemma us_control_map [simp]: "control_map us = [29, 56, 0, 42, 54, 58, 70, 69]" "controls us = 0"
  by (simp_all add: us_def)

lemma us_layout_ok: "layout_ok us"
  by (simp add: layout_ok_def)

theorem keyboard_buffer_refines_queue_witness:
  "fst (run keyboard_put keyboard_getchar [Put 97, Get, Put 98, Put 99, Get, Get, Get] (keyboard0 0 255 255))
    = [97, 98, 99, 0]"
proof -
  let ?ops = "[Put 97, Get, Put 98, Put 99, Get, Get, Get] :: u8 queue_op list"
  obtain cs t where r: "run keyboard_put keyboard_getchar ?ops (keyboard0 0 255 255) = (cs, t)"
    by (metis surj_pair)
  have e: "ring_items (keyboard0 0 255 255) = []" and ok: "ring_ok (keyboard0 0 255 255)"
    by (simp_all add: ring_items_def ring_length_def ring_ok_def)
  have "spec_run 0 ?ops (ring_items (keyboard0 0 255 255)) = (cs, ring_items t)"
    using keyboard_buffer_refines_queue [OF ok _ r] by (simp add: e)
  then show ?thesis unfolding r by (simp add: e spec_run_def spec_get_def)
qed

text \<open>
  C30. Pressing a key that is not a control key, while fewer than 255 characters wait, appends exactly one character
  to the buffer: the one of the shifted map if a shift key or caps lock is on and control is off, otherwise the
  one of the normal map; the key map and its status bits do not change.
\<close>
theorem key_press_enqueues:
  assumes "inb 0x60 s = code" and "code < 0x80" and "km = keymaps s (current_layout s)"
    and "layout_ok km" and "code \<notin> set (control_map km)" and "ring_ok s" and "ring_length s < 255"
  shows "ring_ok (keyboard_handler s) \<and> keymaps (keyboard_handler s) = keymaps s
    \<and> ring_items (keyboard_handler s) = ring_items s @
      [(if (bit (controls km) 3 \<or> bit (controls km) 4 \<or> bit (controls km) 5) \<and> \<not> bit (controls km) 0
        then shift_scancodes km else scancodes km) ! unat code]"
proof -
  have run: "keyboard_handler s = keyboard_put (layout_scancodes km ! unat code) s"
    using press_code [OF assms(2)] press_loop_plain [OF assms(4,5)] assms(1,3)
    by (simp add: keyboard_handler_def Let_def)
  have "layout_scancodes km = (if (bit (controls km) 3 \<or> bit (controls km) 4 \<or> bit (controls km) 5)
      \<and> \<not> bit (controls km) 0 then shift_scancodes km else scancodes km)"
    by (simp add: layout_scancodes_def shift_bits)
  then show ?thesis using ring_put [OF assms(6,7)] unfolding run by (simp add: keyboard_put_def)
qed

theorem key_press_enqueues_witness:
  "ring_items (keyboard_handler (keyboard0 30 7 7)) = [97]"
  using key_press_enqueues [of "keyboard0 30 7 7" 30 us] us_layout_ok
  by (simp add: ring_items_def ring_length_def ring_ok_def us_def initialised_def bytes_def of_char_def)

text \<open>
  C37. Pressing a control key whose bit is clear sets the bit and enqueues nothing, and releasing one of the first
  five then restores the key map exactly; but pressing one whose bit is set, as the keyboard does by itself
  while the key is held, clears the bit and goes on to enqueue the key as if it were a character.
\<close>
theorem control_key_toggles:
  assumes "km = keymaps s (current_layout s)" and "layout_ok km" and "i < 8"
    and "inb 0x60 s = control_map km ! i" and "t = keyboard_handler s"
  shows "(\<not> bit (controls km) i \<longrightarrow> ring_items t = ring_items s
      \<and> keymaps t = (keymaps s)(current_layout s := km\<lparr>controls := controls km OR push_bit i 1\<rparr>)
      \<and> (i < 5 \<longrightarrow> keymaps (keyboard_handler (t\<lparr>inp := \<lambda>_. control_map km ! i OR RELEASED_MASK\<rparr>)) = keymaps s))
    \<and> (bit (controls km) i \<longrightarrow>
        keymaps t = (keymaps s)(current_layout s := km\<lparr>controls := controls km AND NOT (push_bit i 1)\<rparr>)
      \<and> (ring_ok s \<and> ring_length s < 255 \<longrightarrow> length (ring_items t) = Suc (length (ring_items s))))"
proof (intro conjI impI)
  let ?on = "km\<lparr>controls := controls km OR push_bit i 1\<rparr>"
  note press = control_press [of s i, folded assms(1), OF assms(2,3,4), unfolded Let_def]
  {
    assume clear: "\<not> bit (controls km) i"
    then have t: "t = set_layout ?on s" using press assms(5) by simp
    show "ring_items t = ring_items s" by (simp add: t)
    show "keymaps t = (keymaps s)(current_layout s := ?on)" by (simp add: t set_layout_def)
    let ?t = "t\<lparr>inp := \<lambda>_. control_map km ! i OR RELEASED_MASK\<rparr>"
    assume "i < 5"
    then have "keyboard_handler ?t = set_layout (?on\<lparr>controls := controls ?on AND NOT (push_bit i 1)\<rparr>) ?t"
      using assms(2) by (intro control_release) (simp_all add: t set_layout_def inb_def layout_ok_def)
    then show "keymaps (keyboard_handler ?t) = keymaps s"
      using toggle_bit [OF clear] assms(1) by (simp add: t set_layout_def)
  next
    assume "bit (controls km) i"
    then have t: "t = keyboard_put (layout_scancodes (km\<lparr>controls := controls km AND NOT (push_bit i 1)\<rparr>) ! unat (inb 0x60 s))
        (set_layout (km\<lparr>controls := controls km AND NOT (push_bit i 1)\<rparr>) s)"
      using press assms(5) by simp
    show "keymaps t = (keymaps s)(current_layout s := km\<lparr>controls := controls km AND NOT (push_bit i 1)\<rparr>)"
      unfolding t by (simp add: set_layout_def)
    assume "ring_ok s \<and> ring_length s < 255"
    then show "length (ring_items t) = Suc (length (ring_items s))"
      unfolding t by (simp add: ring_put(2) del: length_ring_items)
  }
qed

theorem control_key_toggles_witness:
  "keymaps (keyboard_handler (keyboard0 42 0 0)) 0x104000 = us\<lparr>controls := 8\<rparr>"
  using control_key_toggles [of us "keyboard0 42 0 0" 3 "keyboard_handler (keyboard0 42 0 0)"] us_layout_ok
  by simp

text \<open>
  The test for a full buffer misses the case that reading starts at index 0: the 256th character is stored,
  the indices become equal, and all 255 waiting characters are lost. At every other position a full buffer
  stays as it is.
\<close>
theorem full_buffer_at_zero_is_lost:
  assumes "ring_ok s" and "ring_length s = 255"
  shows "ring_items (keyboard_put c s) = (if keyboard_buffer_start s = 0 then [] else ring_items s)"
proof (cases "keyboard_buffer_start s = 0")
  case True
  have "unat (keyboard_buffer_end s) = 255"
    using assms True by (auto simp: ring_ok_def ring_length_def)
  then have "ring_length (keyboard_put c s) = 0"
    using assms ring_full_test [OF assms(1)] True
    by (simp add: keyboard_put_def ring_length_def unat_inc_and_255)
  then show ?thesis using True by (simp add: ring_items_def)
next
  case False
  then show ?thesis using assms ring_full_test [OF assms(1)] by (simp add: keyboard_put_def)
qed

theorem full_buffer_at_zero_is_lost_witness:
  "length (ring_items (keyboard0 0 0 255)) = 255 \<and> ring_items (keyboard_put 97 (keyboard0 0 0 255)) = []"
  using full_buffer_at_zero_is_lost [of "keyboard0 0 0 255" 97] by (simp add: ring_ok_def ring_length_def)

text \<open>
  From index 58 on the tables of the US layout are one entry short of their comments: the keypad's minus and plus
  (74 and 78) give nothing, and 73 and 77 (page up and right arrow) give minus and plus.
\<close>
theorem us_table_shifted:
  "scancodes us ! 73 = of_char CHR ''-'' \<and> scancodes us ! 74 = 0
    \<and> scancodes us ! 77 = of_char CHR ''+'' \<and> scancodes us ! 78 = 0
    \<and> length (scancodes us) = 128 \<and> length (shift_scancodes us) = 128"
  by (simp add: us_def initialised_def bytes_def)

end
