(* ===== verification/Syscall.thy ===== *)
theory Syscall
  imports Interrupts
begin

text \<open>
  The system call interface, sys/syscall.c and include/syscall.h. The table of three calls
  is \<open>syscalls\<close>; a call gets the five registers ebx, ecx, edx, esi and edi on its stack and uses the
  first one only. The three functions are void, so what they leave in eax is not
  specified: it is the argument \<open>ret\<close>. \<open>syscall1\<close> is the stub that \<^verbatim>\<open>DEFN_SYSCALL1\<close> defines: it
  raises interrupt 0x80 with the number in eax and the parameter in ebx.
\<close>

section \<open>Definitions\<close>

definition num_syscalls :: u32 where "num_syscalls = 3"

definition syscalls :: "u32 \<Rightarrow> u32 \<Rightarrow> 'a interrupts_scheme \<Rightarrow> ('a interrupts_scheme, 'a interrupts_scheme) result" where
  "syscalls n arg s =
     (if n = 0 then ends (monitor_write arg s)
      else if n = 1 then Inr (monitor_write_hex arg s)
      else if n = 2 then Inr (monitor_write_dec arg s)
      else Inl (Undefined ''syscalls index''))"

definition syscall_handler :: "u32 \<Rightarrow> registers \<Rightarrow> 'a interrupts_scheme
    \<Rightarrow> ('a interrupts_scheme, registers \<times> 'a interrupts_scheme) result" where
  "syscall_handler ret regs s =
     (if num_syscalls \<le> r_eax regs then Inr (regs, s)
      else bind_res (syscalls (r_eax regs) (r_ebx regs) s) (\<lambda>s. Inr (regs\<lparr>r_eax := ret\<rparr>, s)))"

definition initialise_syscalls :: "'a interrupts_scheme \<Rightarrow> u8 \<times> 'a interrupts_scheme" where
  "initialise_syscalls s = (0, register_interrupt_handler 0x80 Syscall_handler s)"

definition syscall1 :: "'a interrupts_scheme handler_call \<Rightarrow> u32 \<Rightarrow> u32 \<Rightarrow> registers \<Rightarrow> 'a interrupts_scheme
    \<Rightarrow> ('a interrupts_scheme, u32 \<times> 'a interrupts_scheme) result" where
  "syscall1 call num p1 regs s =
     bind_res (isr_handler call (regs\<lparr>r_eax := num, r_ebx := p1, r_int_no := push_byte 128\<rparr>) s)
       (\<lambda>(regs, s). Inr (r_eax regs, s))"

text \<open>
  The other stubs that can be expanded, with no, three and four parameters. (\<^verbatim>\<open>DEFN_SYSCALL2\<close> has an instruction that does
  not exist, and the parameter list of \<^verbatim>\<open>DEFN_SYSCALL5\<close> lacks the types it uses.)
\<close>

definition syscall0 :: "'a interrupts_scheme handler_call \<Rightarrow> u32 \<Rightarrow> registers \<Rightarrow> 'a interrupts_scheme
    \<Rightarrow> ('a interrupts_scheme, u32 \<times> 'a interrupts_scheme) result" where
  "syscall0 call num regs s =
     bind_res (isr_handler call (regs\<lparr>r_eax := num, r_int_no := push_byte 128\<rparr>) s) (\<lambda>(regs, s). Inr (r_eax regs, s))"

definition syscall3 :: "'a interrupts_scheme handler_call \<Rightarrow> u32 \<Rightarrow> u32 \<Rightarrow> u32 \<Rightarrow> u32 \<Rightarrow> registers \<Rightarrow> 'a interrupts_scheme
    \<Rightarrow> ('a interrupts_scheme, u32 \<times> 'a interrupts_scheme) result" where
  "syscall3 call num p1 p2 p3 regs s =
     bind_res (isr_handler call
         (regs\<lparr>r_eax := num, r_ebx := p1, r_ecx := p2, r_edx := p3, r_int_no := push_byte 128\<rparr>) s)
       (\<lambda>(regs, s). Inr (r_eax regs, s))"

definition syscall4 :: "'a interrupts_scheme handler_call \<Rightarrow> u32 \<Rightarrow> u32 \<Rightarrow> u32 \<Rightarrow> u32 \<Rightarrow> u32 \<Rightarrow> registers \<Rightarrow> 'a interrupts_scheme
    \<Rightarrow> ('a interrupts_scheme, u32 \<times> 'a interrupts_scheme) result" where
  "syscall4 call num p1 p2 p3 p4 regs s =
     bind_res (isr_handler call
         (regs\<lparr>r_eax := num, r_ebx := p1, r_ecx := p2, r_edx := p3, r_esi := p4, r_int_no := push_byte 128\<rparr>) s)
       (\<lambda>(regs, s). Inr (r_eax regs, s))"

section \<open>Dispatch\<close>

text \<open>Interrupt 0x80 with any registers: the number in eax selects the call, which gets ebx.\<close>

lemma int80_dispatch:
  assumes "interrupt_handlers s 0x80 = Some Syscall_handler" and "call Syscall_handler = syscall_handler ret"
    and "r_int_no regs = push_byte 128"
  shows "bind_res (isr_handler call regs s) (\<lambda>(regs, s). Inr (r_eax regs, s)) =
    (if num_syscalls \<le> r_eax regs then Inr (r_eax regs, s)
     else bind_res (syscalls (r_eax regs) (r_ebx regs) s) (\<lambda>s. Inr (ret, s)))"
  using isr_dispatch [of regs 128 s Syscall_handler call] assms by (simp add: syscall_handler_def bind_res_assoc)

lemma syscall1_dispatch:
  assumes "interrupt_handlers s 0x80 = Some Syscall_handler" and "call Syscall_handler = syscall_handler ret"
  shows "syscall1 call num p1 regs s =
    (if num_syscalls \<le> num then Inr (num, s)
     else bind_res (syscalls num p1 s) (\<lambda>s. Inr (ret, s)))"
  unfolding syscall1_def by (subst int80_dispatch [of s call ret, OF assms]) simp_all

text \<open>The calls of the kernel take one parameter, so the stubs with more of them do the same, and the one without passes on ebx.\<close>

lemma syscall_stubs_agree:
  assumes "interrupt_handlers s 0x80 = Some Syscall_handler" and "call Syscall_handler = syscall_handler ret"
  shows "syscall3 call num p1 p2 p3 regs s = syscall1 call num p1 regs s"
    and "syscall4 call num p1 p2 p3 p4 regs s = syscall1 call num p1 regs s"
    and "syscall0 call num regs s = syscall1 call num (r_ebx regs) regs s"
  unfolding syscall0_def syscall3_def syscall4_def syscall1_dispatch [of s call ret, OF assms]
  by (subst int80_dispatch [of s call ret, OF assms]; simp)+

section \<open>Properties\<close>

text \<open>
  C23. Once \<open>initialise_syscalls\<close> has run, the stubs reach the right function through interrupt 0x80, although the
  number the stub pushes is sign-extended: call 0 prints the string, call 1 the number in hexadecimal, call 2 in
  decimal, each exactly once and with nothing else changed; a call with a number from 3 on is ignored and returns
  its own number.
\<close>
theorem syscalls_reach_monitor:
  assumes "call Syscall_handler = syscall_handler ret" and "s = snd (initialise_syscalls s0)"
    and "cstr (mem s0) p cs" and "cursor_ok s0" and "length cs < 4294967295"
    and "\<And>x. in_region p (Suc (length cs)) x \<Longrightarrow> \<not> in_video x" and "3 \<le> n"
  shows "syscall1 call 0 p regs s = Inr (ret, monitor_puts cs s)
    \<and> syscall1 call 1 k regs s = Inr (ret, monitor_puts (bytes ''0x'' @ hexadecimal (unat k)) s)
    \<and> syscall1 call 2 k regs s = Inr (ret, if k < 0x80000000 then monitor_puts (decimal (unat k)) s else s)
    \<and> syscall1 call n k regs s = Inr (n, s)"
proof -
  have h: "interrupt_handlers s 0x80 = Some Syscall_handler" and mem: "mem s = mem s0" and cur: "cursor_ok s"
    using assms(2,4) by (simp_all add: initialise_syscalls_def cursor_ok_def register_interrupt_handler_def)
  have "monitor_write p s = Some (monitor_puts cs s)"
    using assms(3,5,6) mem cur by (intro monitor_write_string) simp_all
  then show ?thesis
    using syscall1_dispatch [of s call ret, OF h assms(1)] assms(7)
    by (simp add: word_le_nat_alt num_syscalls_def syscalls_def ends_def monitor_write_hex_hexadecimal monitor_write_dec_decimal)
qed

theorem syscalls_reach_monitor_witness:
  "syscall1 (\<lambda>_. syscall_handler 7) 2 42 regs0 (snd (initialise_syscalls interrupts0))
     = Inr (7, monitor_puts (decimal 42) (snd (initialise_syscalls interrupts0)))
   \<and> syscall1 (\<lambda>_. syscall_handler 7) 3 42 regs0 (snd (initialise_syscalls interrupts0))
     = Inr (3, snd (initialise_syscalls interrupts0))"
proof -
  have "\<not> in_video x" if "in_region 0x1000 (Suc (length [])) x" for x
    using that in_region_Suc [of 1 "0x1000" x] by (simp add: low_not_video)
  moreover have "cstr (mem interrupts0) 0x1000 []" "cursor_ok interrupts0"
    by (simp_all add: interrupts0_def monitor.extend_def monitor0_def cursor_ok_def)
  ultimately show ?thesis
    using syscalls_reach_monitor [of "\<lambda>_. syscall_handler 7" 7 _ interrupts0 "0x1000" "[]" 3 regs0 42, OF refl refl]
    by simp
qed

end
