(* ===== verification/Boot.thy ===== *)
theory Boot
  imports Keyboard Syscall "HOL-Library.Sublist"
begin

text \<open>
  sys/main.c: the start of the kernel, the table of the interrupt handlers it registers, and the
  loop that echoes the keyboard on the screen while the timer switches tasks. What the C code takes from outside is in \<open>environment\<close>:
  the addresses of the image (\<open>env_layout\<close>, \<open>env_image\<close>, \<open>env_us\<close>, \<open>env_hello\<close>, the label in
  \<^verbatim>\<open>switch_to_user_mode\<close>), the flags at that point, the registers the first system call saves,
  the value a void function leaves in eax, and what follows the buffer of the \<open>k\<close>-th log line on the
  stack. A \<^verbatim>\<open>struct multiboot\<close> is read from the raw memory (mods_count at 20, mods_addr at 24).

  The main results: the early part of the start ends and leaves its messages on the screen, a start without a
  ramdisk halts, the loop of a kernel with interrupts on prints what is typed in order, and the loop that the start ends in
  hears nothing, because interrupts are off in it.
\<close>

section \<open>The start\<close>

record kernel = keyboard +
  failure :: u8

record environment =
  env_layout :: layout
  env_image :: image
  env_us :: u32
  env_hello :: u32
  env_after :: "nat \<Rightarrow> u8 list"
  env_eflags :: u32
  env_resume :: u32
  env_regs :: registers
  env_ret :: u32

definition mods_count :: "memory \<Rightarrow> u32 \<Rightarrow> u32" where "mods_count m mboot = ld32 m (mboot + 20)"
definition mods_addr :: "memory \<Rightarrow> u32 \<Rightarrow> u32" where "mods_addr m mboot = ld32 m (mboot + 24)"

text \<open>The handlers by name; \<open>eip\<close> is what \<^verbatim>\<open>read_eip\<close> returns in a timer interrupt.\<close>

definition kernel_call :: "u32 \<Rightarrow> u32 \<Rightarrow> 'a kernel_scheme handler_call" where
  "kernel_call eip ret h regs s =
     (case h of
        Page_fault \<Rightarrow> page_fault regs s
      | Timer_callback \<Rightarrow> Inr (regs, timer_callback eip s)
      | Keyboard_handler \<Rightarrow> Inr (regs, keyboard_handler s)
      | Syscall_handler \<Rightarrow> syscall_handler ret regs s)"

text \<open>A line of the log, \<open>[OK]\<close> or \<open>[FL]\<close> by the value of \<open>failure\<close>.\<close>

definition log_line :: "u8 list \<Rightarrow> string \<Rightarrow> 'a kernel_scheme \<Rightarrow> ('a kernel_scheme, 'a kernel_scheme) result" where
  "log_line after message s = monitor_write_padded after (bytes message) (if failure s = 0 then 1 else 0) s"

definition banner :: "u8 list" where
  "banner = bytes ''Fotix v0.1'' @ [0x0A] @ bytes ''Copyright (c) 2016 Fotis Koutoulakis'' @ [0x0A]
     @ bytes ''http://www.fotiskoutoulakis.com'' @ [0x0A]"

text \<open>\<open>kernel_start\<close> up to the search for the ramdisk.\<close>

definition kernel_early ::
  "environment \<Rightarrow> u32 \<Rightarrow> 'a kernel_scheme \<Rightarrow> ('a kernel_scheme, 'a kernel_scheme) result" where
  "kernel_early env initial_stack s =
     (let s = s\<lparr>initial_esp := initial_stack\<rparr>;
          s = monitor_clear s;
          s = monitor_puts banner s;
          s = monitor_put 0x0A s;
          (f, s) = init_descriptor_tables (env_layout env) s;
          s = s\<lparr>failure := f\<rparr>
      in bind_res (log_line (env_after env 0) ''Initializing descriptor tables'' s) (\<lambda>s.
         let s = s\<lparr>iflag := True\<rparr>
         in bind_res (init_timer 50 s) (\<lambda>(f, s).
         let s = s\<lparr>failure := f\<rparr>
         in log_line (env_after env 1) ''Initializing timer'' s)))"

definition find_ramdisk ::
  "environment \<Rightarrow> u32 \<Rightarrow> 'a kernel_scheme \<Rightarrow> ('a kernel_scheme, u32 \<times> 'a kernel_scheme) result" where
  "find_ramdisk env mboot_ptr s =
     bind_res (ASSERT (0 < mods_count (mem s) mboot_ptr) ''sys/main.c'' 72 ''mboot_ptr->mods_count > 0'' s) (\<lambda>_.
     let initrd_location = ld32 (mem s) (mods_addr (mem s) mboot_ptr);
         initrd_end = ld32 (mem s) (mods_addr (mem s) mboot_ptr + 4)
     in bind_res (monitor_write_padded (env_after env 2) (bytes ''Looking for initial ramdisk'') 1 s) (\<lambda>s.
        Inr (initrd_location, s\<lparr>placement_address := initrd_end\<rparr>)))"

definition kernel_services ::
  "nat \<Rightarrow> environment \<Rightarrow> u32 \<Rightarrow> 'a kernel_scheme \<Rightarrow> ('a kernel_scheme, 'a kernel_scheme) result" where
  "kernel_services n env initrd_location s =
     bind_res (initialise_paging n s) (\<lambda>(f, s).
     bind_res (log_line (env_after env 3) ''Initializing paging'' (s\<lparr>failure := f\<rparr>)) (\<lambda>s.
     bind_res (initialise_tasking n s) (\<lambda>(f, s).
     bind_res (log_line (env_after env 4) ''Initializing scheduling'' (s\<lparr>failure := f\<rparr>)) (\<lambda>s.
     bind_res (initialise_initrd n (env_image env) initrd_location s) (\<lambda>(root, s).
     let s = s\<lparr>fs_root := root\<rparr>;
         s = s\<lparr>failure := (if fs_root s = 0 then 1 else 0)\<rparr>
     in bind_res (log_line (env_after env 5) ''Initializing ramdisk'' s) (\<lambda>s.
     let (f, s) = initialise_syscalls s
     in bind_res (log_line (env_after env 6) ''Initializing kernel system call interface'' (s\<lparr>failure := f\<rparr>)) (\<lambda>s.
     Inr (init_keyboard_driver (env_us env) s))))))))"

text \<open>
  The whole start up to the endless loop; the timer cannot interrupt the first system
  call because interrupts are off, so the value of \<open>read_eip\<close> plays no role there.
\<close>

definition kernel_start ::
  "nat \<Rightarrow> environment \<Rightarrow> u32 \<Rightarrow> u32 \<Rightarrow> 'a kernel_scheme \<Rightarrow> ('a kernel_scheme, 'a kernel_scheme) result" where
  "kernel_start n env mboot_ptr initial_stack s =
     bind_res (kernel_early env initial_stack s) (\<lambda>s.
     bind_res (find_ramdisk env mboot_ptr s) (\<lambda>(initrd_location, s).
     bind_res (kernel_services n env initrd_location s) (\<lambda>s.
     let s = switch_to_user_mode (env_eflags env) (env_resume env) s
     in bind_res (syscall1 (kernel_call 0 (env_ret env)) 0 (env_hello env) (env_regs env) s) (\<lambda>(r, s). Inr s))))"

text \<open>One round of the loop at the end.\<close>

definition echo_round :: "'a kernel_scheme \<Rightarrow> 'a kernel_scheme" where
  "echo_round s = (let (c, s) = keyboard_getchar s in if c \<noteq> 0 then monitor_put c s else s)"

section \<open>Frames of the early start\<close>

definition same_console :: "'a monitor_scheme \<Rightarrow> 'a monitor_scheme \<Rightarrow> bool" where
  "same_console s t \<longleftrightarrow> mem t = mem s \<and> cursor_x t = cursor_x s \<and> cursor_y t = cursor_y s"

lemma same_consoleD:
  assumes "same_console s t"
  shows "terminal_of t = terminal_of s" and "cursor_ok t = cursor_ok s"
  using assms by (simp_all add: same_console_def terminal_of_def cursor_ok_def)

lemma fold_keeps:
  assumes "\<And>x s. f (g x s) = f s"
  shows "f (fold g xs s) = f s"
  using assms by (induction xs arbitrary: s) auto

lemma init_descriptor_tables_console: "same_console s (snd (init_descriptor_tables ly s))"
proof -
  have gdt: "mem (snd (init_gdt ly s)) = mem s" "cursor_x (snd (init_gdt ly s)) = cursor_x s"
    "cursor_y (snd (init_gdt ly s)) = cursor_y s" for s :: "'a dtables_scheme"
    by (simp_all add: init_gdt_def gdt_set_gate_def write_tss_def gdt_flush_def tss_flush_def Let_def)
  have idt: "mem (snd (init_idt ly s)) = mem s" "cursor_x (snd (init_idt ly s)) = cursor_x s"
    "cursor_y (snd (init_idt ly s)) = cursor_y s" for s :: "'a dtables_scheme"
    by (simp_all add: init_idt_def remap_pic_def isr_gates_def irq_gates_def idt_set_gate_def idt_flush_def Let_def
        outb_def fold_keeps [of mem] fold_keeps [of cursor_x] fold_keeps [of cursor_y])
  show ?thesis
    using gdt idt by (simp add: same_console_def init_descriptor_tables_def init_gdt_def init_idt_def Let_def)
qed

definition blank_terminal :: terminal where
  "blank_terminal = \<lparr>tcells = replicate 2000 0xF20, tx = 0, ty = 0\<rparr>"

lemma monitor_clear_blank:
  "terminal_of (monitor_clear s) = blank_terminal" "cursor_ok (monitor_clear s)"
  "\<not> in_video x \<Longrightarrow> mem (monitor_clear s) x = mem s x"
  "monitor.more (monitor_clear s) = monitor.more s"
proof -
  have "map (\<lambda>k. ld16 (fold put_blank [0..<2000] (mem s)) (cell k)) [0..<2000] = replicate 2000 0xF20"
    by (rule replicate_eqI) (auto simp: put_blank_fold blank_eq)
  then show "terminal_of (monitor_clear s) = blank_terminal"
    by (simp add: monitor_clear_def blank_terminal_def terminal_of_def)
  show "cursor_ok (monitor_clear s)" by (simp add: monitor_clear_def cursor_ok_def)
  show "mem (monitor_clear s) x = mem s x" if "\<not> in_video x"
    using that by (auto simp: monitor_clear_def put_blank_def st16_cell_outside intro!: fold_video_outside)
  show "monitor.more (monitor_clear s) = monitor.more s" by (simp add: monitor_clear_def)
qed

text \<open>
  \<open>shows_after s t cs\<close>: \<open>t\<close> is a state that the console has reached from \<open>s\<close> by printing \<open>cs\<close>, with no
  change outside the video memory.
\<close>

definition shows_after :: "'a monitor_scheme \<Rightarrow> u8 list \<Rightarrow> 'a monitor_scheme \<Rightarrow> bool" where
  "shows_after s cs t \<longleftrightarrow> cursor_ok t \<and> terminal_of t = fold term_put cs (terminal_of s)
     \<and> (\<forall>x. \<not> in_video x \<longrightarrow> mem t x = mem s x)"

lemma shows_after_refl: "cursor_ok s \<Longrightarrow> shows_after s [] s"
  by (simp add: shows_after_def)

lemma shows_after_puts:
  assumes "shows_after s cs t"
  shows "shows_after s (cs @ ds) (monitor_puts ds t)"
proof -
  have t: "cursor_ok t" using assms by (simp add: shows_after_def)
  have "terminal_of (monitor_puts ds t) = fold term_put ds (terminal_of t)" "cursor_ok (monitor_puts ds t)"
    "console_frame t (monitor_puts ds t)"
    using vga.puts_view [OF t, of ds] vga.puts_ok [OF t, of ds] vga.puts_frame [OF t, of ds]
    unfolding monitor_puts_def by blast+
  then show ?thesis using assms by (simp add: shows_after_def console_frame_def)
qed

lemma shows_after_same:
  assumes "shows_after s cs t" and "same_console t u"
  shows "shows_after s cs u"
  using assms same_consoleD [OF assms(2)] by (simp add: shows_after_def same_console_def)

lemma log_line_result:
  assumes "shows_after s cs t" and "length message \<le> 80" and "0 \<notin> set (bytes message)"
  shows "\<exists>u. log_line after message t = Inr u
    \<and> shows_after s (cs @ padded_line (bytes message) (if failure t = 0 then 1 else 0)
        @ takeWhile (\<lambda>c. c \<noteq> 0) after) u
    \<and> monitor.more u = monitor.more t \<and> iflag u = iflag t"
proof (intro exI conjI)
  let ?cs = "padded_line (bytes message) (if failure t = 0 then 1 else 0) @ takeWhile (\<lambda>c. c \<noteq> 0) after"
  have t: "cursor_ok t" using assms(1) by (simp add: shows_after_def)
  show "log_line after message t = Inr (monitor_puts ?cs t)"
    unfolding log_line_def using assms(2,3) by (intro monitor_write_padded_eq) (simp_all add: bytes_def)
  show "shows_after s (cs @ ?cs) (monitor_puts ?cs t)" by (rule shows_after_puts [OF assms(1)])
  show "monitor.more (monitor_puts ?cs t) = monitor.more t" "iflag (monitor_puts ?cs t) = iflag t"
    using monitor_puts_frame [OF t, of ?cs] by (simp_all only: console_frame_def)
qed

lemma interrupt_handlers_more:
  "monitor.more t = monitor.more s \<Longrightarrow> interrupt_handlers t = interrupt_handlers s"
  by (cases s; cases t) simp

lemma init_timer_result:
  "\<exists>os. init_timer 50 s = Inr (0, s\<lparr>interrupt_handlers := (interrupt_handlers s)(32 := Some Timer_callback), outs := os\<rparr>)"
  by (rule exI) (simp add: init_timer_def register_interrupt_handler_def outb_def Let_def)

text \<open>
  The text of the early start, spelled out; behind each log line comes what stands behind its buffer on the
  stack, up to the next NUL.
\<close>

definition early_text :: "environment \<Rightarrow> u8 list" where
  "early_text env =
     bytes ''Fotix v0.1'' @ [10] @ bytes ''Copyright (c) 2016 Fotis Koutoulakis'' @ [10]
     @ bytes ''http://www.fotiskoutoulakis.com'' @ [10, 10]
     @ bytes ''Initializing descriptor tables.............................................[OK]'' @ [10]
     @ takeWhile (\<lambda>c. c \<noteq> 0) (env_after env 0)
     @ bytes ''Initializing timer.........................................................[OK]'' @ [10]
     @ takeWhile (\<lambda>c. c \<noteq> 0) (env_after env 1)"

lemma early_text_lines:
  "early_text env = banner @ [0x0A]
     @ padded_line (bytes ''Initializing descriptor tables'') 1 @ takeWhile (\<lambda>c. c \<noteq> 0) (env_after env 0)
     @ padded_line (bytes ''Initializing timer'') 1 @ takeWhile (\<lambda>c. c \<noteq> 0) (env_after env 1)"
  by (simp add: early_text_def banner_def padded_line_def bytes_def numeral_eq_Suc)

lemma kernel_early_result:
  fixes s :: "'a kernel_scheme"
  shows "\<exists>t. kernel_early env initial_stack s = Inr t \<and> iflag t
    \<and> cursor_ok t \<and> terminal_of t = fold term_put (early_text env) blank_terminal
    \<and> (\<forall>x. \<not> in_video x \<longrightarrow> mem t x = mem s x)
    \<and> interrupt_handlers t = (\<lambda>_. None)(32 := Some Timer_callback)"
proof -
  define s1 where "s1 = monitor_clear (s\<lparr>initial_esp := initial_stack\<rparr>)"
  define s2 where "s2 = monitor_puts (banner @ [0x0A]) s1"
  define s3 where "s3 = (snd (init_descriptor_tables (env_layout env) s2))\<lparr>failure := 0\<rparr>"
  have s1: "terminal_of s1 = blank_terminal" "cursor_ok s1" "\<And>x. \<not> in_video x \<Longrightarrow> mem s1 x = mem s x"
    by (simp_all add: s1_def monitor_clear_blank)
  have "shows_after s1 (banner @ [0x0A]) s2"
    using shows_after_puts [OF shows_after_refl [OF s1(2)], of "banner @ [0x0A]"] by (simp add: s2_def)
  moreover have "same_console s2 s3"
    using init_descriptor_tables_console [of s2 "env_layout env"] by (simp add: s3_def same_console_def)
  ultimately have "shows_after s1 (banner @ [0x0A]) s3" by (rule shows_after_same)
  from log_line_result [OF this, of "''Initializing descriptor tables''" "env_after env 0"]
  obtain s4 where s4: "log_line (env_after env 0) ''Initializing descriptor tables'' s3 = Inr s4"
    "shows_after s1 (banner @ [0x0A] @ padded_line (bytes ''Initializing descriptor tables'') 1
        @ takeWhile (\<lambda>c. c \<noteq> 0) (env_after env 0)) s4"
    "monitor.more s4 = monitor.more s3"
    by (auto simp: s3_def bytes_def)
  have ih3: "interrupt_handlers s3 = (\<lambda>_. None)" by (simp add: s3_def init_descriptor_tables_simps)
  have "interrupt_handlers s4 = (\<lambda>_. None)" using interrupt_handlers_more [OF s4(3)] ih3 by simp
  then obtain os where tim: "init_timer 50 (s4\<lparr>iflag := True\<rparr>) = Inr (0, s4\<lparr>iflag := True,
      interrupt_handlers := (\<lambda>_. None)(32 := Some Timer_callback), outs := os\<rparr>)"
    using init_timer_result [of "s4\<lparr>iflag := True\<rparr>"] by auto
  let ?s5 = "s4\<lparr>iflag := True, interrupt_handlers := (\<lambda>_. None)(32 := Some Timer_callback), outs := os, failure := 0\<rparr>"
  have "same_console s4 ?s5" by (simp add: same_console_def)
  from log_line_result [OF shows_after_same [OF s4(2) this], of "''Initializing timer''" "env_after env 1"]
  obtain s6 where s6: "log_line (env_after env 1) ''Initializing timer'' ?s5 = Inr s6"
    "shows_after s1 (early_text env) s6" "monitor.more s6 = monitor.more ?s5" "iflag s6 = iflag ?s5"
    by (auto simp: bytes_def early_text_lines)
  have "kernel_early env initial_stack s = Inr s6"
    using s4(1) tim s6(1)
    by (simp add: kernel_early_def Let_def s1_def [symmetric] s2_def s3_def monitor_puts_def
        init_descriptor_tables_simps case_prod_beta)
  moreover have "interrupt_handlers s6 = (\<lambda>_. None)(32 := Some Timer_callback)" "iflag s6"
    using interrupt_handlers_more [OF s6(3)] s6(4) by simp_all
  ultimately show ?thesis using s6(2) s1 by (simp add: shows_after_def)
qed

section \<open>The loop with the keyboard\<close>

text \<open>
  An interrupt of the keyboard: the controller offers \<open>code\<close> at port 0x60, and the stub
  calls \<^verbatim>\<open>irq_handler\<close>.
\<close>

definition keyboard_irq :: "u32 \<Rightarrow> u32 \<Rightarrow> registers \<Rightarrow> u8 \<Rightarrow> 'a kernel_scheme
    \<Rightarrow> ('a kernel_scheme, registers \<times> 'a kernel_scheme) result" where
  "keyboard_irq eip ret regs code s =
     irq_handler (kernel_call eip ret) (regs\<lparr>r_int_no := push_byte 33\<rparr>) (s\<lparr>inp := (inp s)(0x60 := code)\<rparr>)"

text \<open>
  An interrupt of the timer: \<^verbatim>\<open>irq_handler\<close> runs the callback, which counts the tick and switches to the next task;
  \<open>eip\<close> is what \<^verbatim>\<open>read_eip\<close> returns in it. The structure of the running task must not lie on the screen.
\<close>

definition timer_irq :: "u32 \<Rightarrow> u32 \<Rightarrow> registers \<Rightarrow> 'a kernel_scheme
    \<Rightarrow> ('a kernel_scheme, registers \<times> 'a kernel_scheme) result" where
  "timer_irq eip ret regs s = irq_handler (kernel_call eip ret) (regs\<lparr>r_int_no := push_byte 32\<rparr>) s"

definition task_off_screen :: "'a tasks_scheme \<Rightarrow> bool" where
  "task_off_screen s \<longleftrightarrow> (\<forall>x. in_region (current_task s) 28 x \<longrightarrow> \<not> in_video x)"

text \<open>
  \<open>idle s codes full t\<close>: from \<open>s\<close> the kernel has come to \<open>t\<close>, in rounds of the loop and interrupts of the keyboard and the
  timer between them, in any order, while the interrupt flag is on; the keyboard has sent \<open>codes\<close>, and \<open>full\<close> tells whether one of them came
  when 255 characters were waiting. A round is one step: an interrupt in its midst is not modelled. The rounds are
  those of whatever task runs the loop, since all tasks share the buffer and the screen.
\<close>

inductive idle :: "'a kernel_scheme \<Rightarrow> u8 list \<Rightarrow> bool \<Rightarrow> 'a kernel_scheme \<Rightarrow> bool" for s where
  idle_start: "idle s [] False s"
| idle_round: "idle s codes full t \<Longrightarrow> idle s codes full (echo_round t)"
| idle_key: "idle s codes full t \<Longrightarrow> iflag t \<Longrightarrow> keyboard_irq eip ret regs code t = Inr (r, u) \<Longrightarrow>
    idle s (codes @ [code]) (full \<or> ring_length t = 255) u"
| idle_timer: "idle s codes full t \<Longrightarrow> iflag t \<Longrightarrow> task_off_screen t \<Longrightarrow> interrupt_handlers t 32 = Some Timer_callback \<Longrightarrow>
    timer_irq eip ret regs t = Inr (r, u) \<Longrightarrow> idle s codes full u"

lemma ring_more:
  assumes "monitor.more t = monitor.more s"
  shows "ring_items t = ring_items s" and "ring_ok t = ring_ok s"
  using assms by (cases s; cases t; simp add: ring_items_def ring_length_def ring_ok_def)+

lemma keymaps_more:
  assumes "monitor.more t = monitor.more s"
  shows "keymaps t = keymaps s" and "current_layout t = current_layout s"
    and "keyboard_buffer_start t = keyboard_buffer_start s" and "keyboard_buffer_end t = keyboard_buffer_end s"
  using assms by (cases s; cases t; simp)+

lemma monitor_put_more: "monitor.more (monitor_put c s) = monitor.more s" "iflag (monitor_put c s) = iflag s"
  by (simp_all add: monitor_put_def move_cursor_def scroll_def monitor_wrap_def monitor_put_char_def outb_def Let_def)

lemma keyboard_handler_console: "same_console s (keyboard_handler s)"
  "interrupt_handlers (keyboard_handler s) = interrupt_handlers s"
  by (auto simp: same_console_def keyboard_handler_def set_layout_def keyboard_put_def Let_def split: prod.split bool.split)

lemma keyboard_handler_shape: "\<exists>km cs. keyboard_handler s = fold keyboard_put cs (set_layout km s) \<and> length cs \<le> 1"
proof -
  let ?km = "keymaps s (current_layout s)" and ?c = "inb 0x60 s"
  consider "?c AND RELEASED_MASK \<noteq> 0" | km where "?c AND RELEASED_MASK = 0" "press_loop [0..<8] ?c ?km = (True, km)"
    | km where "?c AND RELEASED_MASK = 0" "press_loop [0..<8] ?c ?km = (False, km)" by (metis surj_pair)
  then show ?thesis
  proof cases
    case 1
    then show ?thesis by (intro exI [of _ "release_loop [0..<5] ?c ?km"] exI [of _ "[]"]) (simp add: keyboard_handler_def)
  next
    case (2 km)
    then show ?thesis by (intro exI [of _ km] exI [of _ "[]"]) (simp add: keyboard_handler_def)
  next
    case (3 km)
    then show ?thesis
      by (intro exI [of _ km] exI [of _ "[layout_scancodes km ! unat ?c]"]) (simp add: keyboard_handler_def)
  qed
qed

lemma keyboard_irq_result:
  assumes "interrupt_handlers s 33 = Some Keyboard_handler"
  shows "keyboard_irq eip ret regs code s = Inr (regs\<lparr>r_int_no := push_byte 33\<rparr>,
    keyboard_handler (outb 0x20 0x20 (s\<lparr>inp := (inp s)(0x60 := code)\<rparr>)))"
proof -
  have "push_byte 33 = 33" by (simp add: push_byte_def)
  then show ?thesis
    using assms by (simp add: keyboard_irq_def irq_handler_def kernel_call_def outb_def Let_def)
qed

text \<open>A timer interrupt touches the structure of the running task, but neither the screen nor the keyboard's buffer.\<close>

lemma terminal_of_frame:
  assumes "\<And>x. in_video x \<Longrightarrow> mem t x = mem s x" and "cursor_x t = cursor_x s" and "cursor_y t = cursor_y s"
  shows "terminal_of t = terminal_of s" and "cursor_ok t = cursor_ok s"
proof -
  have "ld16 (mem t) (cell k) = ld16 (mem s) (cell k)" if "k < 2000" for k
    by (rule ld16_frame) (rule assms(1) [OF in_video_cell [OF that]])
  then show "terminal_of t = terminal_of s" using assms(2,3) by (simp add: terminal_of_def)
  show "cursor_ok t = cursor_ok s" using assms(2,3) by (simp add: cursor_ok_def)
qed

lemma switch_task_memory:
  assumes "\<not> in_region (current_task s) 28 x"
  shows "mem (switch_task eip s) x = mem s x"
proof (cases "current_task s = 0 \<or> eip = 0x12345")
  case True
  then show ?thesis by (auto simp: switch_task_def)
next
  case False
  then show ?thesis using assms by (simp add: switch_task_eq save_context_outside set_kernel_stack_def Let_def)
qed

lemma switch_task_frame:
  "cursor_x (switch_task eip s) = cursor_x s" "cursor_y (switch_task eip s) = cursor_y s"
  "interrupt_handlers (switch_task eip s) = interrupt_handlers s"
  by (simp_all add: switch_task_def set_kernel_stack_def Let_def)

lemma switch_task_ring:
  fixes s :: "'a keyboard_scheme"
  shows "keyboard_buffer (switch_task eip s) = keyboard_buffer s"
    "keyboard_buffer_start (switch_task eip s) = keyboard_buffer_start s"
    "keyboard_buffer_end (switch_task eip s) = keyboard_buffer_end s"
    "keymaps (switch_task eip s) = keymaps s" "current_layout (switch_task eip s) = current_layout s"
  by (simp_all add: switch_task_def set_kernel_stack_def Let_def)

lemma timer_irq_result:
  assumes "interrupt_handlers s 32 = Some Timer_callback"
  shows "timer_irq eip ret regs s =
    Inr (regs\<lparr>r_int_no := push_byte 32\<rparr>, timer_callback eip (outb 0x20 0x20 s))"
proof -
  have "push_byte 32 = 32" by (simp add: push_byte_def)
  then show ?thesis using assms by (simp add: timer_irq_def irq_handler_def kernel_call_def outb_def Let_def)
qed

text \<open>The layout in use: only the status of its control keys changes, and it follows the scancodes.\<close>

definition layout_of :: "'a keyboard_scheme \<Rightarrow> keymap" where
  "layout_of s = keymaps s (current_layout s)"

definition keys_follow :: "'a keyboard_scheme \<Rightarrow> u8 list \<Rightarrow> 'a keyboard_scheme \<Rightarrow> bool" where
  "keys_follow s codes t \<longleftrightarrow> layout_of t = (layout_of s)\<lparr>controls := controls (layout_of t)\<rparr>
     \<and> modifiers (layout_of t) = fold (key_status (layout_of s)) codes (modifiers (layout_of s))"

definition typed_at :: "'a keyboard_scheme \<Rightarrow> u8 list \<Rightarrow> u8 list" where
  "typed_at s codes = typed (layout_of s) (modifiers (layout_of s)) codes"

lemma keys_same:
  "key_index (km\<lparr>controls := w\<rparr>) = key_index km" "key_status (km\<lparr>controls := w\<rparr>) = key_status km"
  "key_text (km\<lparr>controls := w\<rparr>) = key_text km" "layout_ok (km\<lparr>controls := w\<rparr>) = layout_ok km"
  by (simp_all add: fun_eq_iff key_index_def key_status_def key_text_def key_char_same layout_ok_def)

lemma put_layout [simp]: "layout_of (keyboard_put c s) = layout_of s" "layout_of (set_layout km s) = km"
  by (simp_all add: layout_of_def keyboard_put_def set_layout_def)

lemma key_follows:
  assumes f: "keys_follow s codes t" and ok: "layout_ok (layout_of s)" and code: "inb 0x60 t = code"
  shows "keys_follow s (codes @ [code]) (keyboard_handler t)"
    and "\<exists>km. keyboard_handler t = fold keyboard_put
      (key_text (layout_of s) code (fold (key_status (layout_of s)) codes (modifiers (layout_of s)))) (set_layout km t)"
proof -
  let ?km = "layout_of s" and ?w = "controls (layout_of t)"
  let ?on = "fold (key_status ?km) codes (modifiers ?km)"
  have km: "layout_of t = ?km\<lparr>controls := ?w\<rparr>" and on: "modifiers (layout_of t) = ?on"
    using f by (simp_all add: keys_follow_def)
  have "layout_ok (layout_of t)" using ok keys_same(4) by (subst km) simp
  from keyboard_handler_keys [OF layout_of_def this code [symmetric]] obtain w where
    h: "keyboard_handler t = fold keyboard_put (key_text (layout_of t) code ?on) (set_layout ((layout_of t)\<lparr>controls := w\<rparr>) t)"
    and w: "modifiers ((layout_of t)\<lparr>controls := w\<rparr>) = key_status (layout_of t) code ?on"
    unfolding on by blast
  have same: "key_text (layout_of t) = key_text ?km" "key_status (layout_of t) = key_status ?km"
    by (subst km, rule keys_same)+
  show "\<exists>km. keyboard_handler t = fold keyboard_put (key_text ?km code ?on) (set_layout km t)" using h same(1) by metis
  have l: "layout_of (keyboard_handler t) = (layout_of t)\<lparr>controls := w\<rparr>" unfolding h by (simp add: fold_keeps [of layout_of])
  then have "modifiers (layout_of (keyboard_handler t)) = key_status ?km code ?on" by (simp add: w same(2))
  moreover have "(layout_of t)\<lparr>controls := w\<rparr> = ?km\<lparr>controls := w\<rparr>" by (subst km) simp
  ultimately show "keys_follow s (codes @ [code]) (keyboard_handler t)" by (simp add: keys_follow_def l)
qed

text \<open>A character that comes when 255 wait is lost, and at index 0 the waiting ones with it.\<close>

lemma ring_text:
  assumes "ring_ok s" and "length cs \<le> 1"
  shows "ring_ok (fold keyboard_put cs s)"
    and "ring_length s < 255 \<Longrightarrow> ring_items (fold keyboard_put cs s) = ring_items s @ cs"
    and "ring_items (fold keyboard_put cs s) \<in> {ring_items s @ cs, ring_items s, []}"
proof -
  consider "cs = []" | c where "cs = [c]" using assms(2) by (cases cs) auto
  note cases = this
  show "ring_ok (fold keyboard_put cs s)" using cases assms(1) by cases (simp_all add: ring_put_ok)
  show put: "ring_items (fold keyboard_put cs s) = ring_items s @ cs" if "ring_length s < 255"
    using cases ring_put(2) [OF assms(1) that] by cases simp_all
  have "ring_length s < 256" by (simp add: ring_length_def)
  then consider "ring_length s < 255" | "ring_length s = 255" by linarith
  then show "ring_items (fold keyboard_put cs s) \<in> {ring_items s @ cs, ring_items s, []}"
  proof cases
    case 2
    show ?thesis using cases full_buffer_at_zero_is_lost [OF assms(1) 2] by cases simp_all
  qed (simp add: put)
qed

text \<open>
  What the loop maintains: what has been printed and what waits are what was waiting and typed, in order, with nothing missing
  unless a key met a full buffer.
\<close>

definition echoed :: "'a kernel_scheme \<Rightarrow> u8 list \<Rightarrow> bool \<Rightarrow> 'a kernel_scheme \<Rightarrow> bool" where
  "echoed s codes full t \<longleftrightarrow> ring_ok t \<and> cursor_ok t \<and> interrupt_handlers t 33 = Some Keyboard_handler \<and> keys_follow s codes t
     \<and> (\<exists>ps. subseq (ps @ ring_items t) (ring_items s @ typed_at s codes)
          \<and> (\<not> full \<longrightarrow> ps @ ring_items t = ring_items s @ typed_at s codes)
          \<and> terminal_of t = fold term_put (filter (\<lambda>c. c \<noteq> 0) ps) (terminal_of s))"

lemma getchar_console:
  "same_console s (snd (keyboard_getchar s))"
  "interrupt_handlers (snd (keyboard_getchar s)) = interrupt_handlers s"
  by (simp_all add: same_console_def keyboard_getchar_def)

lemma echo_round_result:
  assumes "ring_ok t" and "cursor_ok t"
  shows "ring_ok (echo_round t) \<and> cursor_ok (echo_round t) \<and> interrupt_handlers (echo_round t) = interrupt_handlers t
    \<and> ring_items (echo_round t) = tl (ring_items t)
    \<and> terminal_of (echo_round t) = fold term_put (filter (\<lambda>c. c \<noteq> 0) (take 1 (ring_items t))) (terminal_of t)"
proof -
  let ?c = "fst (keyboard_getchar t)" and ?u = "snd (keyboard_getchar t)"
  note con = same_consoleD [OF getchar_console(1) [of t]]
  have got: "?c = fst (spec_get 0 (ring_items t))" "ring_items ?u = snd (spec_get 0 (ring_items t))"
    using ring_get(2) [OF assms(1)] by (metis fst_conv snd_conv)+
  have u: "ring_ok ?u" "cursor_ok ?u" "terminal_of ?u = terminal_of t" "interrupt_handlers ?u = interrupt_handlers t"
    using ring_get(1) [OF assms(1)] con assms(2) getchar_console(2) by auto
  have put: "monitor.more (monitor_put ?c ?u) = monitor.more ?u" "cursor_ok (monitor_put ?c ?u)"
    "terminal_of (monitor_put ?c ?u) = term_put ?c (terminal_of ?u)"
    using monitor_puts_frame [OF u(2), of "[?c]"] monitor_puts_ok [OF u(2), of "[?c]"] vga.puts_view [OF u(2), of "[?c]"]
    by (simp_all add: console_frame_def monitor_puts_def)
  have r: "echo_round t = (if ?c \<noteq> 0 then monitor_put ?c ?u else ?u)"
    by (simp add: echo_round_def case_prod_beta Let_def)
  have t1: "take 1 (ring_items t) = (if ring_items t = [] then [] else [?c])" "tl (ring_items t) = ring_items ?u"
    using got by (cases "ring_items t"; simp add: spec_get_def)+
  have c0: "ring_items t = [] \<Longrightarrow> ?c = 0" using got by (simp add: spec_get_def)
  show ?thesis
    unfolding r t1 using u put c0 ring_more [OF put(1)] interrupt_handlers_more [OF put(1)] by auto
qed

lemma echo_round_layout:
  fixes t :: "'a kernel_scheme"
  shows "layout_of (echo_round t) = layout_of t"
proof -
  have "layout_of (monitor_put c u) = layout_of u" for c and u :: "'a kernel_scheme"
    using keymaps_more(1,2) [OF monitor_put_more(1) [of c u]] by (simp add: layout_of_def)
  moreover have "layout_of (snd (keyboard_getchar t)) = layout_of t" by (simp add: keyboard_getchar_def layout_of_def)
  ultimately show ?thesis by (simp add: echo_round_def case_prod_beta Let_def)
qed

lemma echoed_round:
  assumes "echoed s codes full t"
  shows "echoed s codes full (echo_round t)"
proof -
  obtain ps where ok: "ring_ok t" "cursor_ok t" "interrupt_handlers t 33 = Some Keyboard_handler" "keys_follow s codes t"
    and ps: "subseq (ps @ ring_items t) (ring_items s @ typed_at s codes)"
      "\<not> full \<longrightarrow> ps @ ring_items t = ring_items s @ typed_at s codes"
      "terminal_of t = fold term_put (filter (\<lambda>c. c \<noteq> 0) ps) (terminal_of s)"
    using assms by (auto simp: echoed_def)
  have "ps @ ring_items t = (ps @ take 1 (ring_items t)) @ tl (ring_items t)" by (cases "ring_items t") auto
  then show ?thesis
    unfolding echoed_def using echo_round_result [OF ok(1,2)] ok(3,4) ps echo_round_layout [of t]
    by (intro conjI exI [of _ "ps @ take 1 (ring_items t)"]) (auto simp: keys_follow_def)
qed

lemma echoed_text:
  assumes ps: "subseq (ps @ old) ts" "\<not> full \<longrightarrow> ps @ old = ts"
    and new: "\<not> now \<Longrightarrow> new = old @ cs" "new \<in> {old @ cs, old, []}"
  shows "subseq (ps @ new) (ts @ cs) \<and> (\<not> (full \<or> now) \<longrightarrow> ps @ new = ts @ cs)"
proof -
  have "subseq ps (ps @ old)" by (rule prefix_imp_subseq) simp
  then have "subseq ps ts" using ps(1) by (rule subseq_order.trans)
  moreover have "subseq (ps @ old @ cs) (ts @ cs)" using list_emb_append_mono [OF ps(1), of cs cs] by simp
  moreover have "subseq xs (ts @ cs)" if "subseq xs ts" for xs using that by (rule list_emb_prefix)
  ultimately have "subseq (ps @ new) (ts @ cs)" using new(2) ps(1) by auto
  then show ?thesis using ps(2) new(1) by auto
qed

lemma echoed_key:
  assumes e: "echoed s codes full t" and ok: "layout_ok (layout_of s)" and irq: "keyboard_irq eip ret regs code t = Inr (r, u)"
  shows "echoed s (codes @ [code]) (full \<or> ring_length t = 255) u"
proof -
  let ?t = "outb 0x20 0x20 (t\<lparr>inp := (inp t)(0x60 := code)\<rparr>)"
  have u: "u = keyboard_handler ?t" using e irq keyboard_irq_result [of t eip ret regs code] by (auto simp: echoed_def)
  have same: "ring_items ?t = ring_items t" "ring_ok ?t = ring_ok t" "ring_length ?t = ring_length t" "layout_of ?t = layout_of t"
    "inb 0x60 ?t = code" "same_console t ?t" "interrupt_handlers ?t = interrupt_handlers t"
    by (simp_all add: outb_def ring_items_def ring_length_def ring_ok_def layout_of_def inb_def same_console_def)
  obtain ps where t: "ring_ok t" "cursor_ok t" "interrupt_handlers t 33 = Some Keyboard_handler" "keys_follow s codes t"
    and ps: "subseq (ps @ ring_items t) (ring_items s @ typed_at s codes)"
      "\<not> full \<longrightarrow> ps @ ring_items t = ring_items s @ typed_at s codes"
      "terminal_of t = fold term_put (filter (\<lambda>c. c \<noteq> 0) ps) (terminal_of s)"
    using e by (auto simp: echoed_def)
  have f: "keys_follow s codes ?t" using t(4) by (simp add: keys_follow_def same)
  define cs where "cs = key_text (layout_of s) code (fold (key_status (layout_of s)) codes (modifiers (layout_of s)))"
  obtain km where "u = fold keyboard_put cs (set_layout km ?t)" using key_follows(2) [OF f ok same(5)] unfolding u cs_def by blast
  moreover have "ring_ok (set_layout km ?t)" "length cs \<le> 1" using t(1) same(2) by (simp_all add: cs_def key_text_def)
  ultimately have ring: "ring_ok u" "ring_length t < 255 \<Longrightarrow> ring_items u = ring_items t @ cs"
    "ring_items u \<in> {ring_items t @ cs, ring_items t, []}"
    using ring_text [of "set_layout km ?t" cs] by (simp_all add: same)
  have "ring_length t < 256" by (simp add: ring_length_def)
  then have "ring_length t \<noteq> 255 \<Longrightarrow> ring_items u = ring_items t @ cs" using ring(2) by simp
  note shown = echoed_text [OF ps(1,2) this ring(3)]
  have "terminal_of u = terminal_of t" "cursor_ok u" "interrupt_handlers u = interrupt_handlers t"
    using same_consoleD [OF keyboard_handler_console(1) [of ?t]] same_consoleD [OF same(6)] keyboard_handler_console(2) [of ?t]
      same(7) t(2) by (simp_all add: u)
  then show ?thesis
    unfolding echoed_def using shown ps(3) ring(1) t(3) key_follows(1) [OF f ok same(5)]
    by (auto simp: typed_at_def typed_snoc cs_def u)
qed

lemma echoed_timer:
  assumes e: "echoed s codes full t" and "task_off_screen t" and "interrupt_handlers t 32 = Some Timer_callback"
    and irq: "timer_irq eip ret regs t = Inr (r, u)"
  shows "echoed s codes full u"
proof -
  let ?t = "(outb 0x20 0x20 t)\<lparr>tick := tick t + 1\<rparr>"
  have u: "u = switch_task eip ?t"
    using assms(3) irq timer_irq_result [of t eip ret regs] by (simp add: timer_callback_def outb_def)
  have "mem u x = mem t x" if "in_video x" for x
    using that assms(2) switch_task_memory [of ?t x eip] unfolding u task_off_screen_def by (auto simp: outb_def)
  moreover have "cursor_x u = cursor_x t" "cursor_y u = cursor_y t" "interrupt_handlers u = interrupt_handlers t"
    by (simp_all add: u switch_task_frame outb_def)
  moreover have "ring_items u = ring_items t" "ring_ok u = ring_ok t" "layout_of u = layout_of t"
    by (simp_all add: u ring_items_def ring_length_def ring_ok_def layout_of_def switch_task_ring outb_def)
  ultimately show ?thesis using e terminal_of_frame [of u t] by (auto simp: echoed_def keys_follow_def)
qed

lemma idle_echoed:
  assumes "idle s codes full t" and "ring_ok s" and "cursor_ok s" and "interrupt_handlers s 33 = Some Keyboard_handler"
    and "layout_ok (layout_of s)"
  shows "echoed s codes full t"
  using assms(1)
proof induction
  case idle_start
  then show ?case using assms(2-4) by (simp add: echoed_def keys_follow_def typed_at_def)
next
  case (idle_round codes full t)
  show ?case using idle_round.IH by (rule echoed_round)
next
  case (idle_key codes full t eip ret regs code r u)
  show ?case by (rule echoed_key [OF idle_key.IH assms(5) idle_key.hyps(3)])
next
  case (idle_timer codes full t eip ret regs r u)
  show ?case by (rule echoed_timer [OF idle_timer.IH idle_timer.hyps(3,4,5)])
qed

lemma echo_rounds:
  assumes "ring_ok t" and "cursor_ok t"
  shows "ring_items ((echo_round ^^ k) t) = drop k (ring_items t)
    \<and> ring_ok ((echo_round ^^ k) t) \<and> cursor_ok ((echo_round ^^ k) t)"
  using assms by (induction k) (auto simp: echo_round_result drop_Suc tl_drop)

lemma idle_rounds: "idle s codes full t \<Longrightarrow> idle s codes full ((echo_round ^^ k) t)"
  by (induction k) (auto intro: idle_round)

section \<open>Properties\<close>

definition kernel0 :: kernel where
  "kernel0 = keyboard.extend ((keyboard0 0 255 255)\<lparr>interrupt_handlers := [33 \<mapsto> Keyboard_handler], iflag := True\<rparr>) \<lparr>failure = 0\<rparr>"

definition env0 :: environment where
  "env0 = \<lparr>env_layout = layout0, env_image = image0, env_us = 0x104000, env_hello = 0x9200, env_after = (\<lambda>_. [0]),
     env_eflags = 0x202, env_resume = 0x100400, env_regs = regs0, env_ret = 0\<rparr>"

lemma kernel0_simps [simp]:
  "mem kernel0 = (\<lambda>_. 0)" "interrupt_handlers kernel0 = [33 \<mapsto> Keyboard_handler]" "keymaps kernel0 l = us"
  "keyboard_buffer_start kernel0 = 255" "keyboard_buffer_end kernel0 = 255"
  "keyboard_buffer kernel0 = replicate 256 0" "cursor_x kernel0 = 0" "cursor_y kernel0 = 0" "iflag kernel0"
  "reg_esp kernel0 = 0x7000"
  by (simp_all add: kernel0_def keyboard.extend_def keyboard0_def fs.extend_def fs0_def tasks.extend_def
      two_tasks_def tasks0_def vm.extend_def vm0_def dtables.extend_def dtables0_def interrupts.extend_def
      interrupts0_def monitor.extend_def monitor0_def)

lemma kernel0_ok: "ring_ok kernel0" "cursor_ok kernel0" "ring_items kernel0 = []" "ring_length kernel0 = 0"
  by (simp_all add: ring_ok_def cursor_ok_def ring_items_def ring_length_def)

text \<open>
  C29. The first part of the start always gets through: it ends with interrupts on and the timer as the only
  registered handler, the screen shows the banner and the two log lines, each line followed by whatever bytes stand behind
  its buffer on the stack up to the next NUL, and nothing else; no memory outside the video buffer has changed.
\<close>
theorem early_start_result:
  "\<exists>t. kernel_early env initial_stack s = Inr t \<and> iflag t \<and> cursor_ok t
    \<and> terminal_of t = fold term_put (early_text env) blank_terminal
    \<and> (\<forall>x. \<not> in_video x \<longrightarrow> mem t x = mem s x)
    \<and> interrupt_handlers t = (\<lambda>_. None)(32 := Some Timer_callback)"
  by (rule kernel_early_result)

theorem early_start_result_witness:
  "\<exists>t. kernel_early env0 0x7000 kernel0 = Inr t \<and> mem t 0x9000 = 0"
proof -
  obtain t where "kernel_early env0 0x7000 kernel0 = Inr t" "\<not> in_video 0x9000 \<longrightarrow> mem t 0x9000 = mem kernel0 0x9000"
    using early_start_result [of env0 "0x7000" kernel0] by blast
  then show ?thesis by (simp add: low_not_video)
qed

text \<open>A start whose multiboot information lists no module runs into the assertion.\<close>

lemma start_without_ramdisk_halts:
  assumes "mods_count (mem s) mboot_ptr = 0" and "\<forall>x. in_region (mboot_ptr + 20) 4 x \<longrightarrow> \<not> in_video x"
  shows "\<exists>t. kernel_start n env mboot_ptr initial_stack s = Inl (Halted t) \<and> \<not> iflag t \<and> cursor_ok t
    \<and> interrupt_handlers t = (\<lambda>_. None)(32 := Some Timer_callback)"
proof -
  obtain u where u: "kernel_early env initial_stack s = Inr u" "cursor_ok u"
    "\<And>x. \<not> in_video x \<Longrightarrow> mem u x = mem s x" "interrupt_handlers u = (\<lambda>_. None)(32 := Some Timer_callback)"
    using kernel_early_result [of env initial_stack s] by blast
  have "mods_count (mem u) mboot_ptr = mods_count (mem s) mboot_ptr"
    unfolding mods_count_def using assms(2) u(3) by (intro ld32_frame) blast
  then have run: "kernel_start n env mboot_ptr initial_stack s = Inl (Halted (monitor_puts (bytes ''ASSERTION-FAILED(''
      @ bytes ''mboot_ptr->mods_count > 0'' @ bytes '') at '' @ bytes ''sys/main.c'' @ bytes '':'' @ decimal (unat (72 :: u32))
      @ [0x0A] @ bytes ''Computer halting now!'' @ [0x0A]) (u\<lparr>iflag := False\<rparr>)))"
    using u(1) assms(1)
    by (simp add: kernel_start_def find_ramdisk_def panic_assert_def ASSERT_def panic_report_puts del: monitor_puts_simps)
  have ok: "cursor_ok (u\<lparr>iflag := False\<rparr>)" using u(2) by simp
  have "cursor_ok (monitor_puts cs (u\<lparr>iflag := False\<rparr>))"
    "interrupt_handlers (monitor_puts cs (u\<lparr>iflag := False\<rparr>)) = (\<lambda>_. None)(32 := Some Timer_callback)" for cs
    using monitor_puts_ok [OF ok, of cs] monitor_puts_frame [OF ok, of cs]
      interrupt_handlers_more [of "monitor_puts cs (u\<lparr>iflag := False\<rparr>)" u] u(4)
    by (simp_all add: console_frame_def)
  then show ?thesis unfolding run by (intro exI conjI) (rule refl | simp del: monitor_puts_simps)+
qed

text \<open>
  C15. In the final loop of a kernel that has interrupts on, whatever the interleaving of its rounds (each taken as a single step) with timer
  interrupts, which switch tasks, and keyboard interrupts: what has been printed followed by what still waits is a subsequence of what was waiting
  followed by what the scancodes mean, so nothing is doubled, reordered or made up; and it is all of it if
  no scancode came while 255 characters were waiting. The screen is the one that printing shows (zero bytes are skipped). What the scancodes mean
  is told from the key map alone, by \<open>typed\<close>.
\<close>
theorem echo_keeps_order:
  assumes "idle s codes full t" and "ring_ok s" and "cursor_ok s" and "interrupt_handlers s 33 = Some Keyboard_handler"
    and "km = keymaps s (current_layout s)" and "layout_ok km"
  shows "\<exists>ps. subseq (ps @ ring_items t) (ring_items s @ typed km (modifiers km) codes)
    \<and> (\<not> full \<longrightarrow> ps @ ring_items t = ring_items s @ typed km (modifiers km) codes)
    \<and> terminal_of t = fold term_put (filter (\<lambda>c. c \<noteq> 0) ps) (terminal_of s)"
  using idle_echoed [OF assms(1-4)] assms(5,6) by (simp add: echoed_def typed_at_def layout_of_def)

text \<open>Left shift pressed, the key of the letter A, left shift released, the same key again.\<close>

lemma typed_shift: "typed us (modifiers us) [42, 30, 0xAA, 30] = [65, 97]"
  by (simp add: key_text_def key_status_def key_index_def key_char_def modifiers_def upt_rec)
    (simp add: us_def initialised_def bytes_def of_char_def)

lemma key_keeps:
  fixes t :: "'a kernel_scheme"
  defines "u \<equiv> \<lambda>code. keyboard_handler (outb 0x20 0x20 (t\<lparr>inp := (inp t)(0x60 := code)\<rparr>))"
  assumes "ring_ok t"
  shows "ring_ok (u code)" "ring_length (u code) \<le> Suc (ring_length t)" "iflag (u code) = iflag t"
    "interrupt_handlers (u code) = interrupt_handlers t"
proof -
  let ?t = "outb 0x20 0x20 (t\<lparr>inp := (inp t)(0x60 := code)\<rparr>)"
  have ok: "ring_ok ?t" and same: "ring_items ?t = ring_items t" "ring_length ?t = ring_length t"
    using assms(2) by (simp_all add: outb_def ring_ok_def ring_items_def ring_length_def)
  obtain km cs where h: "u code = fold keyboard_put cs (set_layout km ?t)" "length cs \<le> 1"
    using keyboard_handler_shape [of ?t] unfolding u_def by blast
  note ring = ring_text [of "set_layout km ?t" cs, OF _ h(2)]
  show "ring_ok (u code)" using ring(1) ok h(1) by simp
  have "ring_items (u code) \<in> {ring_items t @ cs, ring_items t, []}" using ring(3) ok h(1) same(1) by simp
  then show "ring_length (u code) \<le> Suc (ring_length t)" using h(2) by (auto simp flip: length_ring_items)
  show "interrupt_handlers (u code) = interrupt_handlers t" by (simp add: u_def keyboard_handler_console(2) outb_def)
  have "iflag (fold keyboard_put cs v) = iflag v" for v :: "'a kernel_scheme"
    by (rule fold_keeps) (simp add: keyboard_put_def)
  then show "iflag (u code) = iflag t" unfolding h(1) by (simp add: set_layout_def outb_def)
qed

lemma idle_keys:
  assumes "idle s codes False t" and "iflag t" and "interrupt_handlers t 33 = Some Keyboard_handler" and "ring_ok t"
    and "ring_length t + length cs \<le> 255"
  shows "\<exists>u. idle s (codes @ cs) False u"
  using assms
proof (induction cs arbitrary: codes t)
  case (Cons code cs)
  let ?u = "keyboard_handler (outb 0x20 0x20 (t\<lparr>inp := (inp t)(0x60 := code)\<rparr>))"
  have "idle s (codes @ [code]) (False \<or> ring_length t = 255) ?u"
    by (rule idle_key [OF Cons.prems(1,2) keyboard_irq_result [OF Cons.prems(3), of 0 0 regs0 code]])
  then have "idle s (codes @ [code]) False ?u" using Cons.prems(5) by simp
  from Cons.IH [OF this] show ?case using Cons.prems key_keeps [OF Cons.prems(4), of code] by simp
qed auto

lemma idle_kernel0: "\<exists>t. idle kernel0 [42, 30, 0xAA, 30] False t"
  using idle_keys [OF idle_start [of kernel0], of "[42, 30, 0xAA, 30]"] kernel0_ok by simp

theorem echo_keeps_order_witness:
  "\<exists>t ps. idle kernel0 [42, 30, 0xAA, 30] False t \<and> ps @ ring_items t = [65, 97]
    \<and> terminal_of t = fold term_put (filter (\<lambda>c. c \<noteq> 0) ps) (terminal_of kernel0)"
proof -
  obtain t where t: "idle kernel0 [42, 30, 0xAA, 30] False t" using idle_kernel0 by blast
  have "keymaps kernel0 (current_layout kernel0) = us" by simp
  from echo_keeps_order [OF t kernel0_ok(1,2) _ this [symmetric] us_layout_ok]
  show ?thesis unfolding typed_shift kernel0_ok(3) using t by auto
qed

text \<open>
  C8. The loop catches up, in a kernel that has interrupts on: after any interleaving of its rounds with timer and keyboard interrupts in which no
  scancode came while 255 characters were waiting, as many rounds as characters wait, without further interrupts, have printed all that
  was waiting and all that was typed, in order and nothing else, and the buffer is empty.
\<close>
theorem echo_catches_up:
  assumes "idle s codes False t" and "ring_ok s" and "cursor_ok s" and "interrupt_handlers s 33 = Some Keyboard_handler"
    and "km = keymaps s (current_layout s)" and "layout_ok km" and "u = (echo_round ^^ length (ring_items t)) t"
  shows "ring_items u = []
    \<and> terminal_of u = fold term_put (filter (\<lambda>c. c \<noteq> 0) (ring_items s @ typed km (modifiers km) codes)) (terminal_of s)"
proof -
  have ok: "layout_ok (layout_of s)" using assms(5,6) by (simp add: layout_of_def)
  have "ring_ok t" "cursor_ok t" using idle_echoed [OF assms(1-4) ok] by (simp_all add: echoed_def)
  then have "ring_items u = []" using echo_rounds [of t "length (ring_items t)"] assms(7) by simp
  moreover have "echoed s codes False u"
    unfolding assms(7) by (rule idle_echoed [OF idle_rounds [OF assms(1)] assms(2-4) ok])
  ultimately show ?thesis by (auto simp: echoed_def typed_at_def layout_of_def assms(5))
qed

theorem echo_catches_up_witness:
  "\<exists>t. idle kernel0 [42, 30, 0xAA, 30] False t \<and> ring_items ((echo_round ^^ length (ring_items t)) t) = []
    \<and> terminal_of ((echo_round ^^ length (ring_items t)) t) = term_put 97 (term_put 65 (terminal_of kernel0))"
proof -
  obtain t where t: "idle kernel0 [42, 30, 0xAA, 30] False t" using idle_kernel0 by blast
  have "keymaps kernel0 (current_layout kernel0) = us" by simp
  from echo_catches_up [OF t kernel0_ok(1,2) _ this [symmetric] us_layout_ok refl]
  show ?thesis unfolding typed_shift kernel0_ok(3) using t by (intro exI [of _ t]) simp
qed

text \<open>The end of the start: nothing a system call prints touches the keyboard or the interrupt flag.\<close>

lemma monitor_write_more:
  assumes "monitor_write c s = Some t"
  shows "monitor.more t = monitor.more s" and "iflag t = iflag s"
proof -
  have "monitor_write_loop c 0 s = Some t \<longrightarrow> monitor.more t = monitor.more s \<and> iflag t = iflag s"
    by (rule impI, rule monitor_write_loop.raw_induct [of "\<lambda>c i s t. monitor.more t = monitor.more s \<and> iflag t = iflag s"])
      (auto simp: monitor_put_more split: if_splits)
  then show "monitor.more t = monitor.more s" and "iflag t = iflag s" using assms unfolding monitor_write_def by blast+
qed

lemma idle_deaf:
  assumes "idle s codes full t" and "\<not> iflag s" and "keyboard_buffer_start s = keyboard_buffer_end s"
  shows "codes = [] \<and> t = s"
  using assms(1)
proof induction
  case (idle_round codes full t)
  then show ?case using assms(3) by (simp add: echo_round_def keyboard_getchar_def)
qed (use assms(2) in auto)

lemma hello_result:
  assumes "interrupt_handlers s 0x80 = Some Syscall_handler" and u: "u = switch_to_user_mode eflags resume (init_keyboard_driver us_addr s)"
  shows "syscall1 (kernel_call 0 ret) 0 hello regs u = bind_res (ends (monitor_write hello u)) (\<lambda>v. Inr (ret, v))"
    and "\<not> iflag u" and "keyboard_buffer_start u = 0" and "keyboard_buffer_end u = 0"
proof -
  have "interrupt_handlers u 0x80 = Some Syscall_handler"
    using assms(1) by (simp add: u switch_to_user_mode_def set_kernel_stack_def init_keyboard_driver_def
        register_interrupt_handler_def switch_layout_def Let_def)
  moreover have "kernel_call 0 ret Syscall_handler = (syscall_handler ret :: registers \<Rightarrow> 'a kernel_scheme \<Rightarrow> _)"
    by (simp add: kernel_call_def fun_eq_iff)
  ultimately show "syscall1 (kernel_call 0 ret) 0 hello regs u = bind_res (ends (monitor_write hello u)) (\<lambda>v. Inr (ret, v))"
    by (subst syscall1_dispatch [of u "kernel_call 0 ret" ret]) (simp_all add: num_syscalls_def syscalls_def word_le_nat_alt)
  show "\<not> iflag u" "keyboard_buffer_start u = 0" "keyboard_buffer_end u = 0"
    by (simp_all add: u switch_to_user_mode_def set_kernel_stack_def init_keyboard_driver_def switch_layout_def Let_def
        ld32_st32_other sep_def bit_simps)
qed

text \<open>
  C31. The loop that the start of the kernel ends in is deaf: after the keyboard is set up, \<open>switch_to_user_mode\<close> and the first system call that returns,
  the interrupt flag is off and stays off, so that no keyboard or timer interrupt can come; in all of the loop's rounds
  nothing of the state changes any more, and nothing that is typed reaches the screen.
\<close>
theorem user_loop_is_deaf:
  assumes "interrupt_handlers s 0x80 = Some Syscall_handler"
    and "u = switch_to_user_mode eflags resume (init_keyboard_driver us_addr s)"
    and "syscall1 (kernel_call 0 ret) 0 hello regs u = Inr (r, v)"
    and "idle v codes full t"
  shows "codes = [] \<and> t = v \<and> ring_items v = [] \<and> \<not> iflag v"
proof -
  note h = hello_result [OF assms(1,2)]
  have w: "monitor_write hello u = Some v"
    using assms(3) unfolding h(1) by (cases "monitor_write hello u") (simp_all add: ends_def)
  have v: "\<not> iflag v" "keyboard_buffer_start v = 0" "keyboard_buffer_end v = 0"
    using monitor_write_more [OF w] keymaps_more(3,4) [of v u] h(2-4) by simp_all
  then show ?thesis using idle_deaf [OF assms(4)] by (simp add: ring_items_def ring_length_def)
qed

definition deaf_kernel :: kernel where
  "deaf_kernel = switch_to_user_mode 0x202 0x100400
     (init_keyboard_driver 0x104000 (kernel0\<lparr>interrupt_handlers := [0x80 \<mapsto> Syscall_handler]\<rparr>))"

theorem user_loop_is_deaf_witness:
  "syscall1 (kernel_call 0 7) 0 0x9200 regs0 deaf_kernel = Inr (7, deaf_kernel)
    \<and> idle deaf_kernel [] False (echo_round deaf_kernel) \<and> echo_round deaf_kernel = deaf_kernel \<and> \<not> iflag deaf_kernel"
proof -
  have i: "interrupt_handlers (kernel0\<lparr>interrupt_handlers := [0x80 \<mapsto> Syscall_handler]\<rparr>) 0x80 = Some Syscall_handler" by simp
  have "mem deaf_kernel 0x9200 = 0"
    by (simp add: deaf_kernel_def switch_to_user_mode_def set_kernel_stack_def init_keyboard_driver_def register_interrupt_handler_def
        switch_layout_def Let_def st32_outside in_region_def)
  then have w: "monitor_write 0x9200 deaf_kernel = Some deaf_kernel" by (simp add: monitor_write_def monitor_write_loop.simps)
  have c: "syscall1 (kernel_call 0 7) 0 0x9200 regs0 deaf_kernel = Inr (7, deaf_kernel)"
    using hello_result(1) [OF i deaf_kernel_def] w by (simp add: ends_def)
  have "idle deaf_kernel [] False (echo_round deaf_kernel)" by (rule idle_round [OF idle_start])
  then show ?thesis using user_loop_is_deaf [OF i deaf_kernel_def c] c by blast
qed

end
