(* ===== verification/Interrupt_Stubs.thy ===== *)
theory Interrupt_Stubs
  imports Descriptor_Tables Syscall
begin

text \<open>
  The way into and out of an interrupt, sys/interrupt.s: the stubs of the vectors and the two common stubs,
  instruction by instruction, on the registers of the processor and the stack in memory. Segments are flat, so the
  stack pointer is an address of the raw memory. The processor's part is in \<open>deliver\<close> and \<open>iret\<close>: from ring 3 it
  changes to the stack that the task state segment names and saves the old one.

  The C handlers take the structure \<^verbatim>\<open>registers_t\<close> by value: it is the stack itself, from the stack pointer at the call
  on, and a handler that gets its address may change it there. A C function keeps ebx, esi, edi, ebp and esp and
  leaves anything in eax, ecx and edx, the argument \<open>junk\<close>.
\<close>

section \<open>The processor\<close>

record cpu =
  c_eax :: u32
  c_ecx :: u32
  c_edx :: u32
  c_ebx :: u32
  c_esp :: u32
  c_ebp :: u32
  c_esi :: u32
  c_edi :: u32
  c_eip :: u32
  c_eflags :: u32
  c_cs :: u16
  c_ss :: u16
  c_ds :: u16
  c_es :: u16
  c_fs :: u16
  c_gs :: u16

text \<open>The interrupt flag is bit 9 of eflags; the machine state has it as \<open>iflag\<close>, so it is inserted and taken out.\<close>

definition saved_flags :: "cpu \<Rightarrow> 'a hw_scheme \<Rightarrow> u32" where
  "saved_flags c s = (if iflag s then set_bit 9 (c_eflags c) else unset_bit 9 (c_eflags c))"

definition push :: "u32 \<Rightarrow> cpu \<times> 'a hw_scheme \<Rightarrow> cpu \<times> 'a hw_scheme" where
  "push v = (\<lambda>(c, s). (c\<lparr>c_esp := c_esp c - 4\<rparr>, s\<lparr>mem := st32 (mem s) (c_esp c - 4) v\<rparr>))"

definition top :: "cpu \<times> 'a hw_scheme \<Rightarrow> u32" where
  "top = (\<lambda>(c, s). ld32 (mem s) (c_esp c))"

definition drop_words :: "u32 \<Rightarrow> cpu \<times> 'a hw_scheme \<Rightarrow> cpu \<times> 'a hw_scheme" where
  "drop_words n = (\<lambda>(c, s). (c\<lparr>c_esp := c_esp c + 4 * n\<rparr>, s))"

definition user_mode :: "u16 \<Rightarrow> bool" where "user_mode selector \<longleftrightarrow> selector AND 3 = 3"

text \<open>
  Delivery through an interrupt gate of the kernel's code segment: the processor saves ss, esp when it comes
  from ring 3, then eflags, cs and eip, and turns interrupts off.
\<close>

definition deliver :: "u32 \<Rightarrow> cpu \<times> 'a dtables_scheme \<Rightarrow> cpu \<times> 'a dtables_scheme" where
  "deliver entry = (\<lambda>(c, s).
     let x = (if user_mode (c_cs c)
              then push (c_esp c) (push (ucast (c_ss c))
                (c\<lparr>c_esp := t_esp0 (tss_entry s), c_ss := ucast (t_ss0 (tss_entry s))\<rparr>, s))
              else (c, s));
         (d, t) = push (c_eip c) (push (ucast (c_cs c)) (push (saved_flags c s) x))
     in (d\<lparr>c_cs := 0x08, c_eip := entry\<rparr>, t\<lparr>iflag := False\<rparr>))"

definition iret :: "cpu \<times> 'a hw_scheme \<Rightarrow> cpu \<times> 'a hw_scheme" where
  "iret x =
     (let eip = top x; x = drop_words 1 x;
          cs = ucast (top x) :: u16; x = drop_words 1 x;
          fl = top x; x = drop_words 1 x;
          (c, s) = (if user_mode cs
                    then (let sp = top x; x = drop_words 1 x; ss = ucast (top x) :: u16; (c, s) = drop_words 1 x
                          in (c\<lparr>c_esp := sp, c_ss := ss\<rparr>, s))
                    else x)
      in (c\<lparr>c_eip := eip, c_cs := cs, c_eflags := fl\<rparr>, s\<lparr>iflag := bit fl 9\<rparr>))"

definition pusha :: "cpu \<times> 'a hw_scheme \<Rightarrow> cpu \<times> 'a hw_scheme" where
  "pusha x =
     (let c = fst x;
          x = push (c_eax c) x; x = push (c_ecx c) x; x = push (c_edx c) x; x = push (c_ebx c) x;
          x = push (c_esp c) x; x = push (c_ebp c) x; x = push (c_esi c) x
      in push (c_edi c) x)"

definition popa :: "cpu \<times> 'a hw_scheme \<Rightarrow> cpu \<times> 'a hw_scheme" where
  "popa x =
     (let edi = top x; x = drop_words 1 x; esi = top x; x = drop_words 1 x; ebp = top x; x = drop_words 2 x;
          ebx = top x; x = drop_words 1 x; edx = top x; x = drop_words 1 x; ecx = top x; x = drop_words 1 x;
          eax = top x; (c, s) = drop_words 1 x
      in (c\<lparr>c_edi := edi, c_esi := esi, c_ebp := ebp, c_ebx := ebx, c_edx := edx, c_ecx := ecx, c_eax := eax\<rparr>, s))"

section \<open>The stubs\<close>

text \<open>The structure \<^verbatim>\<open>registers_t\<close> in memory.\<close>

definition words :: "memory \<Rightarrow> u32 \<Rightarrow> nat \<Rightarrow> u32 list" where
  "words m a n = map (\<lambda>k. ld32 m (a + 4 * of_nat k)) [0..<n]"

definition regs_at :: "memory \<Rightarrow> u32 \<Rightarrow> registers" where
  "regs_at m a =
     (let w = (\<lambda>k. ld32 m (a + 4 * k)) in
      \<lparr>r_ds = w 0, r_edi = w 1, r_esi = w 2, r_ebp = w 3, r_esp = w 4, r_ebx = w 5, r_edx = w 6, r_ecx = w 7, r_eax = w 8,
       r_int_no = w 9, r_err_code = w 10, r_eip = w 11, r_cs = w 12, r_eflags = w 13, r_useresp = w 14, r_ss = w 15\<rparr>)"

definition regs_words :: "registers \<Rightarrow> u32 list" where
  "regs_words r = [r_ds r, r_edi r, r_esi r, r_ebp r, r_esp r, r_ebx r, r_edx r, r_ecx r, r_eax r,
     r_int_no r, r_err_code r, r_eip r, r_cs r, r_eflags r, r_useresp r, r_ss r]"

fun put_words :: "u32 \<Rightarrow> u32 list \<Rightarrow> memory \<Rightarrow> memory" where
  "put_words a [] m = m"
| "put_words a (v # vs) m = st32 (put_words (a + 4) vs m) a v"

text \<open>The call of a C handler with the structure on the stack.\<close>

type_synonym 's c_handler = "registers \<Rightarrow> 's \<Rightarrow> ('s, registers \<times> 's) result"

definition call_handler :: "('a dtables_scheme) c_handler \<Rightarrow> u32 \<times> u32 \<times> u32 \<Rightarrow> cpu \<times> 'a dtables_scheme
    \<Rightarrow> ('a dtables_scheme, cpu \<times> 'a dtables_scheme) result" where
  "call_handler h junk = (\<lambda>(c, s).
     bind_res (h (regs_at (mem s) (c_esp c)) s) (\<lambda>(regs, s).
       case junk of (a, d, e) \<Rightarrow>
         Inr (c\<lparr>c_eax := a, c_edx := d, c_ecx := e\<rparr>, s\<lparr>mem := put_words (c_esp c) (regs_words regs) (mem s)\<rparr>)))"

definition load_segments :: "u16 \<Rightarrow> cpu \<times> 'a hw_scheme \<Rightarrow> cpu \<times> 'a hw_scheme" where
  "load_segments v = (\<lambda>(c, s). (c\<lparr>c_ds := v, c_es := v, c_fs := v, c_gs := v\<rparr>, s))"

definition set_ax :: "u16 \<Rightarrow> u32 \<Rightarrow> u32" where
  "set_ax v eax = push_bit 16 (drop_bit 16 eax) OR ucast v"

text \<open>\<^verbatim>\<open>isr_common_stub\<close> and \<^verbatim>\<open>irq_common_stub\<close>: the same instructions around the call of \<^verbatim>\<open>isr_handler\<close> or \<^verbatim>\<open>irq_handler\<close>.\<close>

definition stub_enter :: "cpu \<times> 'a hw_scheme \<Rightarrow> cpu \<times> 'a hw_scheme" where
  "stub_enter x =
     (let x = pusha x;
          x = apfst (\<lambda>c. c\<lparr>c_eax := set_ax (c_ds c) (c_eax c)\<rparr>) x;
          x = push (c_eax (fst x)) x;
          x = apfst (\<lambda>c. c\<lparr>c_eax := set_ax 0x10 (c_eax c)\<rparr>) x
      in load_segments 0x10 x)"

definition stub_leave :: "cpu \<times> 'a hw_scheme \<Rightarrow> cpu \<times> 'a hw_scheme" where
  "stub_leave x =
     (let ebx = top x; x = drop_words 1 x; x = apfst (\<lambda>c. c\<lparr>c_ebx := ebx\<rparr>) x;
          x = load_segments (ucast ebx) x;
          x = popa x;
          x = drop_words 2 x;
          x = apsnd (\<lambda>s. s\<lparr>iflag := True\<rparr>) x
      in iret x)"

definition common_stub :: "('a dtables_scheme) c_handler \<Rightarrow> u32 \<times> u32 \<times> u32 \<Rightarrow> cpu \<times> 'a dtables_scheme
    \<Rightarrow> ('a dtables_scheme, cpu \<times> 'a dtables_scheme) result" where
  "common_stub h junk x = bind_res (call_handler h junk (stub_enter x)) (\<lambda>x. Inr (stub_leave x))"

text \<open>The vectors whose exceptions come with an error code, which the processor pushes; the other stubs push a zero.\<close>

definition has_error_code :: "u8 \<Rightarrow> bool" where
  "has_error_code n \<longleftrightarrow> n \<in> {8, 10, 11, 12, 13, 14}"

definition isr_entry :: "'a dtables_scheme handler_call \<Rightarrow> layout \<Rightarrow> u8 \<Rightarrow> u32 \<Rightarrow> u32 \<times> u32 \<times> u32 \<Rightarrow> cpu \<times> 'a dtables_scheme
    \<Rightarrow> ('a dtables_scheme, cpu \<times> 'a dtables_scheme) result" where
  "isr_entry call ly n err junk x =
     (let x = deliver (isr_stub ly (unat n)) x;
          x = push (if has_error_code n then err else push_byte 0) x;
          x = apsnd (\<lambda>s. s\<lparr>iflag := False\<rparr>) x;
          x = push (push_byte n) x
      in common_stub (isr_handler call) junk x)"

definition irq_entry :: "'a dtables_scheme handler_call \<Rightarrow> layout \<Rightarrow> nat \<Rightarrow> u32 \<times> u32 \<times> u32 \<Rightarrow> cpu \<times> 'a dtables_scheme
    \<Rightarrow> ('a dtables_scheme, cpu \<times> 'a dtables_scheme) result" where
  "irq_entry call ly k junk x =
     (let x = deliver (irq_stub ly k) x;
          x = apsnd (\<lambda>s. s\<lparr>iflag := False\<rparr>) x;
          x = push (push_byte 0) x;
          x = push (push_byte (of_nat (32 + k))) x
      in common_stub (irq_handler call) junk x)"

section \<open>The stack\<close>

fun pushed :: "u32 list \<Rightarrow> u32 \<Rightarrow> memory \<Rightarrow> memory" where
  "pushed [] sp m = m"
| "pushed (v # vs) sp m = pushed vs (sp - 4) (st32 m (sp - 4) v)"

lemma words_Suc: "words m a (Suc n) = ld32 m a # words m (a + 4) n"
  unfolding words_def upt_conv_Cons [OF zero_less_Suc] list.map
  by (simp add: map_Suc_upt [symmetric] comp_def algebra_simps del: map_Suc_upt upt_Suc)

lemma words_snoc: "words m a (Suc n) = words m a n @ [ld32 m (a + 4 * of_nat n)]"
  by (simp add: words_def)

lemma words_st32_outside:
  assumes "n < 1000" and "0 < k" and "k + n \<le> 1000"
  shows "words (st32 m a v) (a + 4 * of_nat k) n = words m (a + 4 * of_nat k) n"
proof -
  have "ld32 (st32 m a v) (a + 4 * of_nat k + 4 * of_nat i) = ld32 m (a + 4 * of_nat k + 4 * of_nat i)" if "i < n" for i
    using ld32_st32_index [of 0 "k + i" m a v] assms that by (simp add: algebra_simps)
  then show ?thesis by (simp add: words_def)
qed

lemma words_put_words:
  assumes "length vs < 1000"
  shows "words (put_words a vs m) a (length vs) = vs"
  using assms
proof (induction vs arbitrary: a)
  case (Cons v vs)
  then show ?case using words_st32_outside [of "length vs" 1 "put_words (a + 4) vs m" a v] by (simp add: words_Suc)
qed (simp add: words_def)

lemma in_region_next:
  assumes "in_region (a + 4) n x"
  shows "in_region a (4 + n) x"
proof -
  have "x - a = (x - (a + 4)) + 4" by simp
  then have "unat (x - a) \<le> unat (x - (a + 4)) + unat (4 :: u32)"
    by (metis unat_word_ariths(1) mod_less_eq_dividend)
  then show ?thesis using assms by (simp add: in_region_def)
qed

lemma put_words_outside:
  "\<not> in_region a (4 * length vs) x \<Longrightarrow> put_words a vs m x = m x"
proof (induction vs arbitrary: a)
  case (Cons v vs)
  have "\<not> in_region a 4 x" using Cons.prems by (auto simp: in_region_def)
  moreover have "\<not> in_region (a + 4) (4 * length vs) x" using Cons.prems in_region_next [of a "4 * length vs" x] by auto
  ultimately show ?case using Cons.IH by (simp add: st32_outside)
qed simp

lemma pushed_snoc: "pushed (vs @ [v]) sp m = st32 (pushed vs sp m) (sp - 4 * of_nat (length vs) - 4) v"
  by (induction vs arbitrary: sp m) (simp_all add: algebra_simps)

lemma words_pushed:
  assumes "length vs < 1000"
  shows "words (pushed vs sp m) (sp - 4 * of_nat (length vs)) (length vs) = rev vs"
  using assms
proof (induction vs rule: rev_induct)
  case (snoc v vs)
  let ?a = "sp - 4 * of_nat (length vs) - 4"
  have "words (pushed (vs @ [v]) sp m) ?a (Suc (length vs)) = v # rev vs"
    using snoc words_st32_outside [of "length vs" 1 "pushed vs sp m" ?a v] by (simp add: words_Suc pushed_snoc)
  then show ?case by (simp add: algebra_simps)
qed (simp add: words_def)

lemma words_nth: "k < n \<Longrightarrow> ld32 m (a + 4 * of_nat k) = words m a n ! k"
  by (simp add: words_def)

lemma regs_words_at: "regs_words (regs_at m a) = words m a 16"
  by (simp add: regs_words_def regs_at_def Let_def words_def upt_rec)

text \<open>The words of a stack frame, one by one.\<close>

lemma popped_words:
  assumes "words m a 16 = regs_words r"
  shows "ld32 m a = r_ds r" "ld32 m (a + 4) = r_edi r" "ld32 m (a + 8) = r_esi r" "ld32 m (a + 12) = r_ebp r"
    "ld32 m (a + 16) = r_esp r" "ld32 m (a + 20) = r_ebx r" "ld32 m (a + 24) = r_edx r" "ld32 m (a + 28) = r_ecx r"
    "ld32 m (a + 32) = r_eax r" "ld32 m (a + 36) = r_int_no r" "ld32 m (a + 40) = r_err_code r" "ld32 m (a + 44) = r_eip r"
    "ld32 m (a + 48) = r_cs r" "ld32 m (a + 52) = r_eflags r" "ld32 m (a + 56) = r_useresp r" "ld32 m (a + 60) = r_ss r"
  using assms by (simp_all add: words_def regs_words_def upt_rec)

section \<open>Entry\<close>

text \<open>
  What stands on the stack when the C handler is called, first pushed first: \<open>err\<close> is the error code or the
  zero, \<open>num\<close> the number of the vector.
\<close>

definition entry_stack :: "cpu \<Rightarrow> 'a dtables_scheme \<Rightarrow> u32" where
  "entry_stack c s = (if user_mode (c_cs c) then t_esp0 (tss_entry s) else c_esp c)"

definition frame_words :: "u32 \<Rightarrow> u32 \<Rightarrow> cpu \<Rightarrow> 'a dtables_scheme \<Rightarrow> u32 list" where
  "frame_words err num c s =
     (if user_mode (c_cs c) then [ucast (c_ss c), c_esp c] else [])
     @ [saved_flags c s, ucast (c_cs c), c_eip c, err, num, c_eax c, c_ecx c, c_edx c, c_ebx c,
        entry_stack c s - (if user_mode (c_cs c) then 28 else 20), c_ebp c, c_esi c, c_edi c, set_ax (c_ds c) (c_eax c)]"

definition frame_base :: "cpu \<Rightarrow> 'a dtables_scheme \<Rightarrow> u32" where
  "frame_base c s = entry_stack c s - (if user_mode (c_cs c) then 64 else 56)"

definition frame_state :: "u32 \<Rightarrow> u32 \<Rightarrow> cpu \<Rightarrow> 'a dtables_scheme \<Rightarrow> 'a dtables_scheme" where
  "frame_state err num c s = s\<lparr>mem := pushed (frame_words err num c s) (entry_stack c s) (mem s), iflag := False\<rparr>"

definition frame_regs :: "u32 \<Rightarrow> u32 \<Rightarrow> cpu \<Rightarrow> 'a dtables_scheme \<Rightarrow> registers" where
  "frame_regs err num c s = regs_at (mem (frame_state err num c s)) (frame_base c s)"

lemma pushed_outside:
  assumes "\<not> in_region (sp - 4 * of_nat (length vs)) (4 * length vs) x" and "4 * length vs < 4294967296"
  shows "pushed vs sp m x = m x"
  using assms
proof (induction vs arbitrary: sp m)
  case (Cons v vs)
  let ?b = "sp - 4 * of_nat (length (v # vs))" and ?n = "4 * length vs"
  have b: "sp - 4 - 4 * of_nat (length vs) = ?b" "sp - 4 = ?b + of_nat ?n" by (simp_all add: algebra_simps)
  have "\<not> in_region ?b ?n x" using Cons.prems(1) in_region_mono [of ?b ?n x "4 * length (v # vs)"] by auto
  moreover have "\<not> in_region (sp - 4) 4 x"
    unfolding b(2) using Cons.prems in_region_offset [of ?b ?n 4 x "4 * length (v # vs)"] by auto
  ultimately show ?case using Cons.IH [of "sp - 4" "st32 m (sp - 4) v"] Cons.prems(2) b(1) by (simp add: st32_outside)
qed simp

lemma frame_words_length: "length (frame_words err num c s) = (if user_mode (c_cs c) then 16 else 14)"
  by (simp add: frame_words_def)

lemma frame_state_outside:
  assumes "\<not> in_region (frame_base c s) 64 x"
  shows "mem (frame_state err num c s) x = mem s x"
proof -
  let ?w = "frame_words err num c s"
  have "entry_stack c s - 4 * of_nat (length ?w) = frame_base c s" by (simp add: frame_words_length frame_base_def)
  moreover have "\<not> in_region (frame_base c s) (4 * length ?w) x"
    using assms in_region_mono [of "frame_base c s" 56 x 64] by (auto simp: frame_words_length)
  ultimately have "pushed ?w (entry_stack c s) (mem s) x = mem s x" by (intro pushed_outside) (simp_all add: frame_words_length)
  then show ?thesis by (simp add: frame_state_def)
qed

text \<open>The structure that the handler gets holds the registers of the interrupted program.\<close>

lemma frame_words_at:
  "words (mem (frame_state err num c s)) (frame_base c s) (length (frame_words err num c s)) = rev (frame_words err num c s)"
  using words_pushed [of "frame_words err num c s" "entry_stack c s" "mem s"]
  unfolding frame_words_length by (cases "user_mode (c_cs c)") (simp_all add: frame_state_def frame_base_def)

lemma frame_regs_saved:
  fixes s :: "'a dtables_scheme" and c :: cpu and err num :: u32
  defines "r \<equiv> frame_regs err num c s"
  shows "r_eax r = c_eax c" "r_ecx r = c_ecx c" "r_edx r = c_edx c" "r_ebx r = c_ebx c" "r_ebp r = c_ebp c"
    "r_esi r = c_esi c" "r_edi r = c_edi c" "r_ds r = set_ax (c_ds c) (c_eax c)" "r_int_no r = num" "r_err_code r = err"
    "r_eip r = c_eip c" "r_cs r = ucast (c_cs c)" "r_eflags r = saved_flags c s"
    "user_mode (c_cs c) \<Longrightarrow> r_useresp r = c_esp c" "user_mode (c_cs c) \<Longrightarrow> r_ss r = ucast (c_ss c)"
  using frame_words_at [of err num c s]
  unfolding frame_words_length r_def frame_regs_def regs_at_def Let_def
  by (cases "user_mode (c_cs c)"; simp add: frame_words_def words_def upt_rec)+

lemma stub_enter_frame:
  "stub_enter (push num (push err (deliver entry (c, s)))) =
     (c\<lparr>c_esp := frame_base c s, c_ss := if user_mode (c_cs c) then ucast (t_ss0 (tss_entry s)) else c_ss c, c_cs := 0x08,
        c_eip := entry, c_eax := set_ax 0x10 (set_ax (c_ds c) (c_eax c)), c_ds := 0x10, c_es := 0x10, c_fs := 0x10, c_gs := 0x10\<rparr>,
      frame_state err num c s)"
  by (cases "user_mode (c_cs c)")
    (simp_all add: stub_enter_def deliver_def pusha_def push_def load_segments_def frame_state_def frame_base_def
      frame_words_def entry_stack_def Let_def)

lemma stub_leave_frame:
  assumes "words (mem t) (c_esp d) 16 = regs_words r"
  shows "stub_leave (d, t) =
     (d\<lparr>c_eax := r_eax r, c_ecx := r_ecx r, c_edx := r_edx r, c_ebx := r_ebx r,
        c_esp := if user_mode (ucast (r_cs r)) then r_useresp r else c_esp d + 56,
        c_ebp := r_ebp r, c_esi := r_esi r, c_edi := r_edi r, c_eip := r_eip r, c_eflags := r_eflags r, c_cs := ucast (r_cs r),
        c_ss := if user_mode (ucast (r_cs r)) then ucast (r_ss r) else c_ss d,
        c_ds := ucast (r_ds r), c_es := ucast (r_ds r), c_fs := ucast (r_ds r), c_gs := ucast (r_ds r)\<rparr>,
      t\<lparr>iflag := bit (r_eflags r) 9\<rparr>)"
  using popped_words [OF assms]
  by (cases "user_mode (ucast (r_cs r))")
    (simp_all add: stub_leave_def popa_def top_def drop_words_def load_segments_def iret_def Let_def add.assoc)

section \<open>Context\<close>

lemma low_half_set_ax: "ucast (set_ax v eax) = v"
  by (rule bit_word_eqI) (auto simp: set_ax_def bit_simps)

lemma selector_back: "ucast (ucast (v :: u16) :: u32) = v"
  by (rule bit_word_eqI) (simp add: bit_simps)

text \<open>
  The interrupt flag is kept twice, in the flags of the processor and in the machine state; they agree. What is left
  of a context after an interrupt: only ds is saved, and the common stub loads es, fs and gs from it.
\<close>

definition flags_agree :: "cpu \<Rightarrow> 'a hw_scheme \<Rightarrow> bool" where
  "flags_agree c s \<longleftrightarrow> bit (c_eflags c) 9 = iflag s"

definition resumed :: "cpu \<Rightarrow> cpu" where
  "resumed c = c\<lparr>c_es := c_ds c, c_fs := c_ds c, c_gs := c_ds c\<rparr>"

lemma saved_flags_agree: "flags_agree c s \<Longrightarrow> saved_flags c s = c_eflags c"
  by (rule bit_word_eqI) (auto simp: saved_flags_def flags_agree_def bit_simps)

lemma stub_restores:
  assumes "flags_agree c s"
    and h: "h (frame_regs err num c s) (frame_state err num c s) = Inr ((frame_regs err num c s)\<lparr>r_eax := v\<rparr>, t)"
  shows "\<exists>m. common_stub h junk (push num (push err (deliver entry (c, s)))) = Inr (resumed (c\<lparr>c_eax := v\<rparr>), t\<lparr>mem := m, iflag := iflag s\<rparr>)
    \<and> (\<forall>x. \<not> in_region (frame_base c s) 64 x \<longrightarrow> m x = mem t x)"
proof -
  let ?r = "(frame_regs err num c s)\<lparr>r_eax := v\<rparr>"
  let ?m = "put_words (frame_base c s) (regs_words ?r) (mem t)"
  obtain a d e where junk: "junk = (a, d, e)" by (cases junk)
  have len: "length (regs_words r) = 16" for r by (simp add: regs_words_def)
  have w: "words ?m (frame_base c s) 16 = regs_words ?r"
    using words_put_words [of "regs_words ?r" "frame_base c s" "mem t"] by (simp add: len)
  define b where "b = c\<lparr>c_esp := frame_base c s, c_ss := if user_mode (c_cs c) then ucast (t_ss0 (tss_entry s)) else c_ss c,
    c_cs := 0x08, c_eip := entry, c_ds := 0x10, c_es := 0x10, c_fs := 0x10, c_gs := 0x10, c_eax := a, c_edx := d, c_ecx := e\<rparr>"
  have b: "common_stub h junk (push num (push err (deliver entry (c, s)))) = Inr (stub_leave (b, t\<lparr>mem := ?m\<rparr>))"
    unfolding common_stub_def stub_enter_frame call_handler_def junk by (simp add: frame_regs_def [symmetric] h b_def)
  have "words (mem (t\<lparr>mem := ?m\<rparr>)) (c_esp b) 16 = regs_words ?r" using w by (simp add: b_def)
  note leave = stub_leave_frame [OF this]
  have "stub_leave (b, t\<lparr>mem := ?m\<rparr>) = (resumed (c\<lparr>c_eax := v\<rparr>), t\<lparr>mem := ?m, iflag := iflag s\<rparr>)"
    unfolding leave using assms(1)
    by (cases "user_mode (c_cs c)"; simp add: b_def frame_regs_saved low_half_set_ax selector_back saved_flags_agree
        flags_agree_def resumed_def frame_base_def entry_stack_def)
  then have "common_stub h junk (push num (push err (deliver entry (c, s)))) = Inr (resumed (c\<lparr>c_eax := v\<rparr>), t\<lparr>mem := ?m, iflag := iflag s\<rparr>)"
    using b by simp
  moreover have "\<forall>x. \<not> in_region (frame_base c s) 64 x \<longrightarrow> ?m x = mem t x"
    using put_words_outside [of "frame_base c s" "regs_words ?r"] by (simp add: len)
  ultimately show ?thesis by blast
qed

section \<open>Properties\<close>

lemma deliver_push_iflag:
  "apsnd (\<lambda>s. s\<lparr>iflag := False\<rparr>) (push v (deliver entry x)) = push v (deliver entry x)"
  "apsnd (\<lambda>s. s\<lparr>iflag := False\<rparr>) (deliver entry x) = deliver entry x"
  by (simp_all add: push_def deliver_def Let_def split: prod.split)

lemma isr_entry_stub: "isr_entry call ly n err junk x = common_stub (isr_handler call) junk
  (push (push_byte n) (push (if has_error_code n then err else 0) (deliver (isr_stub ly (unat n)) x)))"
  by (simp add: isr_entry_def Let_def deliver_push_iflag push_byte_def)

lemma irq_entry_stub: "irq_entry call ly k junk x = common_stub (irq_handler call) junk
  (push (push_byte (of_nat (32 + k))) (push 0 (deliver (irq_stub ly k) x)))"
  by (simp add: irq_entry_def Let_def deliver_push_iflag push_byte_def)

lemma isr_entry_restores:
  fixes call :: "'a dtables_scheme handler_call" and n :: u8 and err :: u32
  defines "e \<equiv> if has_error_code n then err else 0"
  assumes "flags_agree c s" and "interrupt_handlers s n = Some hdl"
    and "call hdl (frame_regs e (push_byte n) c s) (frame_state e (push_byte n) c s)
      = Inr ((frame_regs e (push_byte n) c s)\<lparr>r_eax := v\<rparr>, t)"
  shows "\<exists>m. isr_entry call ly n err junk (c, s) = Inr (resumed (c\<lparr>c_eax := v\<rparr>), t\<lparr>mem := m, iflag := iflag s\<rparr>)
    \<and> (\<forall>x. \<not> in_region (frame_base c s) 64 x \<longrightarrow> m x = mem t x)"
proof -
  have "interrupt_handlers (frame_state e (push_byte n) c s) n = Some hdl" using assms(3) by (simp add: frame_state_def)
  then have "isr_handler call (frame_regs e (push_byte n) c s) (frame_state e (push_byte n) c s)
      = Inr ((frame_regs e (push_byte n) c s)\<lparr>r_eax := v\<rparr>, t)"
    using isr_dispatch [of "frame_regs e (push_byte n) c s" n "frame_state e (push_byte n) c s" hdl call] assms(4)
    by (simp add: frame_regs_saved)
  from stub_restores [of c s "isr_handler call", OF assms(2) this] show ?thesis unfolding isr_entry_stub e_def .
qed

lemma irq_number:
  assumes "k < 16"
  shows "push_byte (of_nat (32 + k)) = of_nat (32 + k)"
proof -
  have "k \<in> set [0..<16]" using assms by simp
  then show ?thesis by (auto simp: upt_rec push_byte_def)
qed

text \<open>
  C13. A program interrupted by hardware, in ring 0 or in ring 3, by a handler that returns and leaves the saved registers alone (a timer
  interrupt that switches tasks is not one): the handler gets all general registers, eip, cs, ds and the flags of the program, and from ring 3 its esp and
  ss; the controllers are acknowledged; and the program goes on where it was with all its registers, its flags and its stack
  pointer, except that es, fs and gs now hold what ds holds, because the stub saves only ds. Beside what the handler did only 64 bytes of the
  kernel's stack have changed.
\<close>
theorem irq_resumes_program:
  fixes call :: "'a dtables_scheme handler_call"
  assumes "flags_agree c s" and "k < 16" and "interrupt_handlers s (of_nat (32 + k)) = Some hdl"
    and regs: "regs = frame_regs 0 (of_nat (32 + k)) c s" and f: "f = frame_state 0 (of_nat (32 + k)) c s"
    and h: "call hdl regs (f\<lparr>outs := (0x20, 0x20) # (if 8 \<le> k then [(0xA0, 0x20)] else []) @ outs s\<rparr>) = Inr (regs, t)"
  shows "r_int_no regs = of_nat (32 + k) \<and> r_eax regs = c_eax c \<and> r_ecx regs = c_ecx c \<and> r_edx regs = c_edx c \<and> r_ebx regs = c_ebx c
    \<and> r_ebp regs = c_ebp c \<and> r_esi regs = c_esi c \<and> r_edi regs = c_edi c \<and> r_eip regs = c_eip c \<and> r_eflags regs = c_eflags c
    \<and> ucast (r_ds regs) = c_ds c \<and> ucast (r_cs regs) = c_cs c
    \<and> (user_mode (c_cs c) \<longrightarrow> r_useresp regs = c_esp c \<and> ucast (r_ss regs) = c_ss c)
    \<and> (\<exists>m. irq_entry call ly k junk (c, s)
          = Inr (c\<lparr>c_es := c_ds c, c_fs := c_ds c, c_gs := c_ds c\<rparr>, t\<lparr>mem := m, iflag := iflag s\<rparr>)
      \<and> (\<forall>x. \<not> in_region (frame_base c s) 64 x \<longrightarrow> m x = mem t x))"
proof -
  have n: "push_byte (of_nat (32 + k)) = of_nat (32 + k)" by (rule irq_number [OF assms(2)])
  note saved = frame_regs_saved [where err = 0 and num = "of_nat (32 + k)" and c = c and s = s, folded regs]
  have eax: "regs\<lparr>r_eax := c_eax c\<rparr> = regs" using saved(1) by (metis registers.surjective registers.update_convs(9))
  have "irq_handler call regs f = Inr (regs\<lparr>r_eax := c_eax c\<rparr>, t)"
    using irq_acknowledges [OF saved(9), of call f] assms(2,3) h by (simp add: f frame_state_def Let_def eax)
  from stub_restores [of c s "irq_handler call", OF assms(1) this [unfolded regs f], of junk "irq_stub ly k"]
  have "\<exists>m. irq_entry call ly k junk (c, s)
        = Inr (c\<lparr>c_es := c_ds c, c_fs := c_ds c, c_gs := c_ds c\<rparr>, t\<lparr>mem := m, iflag := iflag s\<rparr>)
      \<and> (\<forall>x. \<not> in_region (frame_base c s) 64 x \<longrightarrow> m x = mem t x)"
    unfolding irq_entry_stub n by (simp add: resumed_def)
  then show ?thesis using saved saved_flags_agree [OF assms(1)] by (simp add: low_half_set_ax selector_back)
qed

text \<open>What the call with the number in eax and the parameter in ebx prints; \<open>str\<close> is the string that ebx points to, for call 0.\<close>

definition call_output :: "u8 list \<Rightarrow> cpu \<Rightarrow> u8 list" where
  "call_output str c = (if c_eax c = 0 then str else if c_eax c = 1 then bytes ''0x'' @ hexadecimal (unat (c_ebx c))
     else if c_eax c = 2 \<and> c_ebx c < 0x80000000 then decimal (unat (c_ebx c)) else [])"

lemma syscall_handler_output:
  assumes "c_eax c = 0 \<Longrightarrow> monitor_write (c_ebx c) f = Some (monitor_puts str f)"
    and r: "r_eax r = c_eax c" "r_ebx r = c_ebx c"
  shows "syscall_handler ret r f = Inr (r\<lparr>r_eax := if c_eax c < 3 then ret else c_eax c\<rparr>, monitor_puts (call_output str c) f)"
proof -
  have "c_eax c = 0 \<or> c_eax c = 1 \<or> c_eax c = 2" if "c_eax c < 3"
  proof -
    have "unat (c_eax c) < 3" using that by (simp add: word_less_nat_alt)
    then have "unat (c_eax c) = 0 \<or> unat (c_eax c) = 1 \<or> unat (c_eax c) = 2" by arith
    then show ?thesis by (simp add: word_unat_eq_iff)
  qed
  then consider "c_eax c = 0" | "c_eax c = 1" | "c_eax c = 2" | "\<not> c_eax c < 3" by blast
  then show ?thesis
  proof cases
    case 1
    then show ?thesis using assms by (simp add: syscall_handler_def num_syscalls_def syscalls_def call_output_def ends_def)
  next
    case 2
    then show ?thesis
      using r by (simp add: syscall_handler_def num_syscalls_def syscalls_def call_output_def monitor_write_hex_hexadecimal word_le_nat_alt)
  next
    case 3
    then show ?thesis
      using r by (simp add: syscall_handler_def num_syscalls_def syscalls_def call_output_def monitor_write_dec_decimal word_le_nat_alt)
  next
    case 4
    then have "c_eax c \<noteq> 0" "c_eax c \<noteq> 1" "c_eax c \<noteq> 2" "3 \<le> c_eax c" by auto
    moreover have "r\<lparr>r_eax := c_eax c\<rparr> = r" using r(1) by (metis registers.surjective registers.update_convs(9))
    ultimately show ?thesis using 4 r(1) by (simp add: syscall_handler_def num_syscalls_def call_output_def)
  qed
qed

text \<open>
  C22. The interrupt 0x80 of a program, in ring 3 or in ring 0: call 0 prints the string ebx points to (one that ends, and lies neither in
  the video memory nor on the kernel's stack), calls 1 and 2 the number in ebx in hexadecimal or (below \<open>2 ^ 31\<close>) decimal, other calls nothing. The program
  goes on behind the interrupt with the result of the call in eax, or its own eax when the call does not exist, and all other
  registers as they were, except that es, fs and gs hold what ds holds.
\<close>
theorem system_call_resumes_program:
  fixes call :: "'a dtables_scheme handler_call"
  assumes "flags_agree c s" and "interrupt_handlers s 0x80 = Some Syscall_handler" and "call Syscall_handler = syscall_handler ret"
    and "cursor_ok s"
    and str: "c_eax c = 0 \<longrightarrow> cstr (mem s) (c_ebx c) str \<and> length str < 4294967295
      \<and> (\<forall>x. in_region (c_ebx c) (Suc (length str)) x \<longrightarrow> \<not> in_video x \<and> \<not> in_region (frame_base c s) 64 x)"
  shows "\<exists>m. isr_entry call ly 0x80 err junk (c, s)
      = Inr (c\<lparr>c_eax := if c_eax c < 3 then ret else c_eax c, c_es := c_ds c, c_fs := c_ds c, c_gs := c_ds c\<rparr>,
          (monitor_puts (call_output str c) (frame_state 0 (push_byte 0x80) c s))\<lparr>mem := m, iflag := iflag s\<rparr>)
    \<and> (\<forall>x. \<not> in_region (frame_base c s) 64 x
        \<longrightarrow> m x = mem (monitor_puts (call_output str c) (frame_state 0 (push_byte 0x80) c s)) x)"
proof -
  let ?r = "frame_regs 0 (push_byte 0x80) c s" and ?f = "frame_state 0 (push_byte 0x80) c s"
  let ?v = "if c_eax c < 3 then ret else c_eax c"
  have none: "\<not> has_error_code 0x80" by (simp add: has_error_code_def)
  have string: "monitor_write (c_ebx c) ?f = Some (monitor_puts str ?f)" if "c_eax c = 0"
  proof (rule monitor_write_string)
    have s: "cstr (mem s) (c_ebx c) str" using str that by blast
    have "mem ?f x = mem s x" if "in_region (c_ebx c) (Suc (length str)) x" for x
      using str \<open>c_eax c = 0\<close> that by (intro frame_state_outside) blast
    then show "cstr (mem ?f) (c_ebx c) str" using str that by (intro cstr_frame [OF s]) blast+
    show "cursor_ok ?f" using assms(4) by (simp add: frame_state_def cursor_ok_def)
  qed (use str that in auto)
  have "call Syscall_handler ?r ?f = Inr (?r\<lparr>r_eax := ?v\<rparr>, monitor_puts (call_output str c) ?f)"
    unfolding assms(3) by (rule syscall_handler_output [OF string]) (simp_all add: frame_regs_saved)
  from isr_entry_restores [of c s "0x80" Syscall_handler call err, unfolded if_not_P [OF none], OF assms(1,2) this]
  show ?thesis unfolding resumed_def by simp
qed

text \<open>A program in ring 3 with interrupts on; es holds the kernel's segment, which \<^verbatim>\<open>switch_to_user_mode\<close> does not change.\<close>

definition user_program :: cpu where
  "user_program = \<lparr>c_eax = 0, c_ecx = 11, c_edx = 12, c_ebx = 0x9200, c_esp = 0xBFFFF000, c_ebp = 0xBFFFF100, c_esi = 13, c_edi = 14,
     c_eip = 0x101000, c_eflags = 0x202, c_cs = 0x1B, c_ss = 0x23, c_ds = 0x23, c_es = 0x10, c_fs = 0x23, c_gs = 0x23\<rparr>"

definition user_state :: dtables where
  "user_state = (set_kernel_stack 0x90000 dtables0)\<lparr>mem := (\<lambda>_. 0)(0x9200 := 72, 0x9201 := 105), iflag := True,
     interrupt_handlers := [0x21 \<mapsto> Keyboard_handler, 0x80 \<mapsto> Syscall_handler]\<rparr>"

lemma user_program_agrees: "flags_agree user_program user_state" "cursor_ok user_state"
  by (simp_all add: flags_agree_def user_program_def user_state_def cursor_ok_def set_kernel_stack_def dtables0_def interrupts.extend_def
      interrupts0_def monitor.extend_def monitor0_def)

lemma user_frame: "frame_base user_program user_state = 0x8FFC0"
  by (simp add: frame_base_def entry_stack_def user_mode_def user_program_def user_state_def set_kernel_stack_def)

theorem irq_resumes_program_witness:
  "\<exists>m. irq_entry (\<lambda>_ regs s. Inr (regs, s\<lparr>outs := (0x60, 1) # outs s\<rparr>)) layout0 1 (0, 0, 0) (user_program, user_state)
     = Inr (user_program\<lparr>c_es := 0x23\<rparr>, (frame_state 0 33 user_program user_state)
         \<lparr>outs := (0x60, 1) # (0x20, 0x20) # outs user_state, mem := m, iflag := True\<rparr>)"
proof -
  have "interrupt_handlers user_state (of_nat (32 + 1)) = Some Keyboard_handler" "(1 :: nat) < 16" by (simp_all add: user_state_def)
  from irq_resumes_program [of user_program user_state 1 Keyboard_handler _ _ "\<lambda>_ regs s. Inr (regs, s\<lparr>outs := (0x60, 1) # outs s\<rparr>)",
      OF user_program_agrees(1) this(2,1) refl refl refl, of layout0 "(0, 0, 0)"]
  obtain m where m: "irq_entry (\<lambda>_ regs s. Inr (regs, s\<lparr>outs := (0x60, 1) # outs s\<rparr>)) layout0 1 (0, 0, 0) (user_program, user_state)
     = Inr (user_program\<lparr>c_es := c_ds user_program, c_fs := c_ds user_program, c_gs := c_ds user_program\<rparr>,
         (frame_state 0 33 user_program user_state)
           \<lparr>outs := (0x60, 1) # (0x20, 0x20) # outs user_state, mem := m, iflag := iflag user_state\<rparr>)" by auto
  have "iflag user_state" by (simp add: user_state_def)
  moreover have "user_program\<lparr>c_es := c_ds user_program, c_fs := c_ds user_program, c_gs := c_ds user_program\<rparr> = user_program\<lparr>c_es := 0x23\<rparr>"
    by (simp add: user_program_def)
  ultimately show ?thesis using m by (intro exI [of _ m]) simp
qed

lemma user_string:
  "cstr (mem user_state) (c_ebx user_program) (bytes ''Hi'')"
  "in_region (c_ebx user_program) (Suc (length (bytes ''Hi''))) x
    \<Longrightarrow> \<not> in_video x \<and> \<not> in_region (frame_base user_program user_state) 64 x"
proof -
  show "cstr (mem user_state) (c_ebx user_program) (bytes ''Hi'')"
    by (simp add: user_state_def user_program_def bytes_def of_char_def)
  have "c_ebx user_program = 0x9200" "Suc (length (bytes ''Hi'')) = 3" by (simp_all add: user_program_def bytes_def)
  moreover assume "in_region (c_ebx user_program) (Suc (length (bytes ''Hi''))) x"
  ultimately have x: "unat x < 0x9210" using in_region_interval [of "0x9200" 3 x] by simp
  have "\<not> in_region 0x8FFC0 64 x" using in_region_interval [of "0x8FFC0" 64 x] x by simp
  moreover have "\<not> in_video x" using x by (intro low_not_video) simp
  ultimately show "\<not> in_video x \<and> \<not> in_region (frame_base user_program user_state) 64 x" by (simp add: user_frame)
qed

theorem system_call_resumes_program_witness:
  "\<exists>m. isr_entry (\<lambda>_. syscall_handler 7) layout0 0x80 0 (0, 0, 0) (user_program, user_state)
     = Inr (user_program\<lparr>c_eax := 7, c_es := 0x23\<rparr>,
         (monitor_puts (bytes ''Hi'') (frame_state 0 (push_byte 0x80) user_program user_state))\<lparr>mem := m, iflag := True\<rparr>)"
proof -
  have facts: "iflag user_state = True" "call_output (bytes ''Hi'') user_program = bytes ''Hi''"
    "user_program\<lparr>c_eax := if c_eax user_program < 3 then 7 else c_eax user_program, c_es := c_ds user_program,
        c_fs := c_ds user_program, c_gs := c_ds user_program\<rparr> = user_program\<lparr>c_eax := 7, c_es := 0x23\<rparr>"
    by (simp_all add: user_state_def user_program_def call_output_def)
  have "interrupt_handlers user_state 0x80 = Some Syscall_handler" by (simp add: user_state_def)
  moreover have "c_eax user_program = 0 \<longrightarrow> cstr (mem user_state) (c_ebx user_program) (bytes ''Hi'') \<and> length (bytes ''Hi'') < 4294967295
      \<and> (\<forall>x. in_region (c_ebx user_program) (Suc (length (bytes ''Hi''))) x
        \<longrightarrow> \<not> in_video x \<and> \<not> in_region (frame_base user_program user_state) 64 x)"
    using user_string by (simp add: bytes_def)
  ultimately show ?thesis
    using system_call_resumes_program [of user_program user_state "\<lambda>_. syscall_handler 7" 7 "bytes ''Hi''" layout0 0 "(0, 0, 0)",
        OF user_program_agrees(1) _ refl user_program_agrees(2)] unfolding facts by blast
qed

end
