(* ===== verification/Start.thy ===== *)
theory Start
  imports Boot Interrupt_Stubs
begin

text \<open>
  The assembly that the boot loader and the C code enter: the multiboot header and the entry point of sys/boot.s, and
  \<^verbatim>\<open>read_eip\<close> of sys/process.s. The boot loader leaves the address of its information in ebx and a stack in esp.
\<close>

section \<open>Definitions\<close>

definition MBOOT_PAGE_ALIGN :: u32 where "MBOOT_PAGE_ALIGN = push_bit 0 1"
definition MBOOT_MEM_INFO :: u32 where "MBOOT_MEM_INFO = push_bit 1 1"
definition MBOOT_HEADER_MAGIC :: u32 where "MBOOT_HEADER_MAGIC = 0x1BADB002"
definition MBOOT_HEADER_FLAGS :: u32 where "MBOOT_HEADER_FLAGS = MBOOT_PAGE_ALIGN OR MBOOT_MEM_INFO"
definition MBOOT_CHECKSUM :: u32 where "MBOOT_CHECKSUM = - (MBOOT_HEADER_MAGIC + MBOOT_HEADER_FLAGS)"

text \<open>The words at the label \<^verbatim>\<open>mboot\<close>; the addresses of the labels and sections are the linker's.\<close>

definition mboot :: "u32 \<Rightarrow> u32 \<Rightarrow> u32 \<Rightarrow> u32 \<Rightarrow> u32 \<Rightarrow> u32 list" where
  "mboot at_mboot code bss end_addr at_start =
     [MBOOT_HEADER_MAGIC, MBOOT_HEADER_FLAGS, MBOOT_CHECKSUM, at_mboot, code, bss, end_addr, at_start]"

text \<open>
  \<^verbatim>\<open>start\<close>: the arguments of \<^verbatim>\<open>kernel_start\<close> are on the stack, the first one on top; \<open>ret\<close> is the address that the
  call pushes. The \<^verbatim>\<open>hlt\<close> behind the call is never reached.
\<close>

definition start :: "nat \<Rightarrow> environment \<Rightarrow> u32 \<Rightarrow> cpu \<times> 'a kernel_scheme \<Rightarrow> ('a kernel_scheme, 'a kernel_scheme) result" where
  "start n env ret x =
     (let x = push (c_esp (fst x)) x;
          x = push (c_ebx (fst x)) x;
          x = apsnd (\<lambda>s. s\<lparr>iflag := False\<rparr>) x;
          x = push ret x;
          (c, s) = x
      in kernel_start n env (ld32 (mem s) (c_esp c + 4)) (ld32 (mem s) (c_esp c + 8)) s)"

text \<open>\<^verbatim>\<open>read_eip\<close>, behind a \<^verbatim>\<open>call\<close> that has pushed the address to return to.\<close>

definition read_eip :: "cpu \<times> 'a hw_scheme \<Rightarrow> cpu \<times> 'a hw_scheme" where
  "read_eip x =
     (let eax = top x;
          x = drop_words 1 x;
          x = apfst (\<lambda>c. c\<lparr>c_eax := eax\<rparr>) x
      in apfst (\<lambda>c. c\<lparr>c_eip := c_eax c\<rparr>) x)"

definition call_to :: "u32 \<Rightarrow> u32 \<Rightarrow> cpu \<times> 'a hw_scheme \<Rightarrow> cpu \<times> 'a hw_scheme" where
  "call_to target ret x = apfst (\<lambda>c. c\<lparr>c_eip := target\<rparr>) (push ret x)"

section \<open>Properties\<close>

lemma mboot_checksum: "sum_list (take 3 (mboot a c b e p)) = 0"
  by (simp add: mboot_def MBOOT_CHECKSUM_def)

lemma read_eip_returns_eip:
  assumes "call_to target ret (c, s) = x" and "read_eip x = (d, t)"
  shows "d = c\<lparr>c_eax := ret, c_eip := ret\<rparr>" and "\<not> in_region (c_esp c - 4) 4 y \<Longrightarrow> mem t y = mem s y"
  using assms by (auto simp: call_to_def read_eip_def push_def top_def drop_words_def st32_outside)

definition boot_stack :: "u32 \<Rightarrow> cpu \<Rightarrow> memory \<Rightarrow> memory" where
  "boot_stack ret c m = st32 (st32 (st32 m (c_esp c - 4) (c_esp c)) (c_esp c - 8) (c_ebx c)) (c_esp c - 12) ret"

lemma boot_stack_outside:
  assumes "\<not> in_region (c_esp c - 12) 12 x"
  shows "boot_stack ret c m x = m x"
proof -
  have "\<not> in_region (c_esp c - 12 + of_nat k) 4 x" if "k + 4 \<le> 12" for k
    using assms in_region_offset [of "c_esp c - 12" k 4 x 12] that by auto
  from this [of 0] this [of 4] this [of 8] show ?thesis by (simp add: boot_stack_def st32_outside)
qed

lemma start_arguments:
  "start n env ret (c, s) = kernel_start n env (c_ebx c) (c_esp c) (s\<lparr>iflag := False, mem := boot_stack ret c (mem s)\<rparr>)"
  by (simp add: start_def push_def Let_def boot_stack_def ld32_st32_other sep_def)

text \<open>
  C28. The entry point of the kernel hands the multiboot information and the stack of the boot loader to \<^verbatim>\<open>kernel_start\<close>; when that
  information lists no module, the kernel runs into the assertion and halts with interrupts off, before it touches paging,
  instead of taking a ramdisk from nowhere.
\<close>
theorem boot_without_ramdisk_halts:
  assumes "mods_count (mem s) (c_ebx c) = 0" and "sep (c_esp c - 12) 12 (c_ebx c + 20) 4"
    and "\<forall>x. in_region (c_ebx c + 20) 4 x \<longrightarrow> \<not> in_video x"
  shows "\<exists>t. start n env ret (c, s) = Inl (Halted t) \<and> \<not> iflag t \<and> cursor_ok t
    \<and> interrupt_handlers t = (\<lambda>_. None)(32 := Some Timer_callback)"
proof -
  have "mods_count (boot_stack ret c (mem s)) (c_ebx c) = mods_count (mem s) (c_ebx c)"
    unfolding mods_count_def by (intro ld32_frame boot_stack_outside) (rule sep_not_in_region [OF assms(2)])
  then show ?thesis
    unfolding start_arguments using assms(1,3) by (intro start_without_ramdisk_halts) simp_all
qed

theorem boot_without_ramdisk_halts_witness:
  "\<exists>t. start 3 env0 0x100020 (user_program\<lparr>c_ebx := 0x9000, c_esp := 0x7000\<rparr>, kernel0) = Inl (Halted t) \<and> \<not> iflag t"
proof -
  have "\<not> in_video x" if x: "in_region (0x9000 + 20) 4 x" for x
  proof (rule low_not_video)
    obtain i where "i < 4" "x = 0x9000 + 20 + of_nat i" using x by (rule in_regionE)
    then show "unat x < 0xB8000" using unat_add_of_nat [of "0x9014" i] by simp
  qed
  then show ?thesis
    using boot_without_ramdisk_halts [of kernel0 "user_program\<lparr>c_ebx := 0x9000, c_esp := 0x7000\<rparr>" 3 env0 "0x100020"]
    by (auto simp: mods_count_def sep_def)
qed

end
