(* ===== verification/Elf.thy ===== *)
theory Elf
  imports Common
begin

text \<open>
  The ELF loader, sys/elf.c and include/elf.h. The file is not part of the build and does not compile as it stands:
  several names in it are misspelt. The definitions below read each undeclared name as the only
  declared one that it can stand for: \<^verbatim>\<open>hdr\<close> and \<^verbatim>\<open>headerr\<close> are the parameter \<^verbatim>\<open>header\<close>, \<^verbatim>\<open>idx\<close> is \<^verbatim>\<open>index\<close>, \<^verbatim>\<open>i\<close> is
  \<^verbatim>\<open>counter\<close>, \<^verbatim>\<open>curr\<close> is \<^verbatim>\<open>section\<close>, \<^verbatim>\<open>shrd\<close> is \<^verbatim>\<open>shdr\<close>, \<^verbatim>\<open>targe\<close> is \<^verbatim>\<open>target\<close>, \<^verbatim>\<open>validate_elf\<close> is \<^verbatim>\<open>elf_check_valid\<close>, \<^verbatim>\<open>null\<close> is
  \<^verbatim>\<open>NULL\<close>; types and macros are found regardless of case.

  What the repository does not define at all is an argument, \<open>elf_env\<close>: the macros \<^verbatim>\<open>ERROR\<close> and \<^verbatim>\<open>DEBUG\<close> (a format and its
  arguments), the constant \<^verbatim>\<open>SHN_ABS\<close>, the functions \<^verbatim>\<open>malloc\<close> and \<^verbatim>\<open>elf_lookup_symbol\<close>.

  A pointer to one of the structures is an address, and its fields are read from the raw memory at the offsets
  that the compiler gives them; the code writes a field of a section header and the words that it relocates.
  An \<^verbatim>\<open>int\<close> that holds an address or \<^verbatim>\<open>ELF_RELOC_ERR\<close> is a \<open>u32\<close>, since the code only adds, subtracts and compares it.
\<close>

section \<open>Structures and constants\<close>

record 's elf_env =
  elf_ERROR :: "string \<Rightarrow> u32 list \<Rightarrow> 's \<Rightarrow> 's"
  elf_DEBUG :: "string \<Rightarrow> u32 list \<Rightarrow> 's \<Rightarrow> 's"
  SHN_ABS :: u16
  malloc :: "u32 \<Rightarrow> 's \<Rightarrow> u32 \<times> 's"
  elf_lookup_symbol :: "u32 \<Rightarrow> 's \<Rightarrow> u32"

text \<open>A message that ends in a newline. (The one of \<open>elf_DEBUG\<close> ends in a misspelt newline.)\<close>

abbreviation line :: "string \<Rightarrow> string" where "line msg \<equiv> msg @ [CHR 0x0A]"

definition ELFMAG0 :: u8 where "ELFMAG0 = 0x7"
definition ELFMAG1 :: u8 where "ELFMAG1 = 0x45"
definition ELFMAG2 :: u8 where "ELFMAG2 = 0x4C"
definition ELFMAG3 :: u8 where "ELFMAG3 = 0x46"
definition ELFDATA2LSB :: u8 where "ELFDATA2LSB = 1"
definition ELFCLASS32 :: u8 where "ELFCLASS32 = 1"
definition EM_386 :: u16 where "EM_386 = 3"
definition EV_CURRENT :: u8 where "EV_CURRENT = 1"
definition ELF_RELOC_ERR :: u32 where "ELF_RELOC_ERR = - 1"

text \<open>\<^verbatim>\<open>enum elf_identification\<close>, the positions in \<^verbatim>\<open>elf_ident\<close>; \<^verbatim>\<open>enum elf_file_type\<close>.\<close>

definition EI_MAG0 :: u32 where "EI_MAG0 = 0"
definition EI_MAG1 :: u32 where "EI_MAG1 = 1"
definition EI_MAG2 :: u32 where "EI_MAG2 = 2"
definition EI_MAG3 :: u32 where "EI_MAG3 = 3"
definition EI_CLASS :: u32 where "EI_CLASS = 4"
definition EI_DATA :: u32 where "EI_DATA = 5"
definition EI_VERSION :: u32 where "EI_VERSION = 6"
definition ET_REL :: u16 where "ET_REL = 1"
definition ET_EXEC :: u16 where "ET_EXEC = 2"

definition SHN_UNDEF :: nat where "SHN_UNDEF = 0"
definition SHT_NOBITS :: u32 where "SHT_NOBITS = 8"
definition SHT_REL :: u32 where "SHT_REL = 9"
definition SHF_ALLOC :: u32 where "SHF_ALLOC = 0x02"
definition STB_WEAK :: u8 where "STB_WEAK = 2"
definition R_386_NONE :: u8 where "R_386_NONE = 0"
definition R_386_32 :: u8 where "R_386_32 = 1"
definition R_386_PC32 :: u8 where "R_386_PC32 = 2"

definition ELF32_ST_BIND :: "u8 \<Rightarrow> u8" where "ELF32_ST_BIND info = drop_bit 4 info"
definition ELF32_R_SYM :: "u32 \<Rightarrow> u32" where "ELF32_R_SYM info = drop_bit 8 info"
definition ELF32_R_TYPE :: "u32 \<Rightarrow> u8" where "ELF32_R_TYPE info = ucast info"
definition DO_386_32 :: "u32 \<Rightarrow> u32 \<Rightarrow> u32" where "DO_386_32 S A = S + A"
definition DO_386_PC32 :: "u32 \<Rightarrow> u32 \<Rightarrow> u32 \<Rightarrow> u32" where "DO_386_PC32 S A P = S + A - P"

text \<open>\<^verbatim>\<open>Elf32_elfhdr\<close>: 52 bytes.\<close>

definition elf_ident :: "memory \<Rightarrow> u32 \<Rightarrow> u32 \<Rightarrow> u8" where "elf_ident m header i = m (header + i)"
definition elf_type :: "memory \<Rightarrow> u32 \<Rightarrow> u16" where "elf_type m header = ld16 m (header + 16)"
definition elf_machine :: "memory \<Rightarrow> u32 \<Rightarrow> u16" where "elf_machine m header = ld16 m (header + 18)"
definition elf_entry :: "memory \<Rightarrow> u32 \<Rightarrow> u32" where "elf_entry m header = ld32 m (header + 24)"
definition elf_shoff :: "memory \<Rightarrow> u32 \<Rightarrow> u32" where "elf_shoff m header = ld32 m (header + 32)"
definition elf_shnum :: "memory \<Rightarrow> u32 \<Rightarrow> u16" where "elf_shnum m header = ld16 m (header + 48)"
definition elf_shstrndx :: "memory \<Rightarrow> u32 \<Rightarrow> u16" where "elf_shstrndx m header = ld16 m (header + 50)"

text \<open>\<^verbatim>\<open>Elf32_shdr\<close>: 40 bytes.\<close>

definition sizeof_shdr :: u32 where "sizeof_shdr = 40"
definition sh_type :: "memory \<Rightarrow> u32 \<Rightarrow> u32" where "sh_type m sec = ld32 m (sec + 4)"
definition sh_flags :: "memory \<Rightarrow> u32 \<Rightarrow> u32" where "sh_flags m sec = ld32 m (sec + 8)"
definition sh_offset :: "memory \<Rightarrow> u32 \<Rightarrow> u32" where "sh_offset m sec = ld32 m (sec + 16)"
definition sh_size :: "memory \<Rightarrow> u32 \<Rightarrow> u32" where "sh_size m sec = ld32 m (sec + 20)"
definition sh_link :: "memory \<Rightarrow> u32 \<Rightarrow> u32" where "sh_link m sec = ld32 m (sec + 24)"
definition sh_info :: "memory \<Rightarrow> u32 \<Rightarrow> u32" where "sh_info m sec = ld32 m (sec + 28)"
definition sh_entsize :: "memory \<Rightarrow> u32 \<Rightarrow> u32" where "sh_entsize m sec = ld32 m (sec + 36)"
definition set_sh_offset :: "u32 \<Rightarrow> u32 \<Rightarrow> memory \<Rightarrow> memory" where "set_sh_offset sec v m = st32 m (sec + 16) v"

text \<open>\<^verbatim>\<open>Elf32_sym\<close>: 16 bytes. \<^verbatim>\<open>Elf32_Rel\<close>: 12 bytes, since the structure has a field for an addend.\<close>

definition sizeof_sym :: u32 where "sizeof_sym = 16"
definition st_name :: "memory \<Rightarrow> u32 \<Rightarrow> u32" where "st_name m symbol = ld32 m symbol"
definition st_value :: "memory \<Rightarrow> u32 \<Rightarrow> u32" where "st_value m symbol = ld32 m (symbol + 4)"
definition st_info :: "memory \<Rightarrow> u32 \<Rightarrow> u8" where "st_info m symbol = m (symbol + 12)"
definition st_shndx :: "memory \<Rightarrow> u32 \<Rightarrow> u16" where "st_shndx m symbol = ld16 m (symbol + 14)"

definition sizeof_rel :: u32 where "sizeof_rel = 12"
definition r_offset :: "memory \<Rightarrow> u32 \<Rightarrow> u32" where "r_offset m rel = ld32 m rel"
definition r_info :: "memory \<Rightarrow> u32 \<Rightarrow> u32" where "r_info m rel = ld32 m (rel + 4)"

lemmas elf_constants = ELFMAG0_def ELFMAG1_def ELFMAG2_def ELFMAG3_def ELFDATA2LSB_def ELFCLASS32_def EM_386_def
  EV_CURRENT_def EI_MAG0_def EI_MAG1_def EI_MAG2_def EI_MAG3_def EI_CLASS_def EI_DATA_def EI_VERSION_def
  ET_REL_def ET_EXEC_def

section \<open>Access to sections, names and symbols\<close>

definition elf_sheader :: "memory \<Rightarrow> u32 \<Rightarrow> u32" where
  "elf_sheader m header = header + elf_shoff m header"

definition elf_section :: "memory \<Rightarrow> u32 \<Rightarrow> u32 \<Rightarrow> u32" where
  "elf_section m header index = elf_sheader m header + sizeof_shdr * index"

definition elf_str_table :: "memory \<Rightarrow> u32 \<Rightarrow> u32" where
  "elf_str_table m header =
     (if unat (elf_shstrndx m header) = SHN_UNDEF then 0
      else header + sh_offset m (elf_section m header (ucast (elf_shstrndx m header))))"

definition elf_lookup_string :: "memory \<Rightarrow> u32 \<Rightarrow> u32 \<Rightarrow> u32" where
  "elf_lookup_string m header offset =
     (let strtab = elf_str_table m header in if strtab = 0 then 0 else strtab + offset)"

definition elf_get_symval ::
  "('a hw_scheme) elf_env \<Rightarrow> u32 \<Rightarrow> u32 \<Rightarrow> u32 \<Rightarrow> 'a hw_scheme \<Rightarrow> u32 \<times> 'a hw_scheme" where
  "elf_get_symval env header table index s =
     (let m = mem s in
      if unat table = SHN_UNDEF \<or> unat index = SHN_UNDEF then (0, s)
      else
        (let symtab = elf_section m header table in
         if sh_size m symtab \<le> index then
           (ELF_RELOC_ERR, elf_ERROR env (line ''Symbol index out of Range (%d:%u).'') [table, index] s)
         else
           (let symaddr = header + sh_offset m symtab;
                symbol = symaddr + sizeof_sym * index
            in if unat (st_shndx m symbol) = SHN_UNDEF then
                 (let strtab = elf_section m header (sh_link m symtab);
                      name = header + sh_offset m strtab + st_name m symbol;
                      target = elf_lookup_symbol env name s
                  in if target = 0 then
                       (if ELF32_ST_BIND (st_info m symbol) AND STB_WEAK \<noteq> 0 then (0, s)
                        else (ELF_RELOC_ERR, elf_ERROR env (line ''Undefined External Symbol : %s.'') [name] s))
                     else (target, s))
               else if st_shndx m symbol = SHN_ABS env then (st_value m symbol, s)
               else
                 (let target = elf_section m header (ucast (st_shndx m symbol))
                  in (header + st_value m symbol + sh_offset m target, s)))))"

section \<open>Checks\<close>

definition elf_check_valid :: "('a hw_scheme) elf_env \<Rightarrow> u32 \<Rightarrow> 'a hw_scheme \<Rightarrow> bool \<times> 'a hw_scheme" where
  "elf_check_valid env header s =
     (let m = mem s in
      if header = 0 then (False, s)
      else if elf_ident m header EI_MAG0 \<noteq> ELFMAG0 then (False, elf_ERROR env (line ''ELF Header EI_MAG0 incorrect.'') [] s)
      else if elf_ident m header EI_MAG1 \<noteq> ELFMAG1 then (False, elf_ERROR env (line ''ELF Header EI_MAG1 incorrect.'') [] s)
      else if elf_ident m header EI_MAG2 \<noteq> ELFMAG2 then (False, elf_ERROR env (line ''ELF Header EI_MAG2 incorrect.'') [] s)
      else if elf_ident m header EI_MAG3 \<noteq> ELFMAG3 then (False, elf_ERROR env (line ''ELF Header EI_MAG3 incorrect.'') [] s)
      else (True, s))"

definition elf_check_supported :: "('a hw_scheme) elf_env \<Rightarrow> u32 \<Rightarrow> 'a hw_scheme \<Rightarrow> bool \<times> 'a hw_scheme" where
  "elf_check_supported env header s =
     (let (ok, s) = elf_check_valid env header s; m = mem s in
      if \<not> ok then (False, elf_ERROR env (line ''Invalid ELF File.'') [] s)
      else if elf_ident m header EI_CLASS \<noteq> ELFCLASS32 then (False, elf_ERROR env (line ''Unsupported ELF File Class'') [] s)
      else if elf_ident m header EI_DATA \<noteq> ELFDATA2LSB then (False, elf_ERROR env (line ''Unsupported ELF File Byte order'') [] s)
      else if elf_machine m header \<noteq> EM_386 then (False, elf_ERROR env (line ''Unsupported ELF File target.'') [] s)
      else if elf_ident m header EI_VERSION \<noteq> EV_CURRENT then (False, elf_ERROR env (line ''Unsupported ELF File version.'') [] s)
      else if elf_type m header \<noteq> ET_REL \<and> elf_type m header \<noteq> ET_EXEC
           then (False, elf_ERROR env (line ''Unsupported ELF File type.'') [] s)
      else (True, s))"

section \<open>Relocation\<close>

definition elf_do_reloc ::
  "('a hw_scheme) elf_env \<Rightarrow> u32 \<Rightarrow> u32 \<Rightarrow> u32 \<Rightarrow> 'a hw_scheme \<Rightarrow> u32 \<times> 'a hw_scheme" where
  "elf_do_reloc env header rel reltab s =
     (let m = mem s;
          target = elf_section m header (sh_info m reltab);
          addr = header + sh_offset m target;
          ref = addr + r_offset m rel;
          (symval, s) = (if unat (ELF32_R_SYM (r_info m rel)) \<noteq> SHN_UNDEF
                         then elf_get_symval env header (sh_link m reltab) (ELF32_R_SYM (r_info m rel)) s else (0, s))
      in if unat (ELF32_R_SYM (r_info m rel)) \<noteq> SHN_UNDEF \<and> symval = ELF_RELOC_ERR then (ELF_RELOC_ERR, s)
         else
           (let m = mem s; kind = ELF32_R_TYPE (r_info m rel) in
            if kind = R_386_NONE then (symval, s)
            else if kind = R_386_32 then (symval, s\<lparr>mem := st32 m ref (DO_386_32 symval (ld32 m ref))\<rparr>)
            else if kind = R_386_PC32 then (symval, s\<lparr>mem := st32 m ref (DO_386_PC32 symval (ld32 m ref) ref)\<rparr>)
            else (ELF_RELOC_ERR, elf_ERROR env (line ''Unsupported Relocation Type (%d).'') [ucast kind] s)))"

section \<open>Loading\<close>

lemma counter_measure:
  assumes "counter < (bound :: u32)"
  shows "4294967296 - unat (counter + 1) < 4294967296 - unat counter"
proof -
  have "unat counter < unat bound" using assms by (simp add: word_less_nat_alt)
  then have "unat counter + 1 < 4294967296" using unat_lt_u32 [of bound] by linarith
  then show ?thesis using unat_add_lem32 [of counter 1] by simp
qed

definition stage1_section :: "('a hw_scheme) elf_env \<Rightarrow> u32 \<Rightarrow> u32 \<Rightarrow> 'a hw_scheme \<Rightarrow> 'a hw_scheme" where
  "stage1_section env header sec s =
     (if sh_type (mem s) sec = SHT_NOBITS \<and> sh_size (mem s) sec \<noteq> 0 \<and> sh_flags (mem s) sec AND SHF_ALLOC \<noteq> 0 then
        (let (p, s) = malloc env (sh_size (mem s) sec) s;
             s = s\<lparr>mem := memset (mem s) p 0 (sh_size (mem s) sec)\<rparr>;
             s = s\<lparr>mem := set_sh_offset sec (p - header) (mem s)\<rparr>
         in elf_DEBUG env ''Allocated memory for a section (%ld).m'' [sh_size (mem s) sec] s)
      else s)"

function stage1_loop :: "('a hw_scheme) elf_env \<Rightarrow> u32 \<Rightarrow> u32 \<Rightarrow> u32 \<Rightarrow> 'a hw_scheme \<Rightarrow> 'a hw_scheme" where
  "stage1_loop env header shdr counter s =
     (if counter < ucast (elf_shnum (mem s) header)
      then stage1_loop env header shdr (counter + 1) (stage1_section env header (shdr + sizeof_shdr * counter) s)
      else s)"
  by pat_completeness auto
termination
  by (relation "measure (\<lambda>(env, header, shdr, counter, s). 4294967296 - unat counter)") (auto intro: counter_measure)

definition elf_load_stage1 :: "('a hw_scheme) elf_env \<Rightarrow> u32 \<Rightarrow> 'a hw_scheme \<Rightarrow> u32 \<times> 'a hw_scheme" where
  "elf_load_stage1 env header s = (0, stage1_loop env header (elf_sheader (mem s) header) 0 s)"

text \<open>
  The loops of \<^verbatim>\<open>elf_load_stage2\<close>. A section whose entry size is 0 makes the code divide by zero.
\<close>

function reloc_loop ::
  "('a hw_scheme) elf_env \<Rightarrow> u32 \<Rightarrow> u32 \<Rightarrow> u32 \<Rightarrow> 'a hw_scheme \<Rightarrow> ('a hw_scheme, u32 \<times> 'a hw_scheme) result" where
  "reloc_loop env header sec index s =
     (if sh_entsize (mem s) sec = 0 then Inl (Undefined ''division by zero'')
      else if index < sh_size (mem s) sec div sh_entsize (mem s) sec then
        (case elf_do_reloc env header (header + sh_offset (mem s) sec + sizeof_rel * index) sec s of (r, t) \<Rightarrow>
           if r = ELF_RELOC_ERR then Inr (ELF_RELOC_ERR, elf_ERROR env (line ''Failed to relocate symbol.'') [] t)
           else reloc_loop env header sec (index + 1) t)
      else Inr (0, s))"
  by pat_completeness auto
termination
  by (relation "measure (\<lambda>(env, header, sec, index, s). 4294967296 - unat index)") (auto intro: counter_measure)

function stage2_loop ::
  "('a hw_scheme) elf_env \<Rightarrow> u32 \<Rightarrow> u32 \<Rightarrow> u32 \<Rightarrow> 'a hw_scheme \<Rightarrow> ('a hw_scheme, u32 \<times> 'a hw_scheme) result" where
  "stage2_loop env header shdr counter s =
     (if counter < ucast (elf_shnum (mem s) header) then
        (let sec = shdr + sizeof_shdr * counter in
         case (if sh_type (mem s) sec = SHT_REL then reloc_loop env header sec 0 s else Inr (0, s)) of
           Inl e \<Rightarrow> Inl e
         | Inr (r, t) \<Rightarrow> if r = ELF_RELOC_ERR then Inr (ELF_RELOC_ERR, t) else stage2_loop env header shdr (counter + 1) t)
      else Inr (0, s))"
  by pat_completeness auto
termination
  by (relation "measure (\<lambda>(env, header, shdr, counter, s). 4294967296 - unat counter)") (auto intro: counter_measure)

definition elf_load_stage2 ::
  "('a hw_scheme) elf_env \<Rightarrow> u32 \<Rightarrow> 'a hw_scheme \<Rightarrow> ('a hw_scheme, u32 \<times> 'a hw_scheme) result" where
  "elf_load_stage2 env header s = stage2_loop env header (elf_sheader (mem s) header) 0 s"

declare stage1_loop.simps [simp del] reloc_loop.simps [simp del] stage2_loop.simps [simp del]

definition elf_load_rel ::
  "('a hw_scheme) elf_env \<Rightarrow> u32 \<Rightarrow> 'a hw_scheme \<Rightarrow> ('a hw_scheme, u32 \<times> 'a hw_scheme) result" where
  "elf_load_rel env header s =
     (let (result, s) = elf_load_stage1 env header s in
      if result = ELF_RELOC_ERR then Inr (0, elf_ERROR env (line ''Unable to load ELF file.'') [] s)
      else bind_res (elf_load_stage2 env header s) (\<lambda>(result, s).
        if result = ELF_RELOC_ERR then Inr (0, elf_ERROR env (line ''Unable to load ELF file.'') [] s)
        else Inr (elf_entry (mem s) header, s)))"

text \<open>
  The result of \<^verbatim>\<open>elf_load_file\<close>: \<open>None\<close> where it returns without a value, after the error message of its first
  branch.
\<close>

definition elf_load_file ::
  "('a hw_scheme) elf_env \<Rightarrow> u32 \<Rightarrow> 'a hw_scheme \<Rightarrow> ('a hw_scheme, u32 option \<times> 'a hw_scheme) result" where
  "elf_load_file env f s =
     (let header = f; (ok, s) = elf_check_supported env header s in
      if \<not> ok then Inr (None, elf_ERROR env (line ''ELF File cannot be loaded.'') [] s)
      else if elf_type (mem s) header = ET_EXEC then Inr (Some 0, s)
      else if elf_type (mem s) header = ET_REL then
        bind_res (elf_load_rel env header s) (\<lambda>(entry, s). Inr (Some entry, s))
      else Inr (Some 0, s))"

section \<open>The checks\<close>

text \<open>The headers the loader accepts, as one condition on the first 20 bytes of the file.\<close>

definition supported_header :: "memory \<Rightarrow> u32 \<Rightarrow> bool" where
  "supported_header m header \<longleftrightarrow> header \<noteq> 0
     \<and> map (\<lambda>i. m (header + of_nat i)) [0..<7] = [0x7, 0x45, 0x4C, 0x46, 1, 1, 1]
     \<and> ld16 m (header + 16) \<in> {1, 2} \<and> ld16 m (header + 18) = 3"

lemma supported_header_bytes:
  "supported_header m header \<longleftrightarrow> header \<noteq> 0 \<and> m header = 0x7 \<and> m (header + 1) = 0x45 \<and> m (header + 2) = 0x4C
     \<and> m (header + 3) = 0x46 \<and> m (header + 4) = 1 \<and> m (header + 5) = 1 \<and> m (header + 6) = 1
     \<and> ld16 m (header + 16) \<in> {1, 2} \<and> ld16 m (header + 18) = 3"
proof -
  have "[0..<7] = [0, 1, 2, 3, 4, 5, 6 :: nat]" by (simp add: upt_rec)
  then show ?thesis by (auto simp: supported_header_def)
qed

lemma elf_check_valid_iff:
  "fst (elf_check_valid env header s) \<longleftrightarrow> header \<noteq> 0 \<and> mem s header = 0x7 \<and> mem s (header + 1) = 0x45
     \<and> mem s (header + 2) = 0x4C \<and> mem s (header + 3) = 0x46"
  "fst (elf_check_valid env header s) \<Longrightarrow> snd (elf_check_valid env header s) = s"
  by (auto simp: elf_check_valid_def elf_ident_def elf_constants Let_def)

lemma elf_supported:
  assumes "supported_header (mem s) header"
  shows "elf_check_supported env header s = (True, s)"
proof -
  have "fst (elf_check_valid env header s)" using assms by (simp add: elf_check_valid_iff supported_header_bytes)
  then have "elf_check_valid env header s = (True, s)" using elf_check_valid_iff(2) by (metis prod.collapse)
  then show ?thesis
    using assms by (auto simp: elf_check_supported_def supported_header_bytes elf_ident_def elf_type_def elf_machine_def elf_constants Let_def)
qed

lemma elf_unsupported:
  assumes "\<not> supported_header (mem s) header"
  shows "\<not> fst (elf_check_supported env header s)"
proof (cases "fst (elf_check_valid env header s)")
  case True
  then have "elf_check_valid env header s = (True, s)" using elf_check_valid_iff(2) by (metis prod.collapse)
  then show ?thesis
    using assms True [unfolded elf_check_valid_iff(1)]
    by (auto simp: elf_check_supported_def supported_header_bytes elf_ident_def elf_type_def elf_machine_def elf_constants Let_def)
next
  case False
  then obtain t where "elf_check_valid env header s = (False, t)" by (metis prod.collapse)
  then show ?thesis by (simp add: elf_check_supported_def)
qed

text \<open>
  The loader's checks, one after the other with a message each, accept exactly the supported
  headers: 32 bits, little endian, current version, for the 386, relocatable or executable; and they leave the
  machine alone when they accept.
\<close>
theorem elf_check_supported_decides:
  "elf_check_supported env header s =
     (if supported_header (mem s) header then (True, s) else (False, snd (elf_check_supported env header s)))"
  using elf_supported [of s header env] elf_unsupported [of s header env]
  by (cases "elf_check_supported env header s") auto

text \<open>
  C40. The constant for the first byte of the magic number is 0x07, where ELF files have 0x7F: no ELF file is ever
  loaded. With error messages that leave the memory alone, \<open>elf_load_file\<close> leaves it alone, and returns without a value.
\<close>
theorem elf_files_are_rejected:
  assumes "mem s header = 0x7F" and "\<And>msg args t. mem (elf_ERROR env msg args t) = mem t"
  shows "\<exists>t. elf_load_file env header s = Inr (None, t) \<and> mem t = mem s"
proof -
  have "mem (snd (elf_check_valid env header s)) = mem s" by (simp add: elf_check_valid_def assms(2) Let_def)
  moreover have "\<not> fst (elf_check_valid env header s)" using assms(1) by (simp add: elf_check_valid_iff)
  ultimately obtain t where "elf_check_valid env header s = (False, t)" "mem t = mem s" by (metis prod.collapse)
  then show ?thesis by (simp add: elf_load_file_def elf_check_supported_def assms(2))
qed

section \<open>Relocation of a file\<close>

text \<open>
  What the second stage should do, read off the file as it is before the stage and told by the layout of ELF files alone, not by the functions of the
  loader: \<open>section_at\<close> is the header of a section, \<open>section_base\<close> the place of its contents. The value of a symbol is its
  offset in its section's contents, its absolute value, or for a symbol from outside what the lookup finds; a weak one
  that is not found is 0, and a strong one, like an index behind the table, has no value.
\<close>

definition section_at :: "memory \<Rightarrow> u32 \<Rightarrow> u32 \<Rightarrow> u32" where
  "section_at m header k = header + ld32 m (header + 32) + 40 * k"

definition section_base :: "memory \<Rightarrow> u32 \<Rightarrow> u32 \<Rightarrow> u32" where
  "section_base m header k = header + ld32 m (section_at m header k + 16)"

definition sym_value :: "('a hw_scheme) elf_env \<Rightarrow> u32 \<Rightarrow> 'a hw_scheme \<Rightarrow> u32 \<Rightarrow> u32 \<Rightarrow> u32 option" where
  "sym_value env header s k n =
     (let m = mem s;
          sym = section_base m header k + 16 * n;
          section = ld16 m (sym + 14);
          found = elf_lookup_symbol env (section_base m header (ld32 m (section_at m header k + 24)) + ld32 m sym) s
      in if n = 0 then Some 0
         else if k = 0 \<or> ld32 m (section_at m header k + 20) div 16 \<le> n then None
         else if section = 0 then
           (if found \<noteq> 0 then Some found else if drop_bit 4 (m (sym + 12)) = 2 then Some 0 else None)
         else if section = SHN_ABS env then Some (ld32 m (sym + 4))
         else Some (section_base m header (ucast section) + ld32 m (sym + 4)))"

text \<open>
  A relocation is a triple of its kind, the value of its symbol and the word it is about; its entry is taken to have 12
  bytes, as the structure is declared. \<open>reloc_jobs\<close> lists the entries of all relocation sections.
\<close>

type_synonym reloc = "u8 \<times> u32 option \<times> u32"

definition reloc_entry :: "('a hw_scheme) elf_env \<Rightarrow> u32 \<Rightarrow> 'a hw_scheme \<Rightarrow> u32 \<times> nat \<Rightarrow> reloc" where
  "reloc_entry env header s = (\<lambda>(sec, i).
     let m = mem s;
         rel = header + ld32 m (sec + 16) + 12 * of_nat i;
         info = ld32 m (rel + 4)
     in (ucast info, sym_value env header s (ld32 m (sec + 24)) (drop_bit 8 info),
         section_base m header (ld32 m (sec + 28)) + ld32 m rel))"

definition section_jobs :: "memory \<Rightarrow> u32 \<Rightarrow> (u32 \<times> nat) list" where
  "section_jobs m sec =
     (if sh_type m sec = SHT_REL then map (Pair sec) [0..<unat (sh_size m sec div sh_entsize m sec)] else [])"

definition reloc_jobs :: "memory \<Rightarrow> u32 \<Rightarrow> (u32 \<times> nat) list" where
  "reloc_jobs m header = concat (map (\<lambda>c. section_jobs m (elf_section m header (of_nat c))) [0..<unat (elf_shnum m header)])"

text \<open>The word after the relocation: S + A, or S + A - P.\<close>

definition reloc_word :: "reloc \<Rightarrow> u32 \<Rightarrow> u32" where
  "reloc_word = (\<lambda>(kind, symval, ref) A.
     case symval of
       None \<Rightarrow> A
     | Some S \<Rightarrow> if kind = R_386_32 then S + A else if kind = R_386_PC32 then S + A - ref else A)"

definition reloc_site :: "reloc \<Rightarrow> u32" where "reloc_site = (\<lambda>(kind, symval, ref). ref)"

definition reloc_patch :: "reloc \<Rightarrow> memory \<Rightarrow> memory" where
  "reloc_patch r m =
     (if fst r = R_386_NONE then m else st32 m (reloc_site r) (reloc_word r (ld32 m (reloc_site r))))"

definition reloc_ok :: "reloc \<Rightarrow> bool" where
  "reloc_ok = (\<lambda>(kind, symval, ref). kind \<in> {R_386_NONE, R_386_32, R_386_PC32}
     \<and> symval \<noteq> None \<and> symval \<noteq> Some ELF_RELOC_ERR)"

lemma section_places:
  "elf_section m header k = section_at m header k" "header + sh_offset m (section_at m header k) = section_base m header k"
  by (simp_all add: elf_section_def elf_sheader_def elf_shoff_def sizeof_shdr_def section_at_def section_base_def sh_offset_def)

text \<open>The loader's function finds the value of every symbol that has one.\<close>

lemma elf_get_symval_value:
  assumes "sym_value env header s k n = Some v"
  shows "elf_get_symval env header k n s = (v, s)"
proof (cases "n = 0")
  case True
  then show ?thesis using assms by (simp add: sym_value_def elf_get_symval_def SHN_UNDEF_def Let_def)
next
  case False
  let ?m = "mem s"
  let ?sym = "section_base ?m header k + 16 * n"
  let ?size = "ld32 ?m (section_at ?m header k + 20)"
  have k: "k \<noteq> 0" "\<not> ?size div 16 \<le> n" using assms False by (auto simp: sym_value_def Let_def split: if_splits)
  have "unat n < unat ?size div 16" using k(2) by (simp add: word_le_nat_alt unat_div)
  then have size: "\<not> ?size \<le> n" by (simp add: word_le_nat_alt)
  have get: "elf_get_symval env header k n s =
     (if ld16 ?m (?sym + 14) = 0 then
        (let name = section_base ?m header (ld32 ?m (section_at ?m header k + 24)) + ld32 ?m ?sym; target = elf_lookup_symbol env name s
         in if target = 0 then
              (if drop_bit 4 (?m (?sym + 12)) AND 2 \<noteq> 0 then (0, s)
               else (ELF_RELOC_ERR, elf_ERROR env (line ''Undefined External Symbol : %s.'') [name] s))
            else (target, s))
      else if ld16 ?m (?sym + 14) = SHN_ABS env then (ld32 ?m (?sym + 4), s)
      else (header + ld32 ?m (?sym + 4) + ld32 ?m (section_at ?m header (ucast (ld16 ?m (?sym + 14))) + 16), s))"
    using False k(1) size
    by (simp add: elf_get_symval_def Let_def section_places(1) sh_size_def SHN_UNDEF_def unat_eq_0 st_name_def st_value_def
        st_shndx_def st_info_def sh_link_def sh_offset_def sizeof_sym_def section_base_def ELF32_ST_BIND_def STB_WEAK_def)
  show ?thesis
    using assms False k unfolding get sym_value_def Let_def
    by (auto simp: section_base_def split: if_splits)
qed

lemma elf_do_reloc_patches:
  assumes "reloc_ok (reloc_entry env header s (sec, i))"
  shows "\<exists>v. v \<noteq> ELF_RELOC_ERR
    \<and> elf_do_reloc env header (header + sh_offset (mem s) sec + sizeof_rel * of_nat i) sec s
      = (v, s\<lparr>mem := reloc_patch (reloc_entry env header s (sec, i)) (mem s)\<rparr>)"
proof -
  define rel where "rel = header + sh_offset (mem s) sec + sizeof_rel * of_nat i"
  define symbol where "symbol = ELF32_R_SYM (r_info (mem s) rel)"
  define ref where "ref = header + sh_offset (mem s) (elf_section (mem s) header (sh_info (mem s) sec)) + r_offset (mem s) rel"
  define kind where "kind = ELF32_R_TYPE (r_info (mem s) rel)"
  have "reloc_entry env header s (sec, i) = (kind, sym_value env header s (sh_link (mem s) sec) symbol, ref)"
    by (simp add: reloc_entry_def Let_def kind_def ref_def rel_def symbol_def sh_offset_def sizeof_rel_def r_info_def
        ELF32_R_TYPE_def ELF32_R_SYM_def sh_link_def sh_info_def r_offset_def section_places(1) section_base_def)
  with assms obtain v where e: "reloc_entry env header s (sec, i) = (kind, Some v, ref)"
    and ok: "kind \<in> {R_386_NONE, R_386_32, R_386_PC32}" "v \<noteq> ELF_RELOC_ERR"
    and v: "sym_value env header s (sh_link (mem s) sec) symbol = Some v"
    by (auto simp: reloc_ok_def)
  have "symbol = 0 \<Longrightarrow> v = 0" using v by (simp add: sym_value_def Let_def)
  then have "(if unat symbol \<noteq> SHN_UNDEF then elf_get_symval env header (sh_link (mem s) sec) symbol s else (0, s)) = (v, s)"
    using elf_get_symval_value [OF v] by (simp add: SHN_UNDEF_def unat_eq_0)
  then have "elf_do_reloc env header rel sec s = (v, s\<lparr>mem := reloc_patch (kind, Some v, ref) (mem s)\<rparr>)"
    using ok unfolding elf_do_reloc_def Let_def symbol_def [symmetric] ref_def [symmetric] kind_def [symmetric]
    by (auto simp: reloc_patch_def reloc_word_def reloc_site_def DO_386_32_def DO_386_PC32_def R_386_NONE_def R_386_32_def
        R_386_PC32_def kind_def)
  then show ?thesis using ok(2) e by (auto simp: rel_def)
qed

text \<open>Patches write the words at their sites and nothing else.\<close>

definition patched :: "reloc list \<Rightarrow> u32 \<Rightarrow> bool" where
  "patched rs x \<longleftrightarrow> list_ex (\<lambda>r. fst r \<noteq> R_386_NONE \<and> in_region (reloc_site r) 4 x) rs"

definition sites_apart :: "reloc list \<Rightarrow> bool" where
  "sites_apart = sorted_wrt (\<lambda>r r'. fst r = R_386_NONE \<or> fst r' = R_386_NONE \<or> sep (reloc_site r) 4 (reloc_site r') 4)"

lemma fold_patch_outside:
  assumes "\<not> patched rs x"
  shows "fold reloc_patch rs m x = m x"
  using assms by (induction rs arbitrary: m) (auto simp: patched_def reloc_patch_def st32_outside)

lemma fold_patch_word:
  assumes "sites_apart rs" and "r \<in> set rs" and "fst r \<noteq> R_386_NONE"
  shows "ld32 (fold reloc_patch rs m) (reloc_site r) = reloc_word r (ld32 m (reloc_site r))"
  using assms
proof (induction rs arbitrary: m)
  case (Cons p ps)
  have apart: "\<forall>q \<in> set ps. fst p = R_386_NONE \<or> fst q = R_386_NONE \<or> sep (reloc_site p) 4 (reloc_site q) 4"
    and rest: "sites_apart ps" using Cons.prems(1) by (simp_all add: sites_apart_def)
  show ?case
  proof (cases "r \<in> set ps")
    case True
    then have "ld32 (reloc_patch p m) (reloc_site r) = ld32 m (reloc_site r)"
      using apart Cons.prems(3) by (auto simp: reloc_patch_def ld32_st32_other)
    then show ?thesis using Cons.IH [OF rest True Cons.prems(3)] by simp
  next
    case False
    then have r: "r = p" using Cons.prems(2) by simp
    have "ld32 (fold reloc_patch ps (reloc_patch p m)) (reloc_site p) = ld32 (reloc_patch p m) (reloc_site p)"
    proof (intro ld32_frame fold_patch_outside)
      fix x assume "in_region (reloc_site p) 4 x"
      then show "\<not> patched ps x"
        using apart Cons.prems(3) r sep_not_in_region sep_commute by (fastforce simp: patched_def list_ex_iff)
    qed
    moreover have "ld32 (reloc_patch p m) (reloc_site p) = reloc_word p (ld32 m (reloc_site p))"
      using Cons.prems(3) r by (simp add: reloc_patch_def)
    ultimately show ?thesis using r by simp
  qed
qed simp

text \<open>
  A file that relocation does not damage: whatever the words to relocate hold, the section headers, the entries
  of the relocation sections, the values of their symbols and the entry point are the same.
\<close>

definition file_relocs :: "('a hw_scheme) elf_env \<Rightarrow> u32 \<Rightarrow> 'a hw_scheme \<Rightarrow> reloc list" where
  "file_relocs env header s = map (reloc_entry env header s) (reloc_jobs (mem s) header)"

definition agrees_outside :: "('a hw_scheme) elf_env \<Rightarrow> u32 \<Rightarrow> 'a hw_scheme \<Rightarrow> memory \<Rightarrow> bool" where
  "agrees_outside env header s m \<longleftrightarrow> (\<forall>x. \<not> patched (file_relocs env header s) x \<longrightarrow> m x = mem s x)"

definition same_sections :: "u32 \<Rightarrow> memory \<Rightarrow> memory \<Rightarrow> bool" where
  "same_sections header m m' \<longleftrightarrow> elf_entry m' header = elf_entry m header \<and> elf_shnum m' header = elf_shnum m header
     \<and> list_all (\<lambda>c. let sec = elf_section m header (of_nat c) in sh_type m' sec = sh_type m sec
         \<and> sh_size m' sec = sh_size m sec \<and> sh_entsize m' sec = sh_entsize m sec) [0..<unat (elf_shnum m header)]"

definition undamaged :: "('a hw_scheme) elf_env \<Rightarrow> u32 \<Rightarrow> 'a hw_scheme \<Rightarrow> bool" where
  "undamaged env header s \<longleftrightarrow> (\<forall>m. agrees_outside env header s m \<longrightarrow> same_sections header (mem s) m
     \<and> file_relocs env header s = map (reloc_entry env header (s\<lparr>mem := m\<rparr>)) (reloc_jobs (mem s) header))"

definition entries_sized :: "memory \<Rightarrow> u32 \<Rightarrow> bool" where
  "entries_sized m header = list_all (\<lambda>c. let sec = elf_section m header (of_nat c) in
     sh_type m sec = SHT_REL \<longrightarrow> sh_entsize m sec \<noteq> 0) [0..<unat (elf_shnum m header)]"

lemma entries_sized_section:
  assumes "entries_sized m header" and "c < unat (elf_shnum m header)" and "sec = elf_section m header (of_nat c)"
    and "sh_type m sec = SHT_REL"
  shows "sh_entsize m sec \<noteq> 0"
  using assms by (simp add: entries_sized_def list_all_iff Let_def)

lemma agrees_outside_patch:
  assumes "agrees_outside env header s m" and "r \<in> set (file_relocs env header s)"
  shows "agrees_outside env header s (reloc_patch r m)"
  unfolding agrees_outside_def
proof (intro allI impI)
  fix x assume x: "\<not> patched (file_relocs env header s) x"
  then have "\<not> patched [r] x" using assms(2) by (auto simp: patched_def list_ex_iff)
  then show "reloc_patch r m x = mem s x"
    using fold_patch_outside [of "[r]" x m] assms(1) x by (simp add: agrees_outside_def)
qed

lemma agrees_outside_fold:
  assumes "agrees_outside env header s m" and "set rs \<subseteq> set (file_relocs env header s)"
  shows "agrees_outside env header s (fold reloc_patch rs m)"
  using assms by (induction rs arbitrary: m) (simp_all add: agrees_outside_patch)

lemma section_jobs_sub:
  assumes "c < unat (elf_shnum m header)"
  shows "set (section_jobs m (elf_section m header (of_nat c))) \<subseteq> set (reloc_jobs m header)"
  using assms by (auto simp: reloc_jobs_def)

lemma undamaged_section:
  assumes "undamaged env header s" and "agrees_outside env header s m" and "c < unat (elf_shnum (mem s) header)"
    and sec: "sec = elf_section (mem s) header (of_nat c)"
  shows "sh_type m sec = sh_type (mem s) sec" "sh_size m sec = sh_size (mem s) sec"
    "sh_entsize m sec = sh_entsize (mem s) sec" "elf_shnum m header = elf_shnum (mem s) header"
    "j \<in> set (section_jobs (mem s) sec) \<Longrightarrow> reloc_entry env header (s\<lparr>mem := m\<rparr>) j = reloc_entry env header s j"
proof -
  have same: "same_sections header (mem s) m" using assms(1,2) by (simp add: undamaged_def)
  show "sh_type m sec = sh_type (mem s) sec" "sh_size m sec = sh_size (mem s) sec"
    "sh_entsize m sec = sh_entsize (mem s) sec" "elf_shnum m header = elf_shnum (mem s) header"
    using same assms(3) by (simp_all add: same_sections_def list_all_iff Let_def sec)
  assume "j \<in> set (section_jobs (mem s) sec)"
  then have "j \<in> set (reloc_jobs (mem s) header)" using section_jobs_sub [OF assms(3)] sec by auto
  moreover have "map (reloc_entry env header s) (reloc_jobs (mem s) header)
      = map (reloc_entry env header (s\<lparr>mem := m\<rparr>)) (reloc_jobs (mem s) header)"
    using assms(1,2) by (simp add: undamaged_def file_relocs_def)
  ultimately show "reloc_entry env header (s\<lparr>mem := m\<rparr>) j = reloc_entry env header s j" by auto
qed

lemma reloc_loop_section:
  assumes elf: "undamaged env header s" "list_all reloc_ok (file_relocs env header s)" "entries_sized (mem s) header"
    and c: "c < unat (elf_shnum (mem s) header)" and sec: "sec = elf_section (mem s) header (of_nat c)"
    and rel: "sh_type (mem s) sec = SHT_REL"
    and n: "n = unat (sh_size (mem s) sec div sh_entsize (mem s) sec)"
    and "i \<le> n" and "agrees_outside env header s m"
  shows "reloc_loop env header sec (of_nat i) (s\<lparr>mem := m\<rparr>)
    = Inr (0, s\<lparr>mem := fold reloc_patch (map (\<lambda>j. reloc_entry env header s (sec, j)) [i..<n]) m\<rparr>)"
  using assms(8,9)
proof (induction "n - i" arbitrary: i m)
  case 0
  note same = undamaged_section [OF elf(1) "0.prems"(2) c sec]
  have "\<not> (of_nat i :: u32) < sh_size (mem s) sec div sh_entsize (mem s) sec"
    using "0.hyps" "0.prems"(1) n by (simp add: word_less_nat_alt unat_of_nat take_bit_nat_eq_self)
  moreover have "sh_entsize (mem s) sec \<noteq> 0" by (rule entries_sized_section [OF elf(3) c sec rel])
  ultimately show ?case using "0.hyps" "0.prems"(1) by (simp add: reloc_loop.simps same)
next
  case (Suc k)
  note same = undamaged_section [OF elf(1) Suc.prems(2) c sec]
  have i: "i < n" using Suc.hyps(2) by simp
  let ?r = "reloc_entry env header s (sec, i)"
  have "n < 4294967296" using n unat_lt_u32 by simp
  then have less: "(of_nat i :: u32) < sh_size (mem s) sec div sh_entsize (mem s) sec"
    using i n by (simp add: word_less_nat_alt unat_of_nat take_bit_nat_eq_self)
  have size: "sh_entsize (mem s) sec \<noteq> 0" by (rule entries_sized_section [OF elf(3) c sec rel])
  have job: "(sec, i) \<in> set (section_jobs (mem s) sec)" using i n rel by (auto simp: section_jobs_def)
  then have r: "?r \<in> set (file_relocs env header s)" using section_jobs_sub [OF c] sec by (auto simp: file_relocs_def)
  have e: "reloc_entry env header (s\<lparr>mem := m\<rparr>) (sec, i) = ?r" by (rule same(5) [OF job])
  have ok: "reloc_ok (reloc_entry env header (s\<lparr>mem := m\<rparr>) (sec, i))" using e r elf(2) by (auto simp: list_all_iff)
  obtain v where "v \<noteq> ELF_RELOC_ERR"
    "elf_do_reloc env header (header + sh_offset m sec + sizeof_rel * of_nat i) sec (s\<lparr>mem := m\<rparr>)
      = (v, s\<lparr>mem := reloc_patch ?r m\<rparr>)"
    using elf_do_reloc_patches [OF ok] e by auto
  then have "reloc_loop env header sec (of_nat i) (s\<lparr>mem := m\<rparr>)
      = reloc_loop env header sec (of_nat (Suc i)) (s\<lparr>mem := reloc_patch ?r m\<rparr>)"
    using less size by (subst reloc_loop.simps) (simp add: same add.commute)
  also have "\<dots> = Inr (0, s\<lparr>mem := fold reloc_patch (map (\<lambda>j. reloc_entry env header s (sec, j)) [Suc i..<n]) (reloc_patch ?r m)\<rparr>)"
    using Suc.hyps(1) [of "Suc i"] Suc.hyps(2) i agrees_outside_patch [OF Suc.prems(2) r] by simp
  finally show ?case using i by (simp add: upt_conv_Cons)
qed

text \<open>One round of the outer loop, over a section of any type.\<close>

lemma stage2_section:
  assumes elf: "undamaged env header s" "list_all reloc_ok (file_relocs env header s)" "entries_sized (mem s) header"
    and c: "c < unat (elf_shnum (mem s) header)" and sec: "sec = elf_section (mem s) header (of_nat c)"
    and m: "agrees_outside env header s m"
  shows "(if sh_type m sec = SHT_REL then reloc_loop env header sec 0 (s\<lparr>mem := m\<rparr>) else Inr (0, s\<lparr>mem := m\<rparr>))
    = Inr (0, s\<lparr>mem := fold reloc_patch (map (reloc_entry env header s) (section_jobs (mem s) sec)) m\<rparr>)"
proof (cases "sh_type (mem s) sec = SHT_REL")
  case True
  show ?thesis
    using reloc_loop_section [OF elf c sec True refl le0 m] True undamaged_section(1) [OF elf(1) m c sec]
    by (simp add: section_jobs_def comp_def)
next
  case False
  then show ?thesis using undamaged_section(1) [OF elf(1) m c sec] by (simp add: section_jobs_def)
qed

lemma stage2_loop_sections:
  assumes elf: "undamaged env header s" "list_all reloc_ok (file_relocs env header s)" "entries_sized (mem s) header"
    and n: "n = unat (elf_shnum (mem s) header)" and "c \<le> n" and "agrees_outside env header s m"
  shows "stage2_loop env header (elf_sheader (mem s) header) (of_nat c) (s\<lparr>mem := m\<rparr>)
    = Inr (0, s\<lparr>mem := fold reloc_patch (map (reloc_entry env header s)
        (concat (map (\<lambda>c. section_jobs (mem s) (elf_section (mem s) header (of_nat c))) [c..<n]))) m\<rparr>)"
  using assms(5,6)
proof (induction "n - c" arbitrary: c m)
  case 0
  then have "c = n" by simp
  moreover have "elf_shnum m header = elf_shnum (mem s) header"
    using elf(1) "0.prems"(2) by (simp add: undamaged_def same_sections_def)
  ultimately show ?case using n by (simp add: stage2_loop.simps word_less_nat_alt)
next
  case (Suc k)
  have c: "c < n" using Suc.hyps(2) by simp
  let ?sec = "elf_section (mem s) header (of_nat c)"
  let ?m = "fold reloc_patch (map (reloc_entry env header s) (section_jobs (mem s) ?sec)) m"
  have cn: "c < unat (elf_shnum (mem s) header)" using c n by simp
  note same = undamaged_section(4) [OF elf(1) Suc.prems(2) cn refl]
  have "n < 65536" using n unsigned_less [of "elf_shnum (mem s) header"] by simp
  then have "(of_nat c :: u32) < ucast (elf_shnum (mem s) header)"
    using c n by (simp add: word_less_nat_alt unat_of_nat take_bit_nat_eq_self unsigned_ucast_eq)
  then have "stage2_loop env header (elf_sheader (mem s) header) (of_nat c) (s\<lparr>mem := m\<rparr>)
      = stage2_loop env header (elf_sheader (mem s) header) (of_nat (Suc c)) (s\<lparr>mem := ?m\<rparr>)"
    using stage2_section [OF elf cn refl Suc.prems(2), unfolded elf_section_def]
    by (subst stage2_loop.simps) (simp add: same add.commute elf_section_def ELF_RELOC_ERR_def Let_def)
  also have "agrees_outside env header s ?m"
    using section_jobs_sub [OF cn] by (intro agrees_outside_fold [OF Suc.prems(2)]) (auto simp: file_relocs_def)
  then have "stage2_loop env header (elf_sheader (mem s) header) (of_nat (Suc c)) (s\<lparr>mem := ?m\<rparr>)
      = Inr (0, s\<lparr>mem := fold reloc_patch (map (reloc_entry env header s)
        (concat (map (\<lambda>c. section_jobs (mem s) (elf_section (mem s) header (of_nat c))) [Suc c..<n]))) ?m\<rparr>)"
    using Suc.hyps(1) [of "Suc c" ?m] Suc.hyps(2) c by simp
  finally show ?case using c by (simp add: upt_conv_Cons)
qed

lemma stage2_relocates:
  assumes "undamaged env header s" and "list_all reloc_ok (file_relocs env header s)" and "entries_sized (mem s) header"
    and "sites_apart (file_relocs env header s)"
  shows "\<exists>m. elf_load_stage2 env header s = Inr (0, s\<lparr>mem := m\<rparr>) \<and> elf_entry m header = elf_entry (mem s) header
    \<and> (\<forall>r \<in> set (file_relocs env header s). fst r \<noteq> R_386_NONE
        \<longrightarrow> ld32 m (reloc_site r) = reloc_word r (ld32 (mem s) (reloc_site r)))
    \<and> (\<forall>x. \<not> patched (file_relocs env header s) x \<longrightarrow> m x = mem s x)"
proof -
  let ?m = "fold reloc_patch (file_relocs env header s) (mem s)"
  have start: "agrees_outside env header s (mem s)" by (simp add: agrees_outside_def)
  from stage2_loop_sections [OF assms(1-3) refl le0 this]
  have "elf_load_stage2 env header s = Inr (0, s\<lparr>mem := ?m\<rparr>)"
    by (simp add: elf_load_stage2_def file_relocs_def reloc_jobs_def)
  moreover have "same_sections header (mem s) ?m"
    using assms(1) agrees_outside_fold [OF start order_refl] unfolding undamaged_def by blast
  then have "elf_entry ?m header = elf_entry (mem s) header" by (simp add: same_sections_def)
  ultimately show ?thesis using fold_patch_word [OF assms(4)] fold_patch_outside by (intro exI [of _ ?m]) simp
qed

text \<open>A file whose sections are all in the file leaves nothing to do for the first stage.\<close>

definition wants_memory :: "memory \<Rightarrow> u32 \<Rightarrow> bool" where
  "wants_memory m sec \<longleftrightarrow> sh_type m sec = SHT_NOBITS \<and> sh_size m sec \<noteq> 0 \<and> sh_flags m sec AND SHF_ALLOC \<noteq> 0"

definition all_in_file :: "memory \<Rightarrow> u32 \<Rightarrow> bool" where
  "all_in_file m header = list_all (\<lambda>c. \<not> wants_memory m (elf_section m header (of_nat c))) [0..<unat (elf_shnum m header)]"

lemma stage1_loop_idle:
  assumes "\<And>c. counter \<le> c \<Longrightarrow> c < ucast (elf_shnum (mem s) header) \<Longrightarrow> \<not> wants_memory (mem s) (shdr + sizeof_shdr * c)"
  shows "stage1_loop env header shdr counter s = s"
  using assms
proof (induction env header shdr counter s rule: stage1_loop.induct)
  case (1 env header shdr counter s)
  show ?case
  proof (cases "counter < ucast (elf_shnum (mem s) header)")
    case True
    have "stage1_section env header (shdr + sizeof_shdr * counter) s = s"
      using "1.prems" [OF order_refl True] by (auto simp: stage1_section_def wants_memory_def)
    moreover have "counter \<le> counter + 1" using counter_measure [OF True] by (simp add: word_le_nat_alt)
    then have "counter \<le> c" if "counter + 1 \<le> c" for c using that by (rule order_trans)
    ultimately show ?thesis
      using "1.IH" [OF True] "1.prems" True by (subst stage1_loop.simps) simp
  qed (simp add: stage1_loop.simps)
qed

lemma stage1_all_in_file:
  assumes "all_in_file (mem s) header"
  shows "elf_load_stage1 env header s = (0, s)"
proof -
  have "\<not> wants_memory (mem s) (elf_sheader (mem s) header + sizeof_shdr * c)"
    if "c < ucast (elf_shnum (mem s) header)" for c
  proof -
    have "unat c < unat (ucast (elf_shnum (mem s) header) :: u32)" using that by (simp only: word_less_nat_alt)
    also have "\<dots> \<le> unat (elf_shnum (mem s) header)" by (simp only: unsigned_ucast_eq take_bit_nat_less_eq_self)
    finally have "unat c \<in> set [0..<unat (elf_shnum (mem s) header)]" by (simp only: set_upt atLeast0LessThan lessThan_iff)
    then show ?thesis
      using assms unfolding all_in_file_def list_all_iff elf_section_def by (metis of_nat_unat ucast_id)
  qed
  then have "stage1_loop env header (elf_sheader (mem s) header) 0 s = s" by (rule stage1_loop_idle)
  then show ?thesis by (simp only: elf_load_stage1_def)
qed

text \<open>
  C32. Loading a relocatable file whose sections are all in the file and whose first byte is 0x07, as the header file has it (an ELF file proper
  starts with 0x7F and is turned away): where the relocation entries have known types and their symbols have values, the words to relocate are
  apart from each other and what the loader reads does not depend on them, the loader returns the entry point, each of these
  words has become S + A or S + A - P, where S is the value the ELF layout gives the symbol, and no other byte has changed.
\<close>
theorem elf_load_file_relocates:
  assumes "supported_header (mem s) header" and "elf_type (mem s) header = ET_REL" and "all_in_file (mem s) header"
    and "undamaged env header s" and "list_all reloc_ok (file_relocs env header s)" and "entries_sized (mem s) header"
    and "sites_apart (file_relocs env header s)"
  shows "\<exists>m. elf_load_file env header s = Inr (Some (elf_entry (mem s) header), s\<lparr>mem := m\<rparr>)
    \<and> (\<forall>r \<in> set (file_relocs env header s). fst r \<noteq> R_386_NONE
        \<longrightarrow> ld32 m (reloc_site r) = reloc_word r (ld32 (mem s) (reloc_site r)))
    \<and> (\<forall>x. \<not> patched (file_relocs env header s) x \<longrightarrow> m x = mem s x)"
proof -
  obtain m where m: "elf_load_stage2 env header s = Inr (0, s\<lparr>mem := m\<rparr>)" "elf_entry m header = elf_entry (mem s) header"
    and rest: "\<forall>r \<in> set (file_relocs env header s). fst r \<noteq> R_386_NONE
        \<longrightarrow> ld32 m (reloc_site r) = reloc_word r (ld32 (mem s) (reloc_site r))"
      "\<forall>x. \<not> patched (file_relocs env header s) x \<longrightarrow> m x = mem s x"
    using stage2_relocates [OF assms(4-7)] by blast
  have "elf_load_rel env header s = Inr (elf_entry (mem s) header, s\<lparr>mem := m\<rparr>)"
    using m by (simp add: elf_load_rel_def stage1_all_in_file [OF assms(3)] ELF_RELOC_ERR_def)
  then have "elf_load_file env header s = Inr (Some (elf_entry (mem s) header), s\<lparr>mem := m\<rparr>)"
    by (simp add: elf_load_file_def elf_supported [OF assms(1)] assms(2) ET_REL_def ET_EXEC_def)
  then show ?thesis using rest by blast
qed

text \<open>A file at 0x1000 with four sections: nothing, text, relocations of the text, symbols.\<close>

definition sample_env :: "hw elf_env" where
  "sample_env = \<lparr>elf_ERROR = (\<lambda>msg args s. s), elf_DEBUG = (\<lambda>msg args s. s), SHN_ABS = 0xFFF1, malloc = (\<lambda>size s. (0x100000, s)),
     elf_lookup_symbol = (\<lambda>name s. 0)\<rparr>"

definition sample_elf :: memory where
  "sample_elf = (\<lambda>_. 0)(0x1000 := 0x07, 0x1001 := 0x45, 0x1002 := 0x4C, 0x1003 := 0x46, 0x1004 := 1, 0x1005 := 1, 0x1006 := 1,
     0x1010 := 1, 0x1012 := 3, 0x1018 := 0x42, 0x1020 := 0x34, 0x1030 := 4,
     0x1060 := 1, 0x106D := 0x01, 0x1070 := 0x40,
     0x1088 := 9, 0x1095 := 0x02, 0x1098 := 24, 0x109C := 3, 0x10A0 := 1, 0x10A8 := 12,
     0x10B0 := 2, 0x10BD := 0x03, 0x10C0 := 32,
     0x1110 := 4, 0x1120 := 8,
     0x1200 := 0x10, 0x1204 := 1, 0x1205 := 1, 0x120C := 0x20, 0x1210 := 2, 0x1211 := 1,
     0x1314 := 8, 0x131E := 1)"

definition sample_state :: hw where
  "sample_state = \<lparr>mem = sample_elf, outs = [], inp = (\<lambda>_. 0), inpw = (\<lambda>_. 0), iflag = False, cr0 = 0, cr2 = 0, cr3 = 0\<rparr>"

lemmas elf_fields = elf_type_def elf_machine_def elf_entry_def elf_shoff_def elf_shnum_def elf_shstrndx_def sizeof_shdr_def
  sh_type_def sh_flags_def sh_offset_def sh_size_def sh_link_def sh_info_def sh_entsize_def sizeof_sym_def st_name_def
  st_value_def st_info_def st_shndx_def sizeof_rel_def r_offset_def r_info_def elf_sheader_def elf_section_def
  SHN_UNDEF_def SHT_NOBITS_def SHT_REL_def ELF32_R_SYM_def ELF32_R_TYPE_def R_386_NONE_def R_386_32_def R_386_PC32_def
  ELF_RELOC_ERR_def

lemma sample_memory: "mem sample_state = sample_elf"
  by (simp add: sample_state_def)

lemma sample_jobs: "reloc_jobs sample_elf 0x1000 = [(0x1084, 0), (0x1084, 1)]"
  by code_simp

text \<open>The words of the file that the second stage reads.\<close>

lemma sample_words:
  "ld16 sample_elf 0x1030 = 4" "ld32 sample_elf 0x1020 = 0x34" "ld32 sample_elf 0x1018 = 0x42"
  "ld32 sample_elf 0x106C = 0x100" "ld32 sample_elf 0x1094 = 0x200" "ld32 sample_elf 0x109C = 3"
  "ld32 sample_elf 0x10A0 = 1" "ld32 sample_elf 0x10BC = 0x300" "ld32 sample_elf 0x10C0 = 32"
  "ld32 sample_elf 0x1200 = 0x10" "ld32 sample_elf 0x1204 = 0x101" "ld32 sample_elf 0x120C = 0x20" "ld32 sample_elf 0x1210 = 0x102"
  "ld32 sample_elf 0x1314 = 8" "ld16 sample_elf 0x131E = 1"
  by (simp_all add: ld16_def ld32_def sample_elf_def)

definition text_only :: "memory \<Rightarrow> bool" where
  "text_only m \<longleftrightarrow> (\<forall>x. \<not> in_region 0x1100 0x100 x \<longrightarrow> m x = sample_elf x)"

lemma text_only_word:
  assumes "text_only m" and "sep 0x1100 0x100 a 4"
  shows "ld32 m a = ld32 sample_elf a" "ld16 m a = ld16 sample_elf a"
proof -
  have same: "m x = sample_elf x" if "in_region a 4 x" for x
    using assms(1) sep_not_in_region [OF assms(2) that] by (simp add: text_only_def)
  show "ld32 m a = ld32 sample_elf a" by (rule ld32_frame) (rule same)
  show "ld16 m a = ld16 sample_elf a" by (rule ld16_frame) (rule same, simp add: in_region_def)
qed

lemma sample_relocs_of:
  assumes "text_only m"
  shows "map (reloc_entry sample_env 0x1000 (sample_state\<lparr>mem := m\<rparr>)) [(0x1084, 0), (0x1084, 1)]
    = [(1, Some 0x1108, 0x1110), (2, Some 0x1108, 0x1120)]"
  by (simp add: reloc_entry_def sym_value_def section_base_def section_at_def Let_def elf_fields text_only_word [OF assms] sample_words sep_def sample_env_def
      word_le_nat_alt)

lemma sample_relocs: "file_relocs sample_env 0x1000 sample_state = [(1, Some 0x1108, 0x1110), (2, Some 0x1108, 0x1120)]"
proof -
  have "text_only sample_elf" by (simp add: text_only_def)
  moreover have "sample_state\<lparr>mem := sample_elf\<rparr> = sample_state" by (simp add: sample_state_def)
  ultimately show ?thesis
    using sample_relocs_of [of sample_elf] by (simp only: file_relocs_def sample_memory sample_jobs)
qed

lemma sample_sections:
  assumes "text_only m"
  shows "same_sections 0x1000 sample_elf m"
proof -
  have "[0..<4] = [0, 1, 2, 3 :: nat]" by (simp add: upt_rec)
  then show ?thesis
    by (simp add: same_sections_def elf_fields text_only_word [OF assms] sample_words sep_def Let_def)
qed

lemma sample_undamaged: "undamaged sample_env 0x1000 sample_state"
proof -
  have "text_only m" if "agrees_outside sample_env 0x1000 sample_state m" for m
    unfolding text_only_def
  proof (intro allI impI)
    fix x assume x: "\<not> in_region 0x1100 0x100 x"
    have "in_region 0x1100 0x100 x" if word: "in_region (0x1100 + of_nat k) 4 x" and k: "k \<le> 0x20" for k
    proof -
      obtain i where i: "i < 4" "x = 0x1100 + of_nat k + of_nat i" by (rule in_regionE [OF word])
      have "in_region 0x1100 0x100 (0x1100 + of_nat (k + i))" using i(1) k by (intro in_region_of_nat) simp_all
      then show ?thesis using i(2) by (simp only: of_nat_add add.assoc)
    qed
    from this [of "0x10"] this [of "0x20"] have "\<not> in_region 0x1110 4 x" "\<not> in_region 0x1120 4 x" using x by auto
    then have "\<not> patched (file_relocs sample_env 0x1000 sample_state) x"
      by (simp add: patched_def sample_relocs reloc_site_def)
    then show "m x = sample_elf x" using that by (simp add: agrees_outside_def sample_memory)
  qed
  then show ?thesis
    unfolding undamaged_def sample_relocs sample_memory sample_jobs by (metis sample_sections sample_relocs_of)
qed

theorem elf_load_file_relocates_witness:
  "\<exists>m. elf_load_file sample_env 0x1000 sample_state = Inr (Some 0x42, sample_state\<lparr>mem := m\<rparr>)
    \<and> ld32 m 0x1110 = 0x110C \<and> ld32 m 0x1120 = - 0x10"
proof -
  have "supported_header (mem sample_state) 0x1000" "all_in_file (mem sample_state) 0x1000"
    "entries_sized (mem sample_state) 0x1000" "elf_type (mem sample_state) 0x1000 = ET_REL"
    unfolding sample_memory by code_simp+
  moreover have "list_all reloc_ok (file_relocs sample_env 0x1000 sample_state)"
    "sites_apart (file_relocs sample_env 0x1000 sample_state)"
    by (simp_all add: sample_relocs reloc_ok_def sites_apart_def sep_def reloc_site_def R_386_NONE_def R_386_32_def R_386_PC32_def
        ELF_RELOC_ERR_def)
  moreover have "ld32 sample_elf 0x1110 = 4" "ld32 sample_elf 0x1120 = 8" "elf_entry sample_elf 0x1000 = 0x42"
    by (simp_all add: ld32_def sample_elf_def elf_entry_def)
  ultimately show ?thesis
    using elf_load_file_relocates [of sample_state "0x1000" sample_env] sample_undamaged
    by (fastforce simp: sample_relocs sample_memory reloc_site_def reloc_word_def R_386_NONE_def R_386_32_def R_386_PC32_def)
qed

theorem elf_files_are_rejected_witness:
  "\<exists>t. elf_load_file sample_env 0x1000 (sample_state\<lparr>mem := sample_elf(0x1000 := 0x7F)\<rparr>) = Inr (None, t)
     \<and> mem t = sample_elf(0x1000 := 0x7F)"
  using elf_files_are_rejected [of "sample_state\<lparr>mem := sample_elf(0x1000 := 0x7F)\<rparr>" "0x1000" sample_env]
  by (simp add: sample_env_def)

end
