(* ===== verification/Spec2Isabelle.thy ===== *)
theory Spec2Isabelle
  imports Kernel_Space Heap_Merge Mount Start Elf
begin

text \<open>
  Fotix is a small kernel for 32-bit x86: src/sys holds the C files of the kernel (and its assembly stubs),
  src/include their headers, src/utils the host program that builds the ramdisk. This development models the
  C code function by function and proves what the components promise each other.

  \<^bold>\<open>State.\<close> There is one record, which grows along the import chain, so that an operation of a lower
  component runs unchanged on the state of the whole kernel:
  hw (raw byte memory, log of port writes, port inputs, interrupt flag, control registers) -
  monitor (cursor) - interrupts (handler table) - dtables (GDT, IDT, TSS, segment registers) -
  vm (frames, directories, heap pointer, placement address, physical memory, heap descriptors) -
  tasks (queue pointers, stack registers, tick) - fs (ramdisk pointers) - keyboard (key maps, ring buffer) -
  kernel (failure). C objects that the code reaches through pointers (page tables and directories, heap
  headers and footers, hole indices, tasks, file nodes, strings, video memory) are bytes of the raw memory
  at the offsets of the C structures; C globals are fields. Integers are words of the width the code gives them,
  and signed comparisons are written with \<open>sint\<close>.

  \<^bold>\<open>Failures.\<close> An operation that can stop returns a sum: \<open>Halted s\<close> is a PANIC or a failed ASSERT in state \<open>s\<close>,
  \<open>Undefined\<close> a step without meaning in C (missing return value, index out of range), \<open>Out_of_fuel\<close>
  a loop that does not end or a recursion deeper than the bound.

  \<^bold>\<open>Theories\<close>, in the order of the import chain:
  \<^item> Prelude: words, results, regions of addresses and their separation.
  \<^item> Machine (include/common.h, port functions of sys/common.c): memory accesses, read-over-write.
  \<^item> Common (sys/common.c): memcpy, memset and the string functions, with their effect in closed form.
  \<^item> Monitor (sys/monitor.c, panic of sys/common.c): the text console refines an abstract 80 by 25 terminal
    (locale \<open>console\<close>); numbers are printed as reference definitions \<open>decimal\<close> and \<open>hexadecimal\<close> say.
  \<^item> Interrupts (sys/isr.c): dispatch of exceptions and IRQs. Syscall (sys/syscall.c, include/syscall.h): the three
    calls and the stubs that programs use for them.
  \<^item> Descriptor_Tables (sys/descriptor_tables.c, sys/dt_asm.s): the descriptors as the processor decodes them,
    the right vectors have gates. Interrupt_Stubs (sys/interrupt.s): the instructions around a handler, on the registers of the
    processor and the stack in memory; an interrupted program goes on with its context, except for es, fs and gs.
  \<^item> Ordered_Array (sys/ordered_array.c): insertion into an array with room keeps it sorted by any order (locale
    \<open>key_order\<close>, interpreted for addresses and for hole sizes).
  \<^item> Frames (first half of sys/paging.c): the frame bitset as a set (locale \<open>frame_bitmap\<close>), page lookup.
  \<^item> Kheap (sys/kheap.c): the placement allocator and the heap with boundary tags: best fit, splitting,
    merging, expansion and contraction. Heap_Blocks states the invariant of a whole heap (its blocks tile the
    address range, headers and footers agree, the index lists exactly the holes in the order of their sizes) and shows that
    allocations, writes of the callers into their blocks and releases between blocks in use keep it. Heap_Merge does
    the same for a release behind a hole, and shows when the index loses its order there.
  \<^item> Paging (second half of sys/paging.c): identity mapping, cloning of directories and tables, page faults.
    Paging_Start runs the tables' construction on the placement allocator, from the state of the boot loader to
    the last mapping loop; Kernel_Space goes on with the heap, the page-aligned allocation and the clone of the directory, to
    the end of initialise_paging.
  \<^item> Task (sys/task.c, sys/timer.c): the ready queue is a list in memory, the scheduler is a fair rotation of
    it (locale \<open>round_robin\<close>), contexts survive, fork appends the child, which the scheduler then loads.
  \<^item> Initrd (sys/fs.c, sys/initrd.c), Mkinit (utils/mkinit.c) and Ramdisk, which joins the two: the loop over the files
    of an image makes nodes that lookup and read work on. Mount puts the heap under it: what a client of \<^verbatim>\<open>kmalloc\<close>
    relies on is the locale \<open>block_allocator\<close>, interpreted on the heap of Kheap, and inside it \<^verbatim>\<open>initialise_initrd\<close> is
    followed from its first allocation to the directory it returns; files that went into the image come back.
  \<^item> Keyboard (sys/keyboard.c): the ring buffer is a queue (locale \<open>fifo\<close>), control keys; what a
    sequence of scancodes means is told by the key map alone (\<open>typed\<close>), and the handler follows it.
  \<^item> Boot (sys/main.c): the start, and the loop that echoes the keyboard as a step relation \<open>idle\<close> with
    interrupts of the keyboard and the timer (and so switches of the task) between its rounds, while the interrupt flag is on; the
    loop that the start really ends in has it off. Start (sys/boot.s,
    \<^verbatim>\<open>read_eip\<close> of sys/process.s): the multiboot header, and the instructions before and around the C code.
  \<^item> Elf (sys/elf.c, include/elf.h): the checks of a file, symbol values, relocation. The loader is not called by the
    kernel, is not in the build and has misspelt names; the theory says how they are read.

  \<^bold>\<open>Bounds.\<close> alloc and expand call each other (alloc expands, expand maps pages, page tables are
  allocated); the depth \<open>n\<close> of \<open>kmalloc\<close> and its callers bounds that recursion, and each theorem about
  them says which depth is enough. A loop over pages runs at most \<open>max_pages = 2 ^ 20\<close> times, as many as
  there are pages; the loop over the files of a ramdisk at most \<open>2 ^ 32\<close> times, since its counter is a word.
  String loops are partial functions, and the theorems prove that they end on terminated strings.

  \<^bold>\<open>What the code gets wrong\<close> is modelled as it is. Where it matters the theorems say so (\<open>remove_grows_array\<close>,
  \<open>free_frame_leaks\<close>, \<open>free_joins_left_hole\<close>, \<open>strcpy_drops_terminator\<close>, \<open>free_right_stale_footer\<close>, \<open>clone_table_of_mapped_is_blank\<close>,
  \<open>clone_table_drops_mapped_pages\<close>, \<open>insert_overruns_full_array\<close>, \<open>user_loop_is_deaf\<close>,
  \<open>initrd_read_overruns\<close>, \<open>elf_files_are_rejected\<close>, \<open>mkinit_argc_overflow\<close>, \<open>full_buffer_at_zero_is_lost\<close>, \<open>us_table_shifted\<close>, \<open>user_mode_without_interrupts\<close>).

  \<^bold>\<open>Not modelled.\<close> The stubs \<^verbatim>\<open>DEFN_SYSCALL2\<close> and \<^verbatim>\<open>DEFN_SYSCALL5\<close> of include/syscall.h, one with an instruction that does not
  exist, the other with types that are not among its parameters, so that no use of them compiles. In Task the value of \<^verbatim>\<open>read_eip\<close> is an
  argument of the C functions that call it. The models of the C handlers do not use the processor's stack, and the context of a task in Task is the
  three registers that the C code saves. Address translation by the processor: the raw memory is the kernel's view, physical memory is
  kept apart for the one routine that copies physical pages; so nothing is said of what a forked task finds in its cloned directory. Protection in ring 3, and
  what the processor does to the data segment registers on the way there. Interrupts in the midst of a round of the final loop. The C structure
  \<^verbatim>\<open>heap_t\<close> is kept as a record in \<open>heaps\<close>, indexed by its address, not as bytes.

  \<^bold>\<open>Left open.\<close> Releases in front of a hole leave a footer that points into the middle of the merged hole (\<open>free_right_stale_footer\<close>), so
  that no invariant of this kind survives them; the theorems say what the code does there. The start of Boot
  is proved for its first part and for the loop, Kernel_Space for initialise_paging and Mount for the ramdisk; a single
  theorem from \<^verbatim>\<open>start\<close> to the loop would need the processor's address translation for \<^verbatim>\<open>move_stack\<close>.
\<close>

end
